(* ===== verification/Lichen_Prelude.thy ===== *)
theory Lichen_Prelude
  imports Main "HOL-Library.AList" "HOL-Library.Word" "HOL-Library.List_Lexorder"
begin

text \<open>
  Shared material of the development: Rust's fixed-width unsigned arithmetic on \<^typ>\<open>nat\<close>
  (with the checked, saturating and wrapping variants the sources use), the associative
  containers of the standard library as association lists with the laws the proofs use,
  results with an error, and little-endian byte encodings.
\<close>

named_theorems rust_arith \<open>definitions of the checked, saturating and wrapping operations\<close>
named_theorems hm_simps \<open>laws of the container model\<close>

section \<open>Unsigned integers\<close>

text \<open>
  Unsigned machine integers are \<^typ>\<open>nat\<close>; the width appears in the operations. Plain
  \<open>+\<close> in a release build wraps, \<open>checked_*\<close> returns \<^term>\<open>None\<close> and \<open>saturating_*\<close>
  clamps. \<open>saturating_sub\<close> and \<open>checked_sub\<close> do not depend on the width.
\<close>

type_synonym u8 = "8 word"
type_synonym u32 = nat
type_synonym u64 = nat
type_synonym u128 = nat

definition u32_max :: nat where "u32_max = 2 ^ 32 - 1"
definition u64_max :: nat where "u64_max = 2 ^ 64 - 1"
definition u128_max :: nat where "u128_max = 2 ^ 128 - 1"

definition wrapping_add32 :: "u32 \<Rightarrow> u32 \<Rightarrow> u32" where
  "wrapping_add32 a b = (a + b) mod 2 ^ 32"

definition wrapping_add64 :: "u64 \<Rightarrow> u64 \<Rightarrow> u64" where
  "wrapping_add64 a b = (a + b) mod 2 ^ 64"

definition wrapping_mul64 :: "u64 \<Rightarrow> u64 \<Rightarrow> u64" where
  "wrapping_mul64 a b = (a * b) mod 2 ^ 64"

definition saturating_add32 :: "u32 \<Rightarrow> u32 \<Rightarrow> u32" where
  "saturating_add32 a b = min (a + b) u32_max"

definition saturating_add :: "u64 \<Rightarrow> u64 \<Rightarrow> u64" where
  "saturating_add a b = min (a + b) u64_max"

definition saturating_sub :: "nat \<Rightarrow> nat \<Rightarrow> nat" where
  "saturating_sub a b = a - b"

definition saturating_mul :: "u64 \<Rightarrow> u64 \<Rightarrow> u64" where
  "saturating_mul a b = min (a * b) u64_max"

definition saturating_add128 :: "u128 \<Rightarrow> u128 \<Rightarrow> u128" where
  "saturating_add128 a b = min (a + b) u128_max"

definition saturating_mul128 :: "u128 \<Rightarrow> u128 \<Rightarrow> u128" where
  "saturating_mul128 a b = min (a * b) u128_max"

definition checked_add :: "u64 \<Rightarrow> u64 \<Rightarrow> u64 option" where
  "checked_add a b = (if a + b \<le> u64_max then Some (a + b) else None)"

definition checked_sub :: "nat \<Rightarrow> nat \<Rightarrow> nat option" where
  "checked_sub a b = (if b \<le> a then Some (a - b) else None)"

definition checked_mul :: "u64 \<Rightarrow> u64 \<Rightarrow> u64 option" where
  "checked_mul a b = (if a * b \<le> u64_max then Some (a * b) else None)"

definition checked_add128 :: "u128 \<Rightarrow> u128 \<Rightarrow> u128 option" where
  "checked_add128 a b = (if a + b \<le> u128_max then Some (a + b) else None)"

definition checked_mul128 :: "u128 \<Rightarrow> u128 \<Rightarrow> u128 option" where
  "checked_mul128 a b = (if a * b \<le> u128_max then Some (a * b) else None)"

definition as_u64 :: "nat \<Rightarrow> u64" where
  "as_u64 x = x mod 2 ^ 64"

definition div_ceil :: "nat \<Rightarrow> nat \<Rightarrow> nat" where
  "div_ceil a b = (a + b - 1) div b"

text \<open>The casts between \<open>u32\<close> and \<open>i32\<close> used for a proposal's \<open>valid_round\<close>.\<close>

definition u32_as_i32 :: "u32 \<Rightarrow> int" where
  "u32_as_i32 r = (if r < 2 ^ 31 then int r else int r - 2 ^ 32)"

definition i32_as_u32 :: "int \<Rightarrow> u32" where
  "i32_as_u32 i = nat (i mod 2 ^ 32)"

lemmas rust_arith_defs [rust_arith] =
  wrapping_add32_def wrapping_add64_def wrapping_mul64_def saturating_add32_def
  saturating_add_def saturating_sub_def saturating_mul_def saturating_add128_def
  saturating_mul128_def checked_add_def checked_sub_def checked_mul_def
  checked_add128_def checked_mul128_def as_u64_def

lemma checked_add128_Some [simp]: "checked_add128 a b = Some c \<longleftrightarrow> c = a + b \<and> a + b \<le> u128_max"
  by (auto simp: checked_add128_def)

lemma checked_mul128_Some [simp]: "checked_mul128 a b = Some c \<longleftrightarrow> c = a * b \<and> a * b \<le> u128_max"
  by (auto simp: checked_mul128_def)

lemma checked_add_Some [simp]:
  "checked_add a b = Some c \<longleftrightarrow> c = a + b \<and> a + b \<le> u64_max"
  by (auto simp: checked_add_def)

lemma checked_sub_Some [simp]: "checked_sub a b = Some c \<longleftrightarrow> c = a - b \<and> b \<le> a"
  by (auto simp: checked_sub_def)

lemma checked_mul_Some [simp]:
  "checked_mul a b = Some c \<longleftrightarrow> c = a * b \<and> a * b \<le> u64_max"
  by (auto simp: checked_mul_def)

lemma saturating_add_ge: "a \<le> u64_max \<Longrightarrow> a \<le> saturating_add a b"
  by (simp add: saturating_add_def)

lemma saturating_add_le: "saturating_add a b \<le> a + b"
  by (simp add: saturating_add_def)

lemma saturating_add_bound [simp]: "saturating_add a b \<le> u64_max"
  by (simp add: saturating_add_def)

lemma saturating_add_exact: "a + b \<le> u64_max \<Longrightarrow> saturating_add a b = a + b"
  by (simp add: saturating_add_def)

lemma as_u64_id: "x \<le> u64_max \<Longrightarrow> as_u64 x = x"
  by (simp add: as_u64_def u64_max_def)

lemma div_ceil_le_iff: "0 < b \<Longrightarrow> div_ceil a b \<le> c \<longleftrightarrow> a \<le> c * b"
proof -
  assume b: "0 < b"
  have "div_ceil a b \<le> c \<longleftrightarrow> (a + b - 1) div b < Suc c"
    by (simp add: div_ceil_def less_Suc_eq_le)
  also have "\<dots> \<longleftrightarrow> a + b - 1 < Suc c * b"
    using b by (rule div_less_iff_less_mult)
  also have "\<dots> \<longleftrightarrow> a \<le> c * b"
    using b by auto
  finally show ?thesis .
qed

lemma u32_i32_roundtrip: "r < 2 ^ 32 \<Longrightarrow> i32_as_u32 (u32_as_i32 r) = r"
  by (auto simp: u32_as_i32_def i32_as_u32_def)

section \<open>Result values\<close>

text \<open>
  \<open>Result<T, String>\<close> is \<open>err + 'a\<close>: \<^term>\<open>Inl\<close> carries the error. The error messages of
  the source are formatted strings; the model keeps one literal per message, without the
  interpolated values. \<open>try_fold\<close> is the standard library's early-exit fold.
\<close>

type_synonym err = string

definition ok_or :: "'a option \<Rightarrow> err \<Rightarrow> err + 'a" where
  "ok_or x e = (case x of None \<Rightarrow> Inl e | Some v \<Rightarrow> Inr v)"

definition rbind :: "err + 'a \<Rightarrow> ('a \<Rightarrow> err + 'b) \<Rightarrow> err + 'b" where
  "rbind m f = (case m of Inl e \<Rightarrow> Inl e | Inr x \<Rightarrow> f x)"

fun try_fold :: "('s \<Rightarrow> 'a \<Rightarrow> err + 's) \<Rightarrow> 's \<Rightarrow> 'a list \<Rightarrow> err + 's" where
  "try_fold f s [] = Inr s"
| "try_fold f s (x # xs) = (case f s x of Inl e \<Rightarrow> Inl e | Inr s' \<Rightarrow> try_fold f s' xs)"

lemma ok_or_Inr [simp]: "ok_or x e = Inr v \<longleftrightarrow> x = Some v"
  by (simp add: ok_or_def split: option.splits)

lemma rbind_Inr [simp]: "rbind (Inr x) f = f x"
  by (simp add: rbind_def)

lemma rbind_Inl [simp]: "rbind (Inl e) f = Inl e"
  by (simp add: rbind_def)

lemma rbind_eq_Inr: "rbind m f = Inr y \<longleftrightarrow> (\<exists>x. m = Inr x \<and> f x = Inr y)"
  by (simp add: rbind_def split: sum.splits)

lemma try_fold_checked_sum:
  "try_fold (\<lambda>t x. ok_or (checked_add t (f x)) e) s xs = Inr t \<longleftrightarrow>
     t = s + sum_list (map f xs) \<and> (xs = [] \<or> t \<le> u64_max)"
proof (induction xs arbitrary: s)
  case Nil
  then show ?case by auto
next
  case (Cons x xs)
  show ?case
    using Cons.IH [of "s + f x"] by (cases "s + f x \<le> u64_max") (auto simp: ok_or_def checked_add_def)
qed

text \<open>A checked sum whose steps also test each entry, and a loop that only tests.\<close>

lemma try_fold_guarded_sum:
  assumes step: "\<And>acc x t. f acc x = Inr t \<longleftrightarrow> good x \<and> t = acc + w x \<and> t \<le> u64_max"
    and "s \<le> u64_max"
  shows "try_fold f s xs = Inr t \<longleftrightarrow> (\<forall>x \<in> set xs. good x) \<and> t = s + sum_list (map w xs) \<and> t \<le> u64_max"
  using assms(2)
proof (induction xs arbitrary: s)
  case (Cons x xs)
  show ?case
  proof (cases "f s x")
    case (Inl e)
    then have "\<not> (good x \<and> s + w x \<le> u64_max)" using step [of s x "s + w x"] by auto
    with Inl show ?thesis by auto
  next
    case (Inr s')
    then have "good x" "s' = s + w x" "s' \<le> u64_max" using step by auto
    with Cons.IH [of s'] Inr show ?thesis by (auto simp: add.assoc)
  qed
qed auto

lemma try_fold_unit: "try_fold (\<lambda>_. f) () xs = Inr u \<longleftrightarrow> (\<forall>x \<in> set xs. f x = Inr ())"
  by (induction xs) (auto split: sum.splits)

section \<open>Associative containers\<close>

text \<open>
  A \<open>HashMap\<close> or \<open>BTreeMap\<close> is an association list with distinct keys. Iteration follows
  the list; Rust leaves the iteration order of a \<open>HashMap\<close> unspecified, so wherever the
  outcome of an iteration is used, the development shows it does not depend on the order.
\<close>

type_synonym ('k, 'v) hmap = "('k \<times> 'v) list"

abbreviation hm_get :: "('k, 'v) hmap \<Rightarrow> 'k \<Rightarrow> 'v option" where
  "hm_get m k \<equiv> map_of m k"

abbreviation hm_insert :: "'k \<Rightarrow> 'v \<Rightarrow> ('k, 'v) hmap \<Rightarrow> ('k, 'v) hmap" where
  "hm_insert k v m \<equiv> AList.update k v m"

definition hm_remove :: "'k \<Rightarrow> ('k, 'v) hmap \<Rightarrow> ('k, 'v) hmap" where
  "hm_remove k m = filter (\<lambda>(k', v). k' \<noteq> k) m"

definition hm_retain :: "('k \<Rightarrow> bool) \<Rightarrow> ('k, 'v) hmap \<Rightarrow> ('k, 'v) hmap" where
  "hm_retain P m = filter (\<lambda>(k, v). P k) m"

abbreviation hm_keys :: "('k, 'v) hmap \<Rightarrow> 'k list" where
  "hm_keys m \<equiv> map fst m"

definition hm_contains :: "('k, 'v) hmap \<Rightarrow> 'k \<Rightarrow> bool" where
  "hm_contains m k \<longleftrightarrow> map_of m k \<noteq> None"

text \<open>\<open>map.entry(k).or_default()\<close> read with a default, then written back.\<close>

definition hm_get_or :: "'v \<Rightarrow> ('k, 'v) hmap \<Rightarrow> 'k \<Rightarrow> 'v" where
  "hm_get_or d m k = (case map_of m k of None \<Rightarrow> d | Some v \<Rightarrow> v)"

definition hm_add :: "'k \<Rightarrow> nat \<Rightarrow> ('k, nat) hmap \<Rightarrow> ('k, nat) hmap" where
  "hm_add k p m = hm_insert k (hm_get_or 0 m k + p) m"

definition hm_push :: "'k \<Rightarrow> 'v \<Rightarrow> ('k, 'v list) hmap \<Rightarrow> ('k, 'v list) hmap" where
  "hm_push k v m = hm_insert k (hm_get_or [] m k @ [v]) m"

lemma hm_get_insert [simp, hm_simps]:
  "map_of (AList.update k v m) k' = (if k' = k then Some v else map_of m k')"
  by (simp add: update_conv')

lemma hm_get_remove [simp, hm_simps]:
  "map_of (hm_remove k m) k' = (if k' = k then None else map_of m k')"
  by (induction m) (auto simp: hm_remove_def)

lemma hm_get_retain [simp, hm_simps]:
  "map_of (hm_retain P m) k = (if P k then map_of m k else None)"
  by (induction m) (auto simp: hm_retain_def)

lemma hm_get_or_insert [simp, hm_simps]:
  "hm_get_or d (AList.update k v m) k' = (if k' = k then v else hm_get_or d m k')"
  by (simp add: hm_get_or_def)

lemma hm_get_or_add [simp, hm_simps]:
  "hm_get_or 0 (hm_add k p m) k' = (if k' = k then hm_get_or 0 m k + p else hm_get_or 0 m k')"
  by (simp add: hm_add_def)

lemma hm_get_or_push [simp, hm_simps]:
  "hm_get_or [] (hm_push k v m) k' =
     (if k' = k then hm_get_or [] m k @ [v] else hm_get_or [] m k')"
  by (simp add: hm_push_def)

lemma hm_get_or_empty [simp, hm_simps]: "hm_get_or d [] k = d"
  by (simp add: hm_get_or_def)

lemma hm_contains_iff [simp, hm_simps]: "hm_contains m k \<longleftrightarrow> k \<in> fst ` set m"
  by (simp add: hm_contains_def map_of_eq_None_iff)

lemma distinct_keys_insert [simp, intro]:
  "distinct (map fst m) \<Longrightarrow> distinct (map fst (AList.update k v m))"
  by (rule distinct_update)

lemma keys_insert [simp]: "fst ` set (AList.update k v m) = insert k (fst ` set m)"
  using dom_update [of k v m] by simp

lemma set_update_sub: "set (AList.update k v m) \<subseteq> insert (k, v) (set m)"
  by (induction m) auto

lemma distinct_keys_remove [simp, intro]:
  "distinct (map fst m) \<Longrightarrow> distinct (map fst (hm_remove k m))"
  by (induction m) (auto simp: hm_remove_def)

lemma keys_remove [simp]: "fst ` set (hm_remove k m) = fst ` set m - {k}"
  by (auto simp: hm_remove_def image_iff)

lemma distinct_keys_retain [simp, intro]:
  "distinct (map fst m) \<Longrightarrow> distinct (map fst (hm_retain P m))"
  by (induction m) (auto simp: hm_retain_def)

text \<open>Sums over the values of a container, the basis of every total of the program.\<close>

definition hm_sum :: "('v \<Rightarrow> nat) \<Rightarrow> ('k, 'v) hmap \<Rightarrow> nat" where
  "hm_sum f m = sum_list (map (\<lambda>(k, v). f v) m)"

lemma hm_sum_Nil [simp]: "hm_sum f [] = 0"
  by (simp add: hm_sum_def)

lemma hm_sum_Cons [simp]: "hm_sum f ((k, v) # m) = f v + hm_sum f m"
  by (simp add: hm_sum_def)

lemma hm_sum_snd: "hm_sum f m = sum_list (map (\<lambda>e. f (snd e)) m)"
  by (simp add: hm_sum_def case_prod_unfold)

lemma hm_sum_insert_new: "map_of m k = None \<Longrightarrow> hm_sum f (AList.update k v m) = hm_sum f m + f v"
  by (induction m) (auto split: if_splits)

lemma hm_sum_insert_old:
  "map_of m k = Some old \<Longrightarrow> hm_sum f (AList.update k v m) + f old = hm_sum f m + f v"
  by (induction m) (auto split: if_splits)

lemma hm_sum_remove_aux: "map_of m k = None \<Longrightarrow> hm_remove k m = m"
  by (auto simp: hm_remove_def filter_id_conv map_of_eq_None_iff image_iff)

lemma hm_sum_remove:
  "distinct (map fst m) \<Longrightarrow> map_of m k = Some old \<Longrightarrow> hm_sum f (hm_remove k m) + f old = hm_sum f m"
proof (induction m)
  case (Cons p m)
  obtain k' v where p: "p = (k', v)" by force
  show ?case
  proof (cases "k' = k")
    case True
    with Cons.prems p have "map_of m k = None"
      by (simp add: map_of_eq_None_iff)
    then have "hm_remove k m = m" by (rule hm_sum_remove_aux)
    with True Cons.prems p show ?thesis by (simp add: hm_remove_def)
  next
    case False
    with Cons p show ?thesis by (auto simp: hm_remove_def)
  qed
qed simp

lemma hm_sum_ge: "map_of m k = Some v \<Longrightarrow> f v \<le> hm_sum f m"
  by (induction m) (auto split: if_splits)

end
