(* ===== verification/Crypto_Types.thy ===== *)
theory Crypto_Types
  imports Lichen_Prelude
begin

text \<open>
  The identity and signature layer: the byte-array newtypes \<open>Pubkey\<close> and \<open>Hash\<close>
  (\<open>core/src/account.rs\<close>, \<open>core/src/hash.rs\<close>), the self-contained post-quantum signatures
  and their structural validation, \<open>Keypair::sign\<close> and \<open>Keypair::verify\<close>, and the
  versioned signing envelopes of \<open>core/src/signing.rs\<close>. The SHA-256, ML-DSA and SLH-DSA
  primitives come from third-party crates: they are the fields of a \<open>crypto\<close> record that
  every definition using them takes as an argument, and the behaviour the code relies on is
  the predicate \<open>crypto_laws\<close>.
\<close>

section \<open>Byte arrays with the derived order\<close>

datatype pubkey = Pubkey (pk_bytes: "u8 list")

datatype hash = Hash (hash_bytes: "u8 list")

text \<open>\<open>#[derive(PartialOrd, Ord)]\<close> on a byte-array newtype is the lexicographic order.\<close>

instantiation pubkey :: linorder
begin

definition less_eq_pubkey :: "pubkey \<Rightarrow> pubkey \<Rightarrow> bool" where
  "less_eq_pubkey a b \<longleftrightarrow> pk_bytes a \<le> pk_bytes b"

definition less_pubkey :: "pubkey \<Rightarrow> pubkey \<Rightarrow> bool" where
  "less_pubkey a b \<longleftrightarrow> pk_bytes a < pk_bytes b"

instance
  by standard (auto simp: less_eq_pubkey_def less_pubkey_def pubkey.expand)

end

instantiation hash :: linorder
begin

definition less_eq_hash :: "hash \<Rightarrow> hash \<Rightarrow> bool" where
  "less_eq_hash a b \<longleftrightarrow> hash_bytes a \<le> hash_bytes b"

definition less_hash :: "hash \<Rightarrow> hash \<Rightarrow> bool" where
  "less_hash a b \<longleftrightarrow> hash_bytes a < hash_bytes b"

instance
  by standard (auto simp: less_eq_hash_def less_hash_def hash.expand)

end

definition hash_default :: hash where
  "hash_default = Hash (replicate 32 0)"

section \<open>Little-endian encodings\<close>

fun le_bytes :: "nat \<Rightarrow> nat \<Rightarrow> u8 list" where
  "le_bytes 0 x = []"
| "le_bytes (Suc n) x = word_of_nat (x mod 256) # le_bytes n (x div 256)"

abbreviation u64_to_le_bytes :: "u64 \<Rightarrow> u8 list" where
  "u64_to_le_bytes \<equiv> le_bytes 8"

abbreviation u32_to_le_bytes :: "u32 \<Rightarrow> u8 list" where
  "u32_to_le_bytes \<equiv> le_bytes 4"

abbreviation u16_to_le_bytes :: "nat \<Rightarrow> u8 list" where
  "u16_to_le_bytes \<equiv> le_bytes 2"

definition i32_to_le_bytes :: "int \<Rightarrow> u8 list" where
  "i32_to_le_bytes i = le_bytes 4 (i32_as_u32 i)"

lemma length_le_bytes [simp]: "length (le_bytes n x) = n"
  by (induction n arbitrary: x) auto

lemma word8_of_nat_inj:
  assumes "a < 256" "b < 256" "(word_of_nat a :: u8) = word_of_nat b"
  shows "a = b"
proof -
  from assms(3) have "unat (word_of_nat a :: u8) = unat (word_of_nat b :: u8)" by simp
  with assms(1,2) show ?thesis by (simp add: unat_of_nat)
qed

lemma le_bytes_inj: "x < 256 ^ n \<Longrightarrow> y < 256 ^ n \<Longrightarrow> le_bytes n x = le_bytes n y \<Longrightarrow> x = y"
proof (induction n arbitrary: x y)
  case 0
  then show ?case by simp
next
  case (Suc n)
  from Suc.prems have "x mod 256 = y mod 256"
    by (auto intro: word8_of_nat_inj)
  moreover have "x div 256 = y div 256"
    using Suc.prems by (intro Suc.IH) (auto simp: less_mult_imp_div_less mult.commute)
  ultimately show ?case by (metis div_mult_mod_eq)
qed

section \<open>Third-party primitives\<close>

text \<open>
  \<open>ml_dsa_public_key\<close> and \<open>ml_dsa_sign\<close> map the 32-byte seed of a \<open>Keypair\<close> (and a
  message) to the encoded verifying key and signature of the \<open>ml-dsa\<close> crate;
  \<open>ml_dsa_verify\<close>, \<open>fips204_verify\<close> and \<open>slh_dsa_verify\<close> decode their arguments and
  verify, returning false when decoding fails.
\<close>

record crypto =
  sha256 :: "u8 list \<Rightarrow> u8 list"
  ml_dsa_public_key :: "u8 list \<Rightarrow> u8 list"
  ml_dsa_sign :: "u8 list \<Rightarrow> u8 list \<Rightarrow> u8 list"
  ml_dsa_verify :: "u8 list \<Rightarrow> u8 list \<Rightarrow> u8 list \<Rightarrow> bool"
  fips204_verify :: "u8 list \<Rightarrow> u8 list \<Rightarrow> u8 list \<Rightarrow> bool"
  slh_dsa_verify :: "u8 list \<Rightarrow> u8 list \<Rightarrow> u8 list \<Rightarrow> bool"

definition hash_data :: "crypto \<Rightarrow> u8 list \<Rightarrow> hash" where
  "hash_data c data = Hash (sha256 c data)"

section \<open>Post-quantum keys and signatures\<close>

definition PQ_SCHEME_ML_DSA_65 :: u8 where "PQ_SCHEME_ML_DSA_65 = 1"
abbreviation PQ_SCHEME_SLH_DSA_128F :: u8 where "PQ_SCHEME_SLH_DSA_128F \<equiv> 2"

definition ML_DSA_65_PUBLIC_KEY_BYTES :: nat where "ML_DSA_65_PUBLIC_KEY_BYTES = 1952"
abbreviation ML_DSA_65_SIGNATURE_BYTES :: nat where "ML_DSA_65_SIGNATURE_BYTES \<equiv> 3309"
abbreviation SLH_DSA_128F_PUBLIC_KEY_BYTES :: nat where "SLH_DSA_128F_PUBLIC_KEY_BYTES \<equiv> 32"
abbreviation SLH_DSA_128F_SIGNATURE_BYTES :: nat where "SLH_DSA_128F_SIGNATURE_BYTES \<equiv> 17088"

record pq_public_key =
  pk_scheme_version :: u8
  pk_key_bytes :: "u8 list"

record pq_signature =
  sig_scheme_version :: u8
  sig_public_key :: pq_public_key
  sig_bytes :: "u8 list"

definition pq_public_key_validate :: "pq_public_key \<Rightarrow> err + unit" where
  "pq_public_key_validate k =
     (if pk_scheme_version k = PQ_SCHEME_ML_DSA_65 then
        (if length (pk_key_bytes k) \<noteq> ML_DSA_65_PUBLIC_KEY_BYTES
         then Inl ''Invalid PQ public key length'' else Inr ())
      else if pk_scheme_version k = PQ_SCHEME_SLH_DSA_128F then
        (if length (pk_key_bytes k) \<noteq> SLH_DSA_128F_PUBLIC_KEY_BYTES
         then Inl ''Invalid PQ public key length'' else Inr ())
      else Inl ''Unsupported PQ public key scheme'')"

definition pq_address :: "crypto \<Rightarrow> pq_public_key \<Rightarrow> pubkey" where
  "pq_address c k = Pubkey (pk_scheme_version k # take 31 (sha256 c (pk_key_bytes k)))"

definition pq_signature_validate :: "pq_signature \<Rightarrow> err + unit" where
  "pq_signature_validate s =
     rbind (pq_public_key_validate (sig_public_key s)) (\<lambda>_.
       if pk_scheme_version (sig_public_key s) \<noteq> sig_scheme_version s
       then Inl ''PQ signature/public-key scheme mismatch''
       else if sig_scheme_version s = PQ_SCHEME_ML_DSA_65 then
         (if length (sig_bytes s) \<noteq> ML_DSA_65_SIGNATURE_BYTES
          then Inl ''Invalid PQ signature length'' else Inr ())
       else if sig_scheme_version s = PQ_SCHEME_SLH_DSA_128F then
         (if length (sig_bytes s) \<noteq> SLH_DSA_128F_SIGNATURE_BYTES
          then Inl ''Invalid PQ signature length'' else Inr ())
       else Inl ''Unsupported PQ signature scheme'')"

definition signer_address :: "crypto \<Rightarrow> pq_signature \<Rightarrow> pubkey" where
  "signer_address c s = pq_address c (sig_public_key s)"

text \<open>A \<open>Keypair\<close> is determined by its seed; the expanded key is derived from it.\<close>

record keypair =
  kp_seed :: "u8 list"

definition keypair_public_key :: "crypto \<Rightarrow> keypair \<Rightarrow> pq_public_key" where
  "keypair_public_key c kp =
     \<lparr>pk_scheme_version = PQ_SCHEME_ML_DSA_65, pk_key_bytes = ml_dsa_public_key c (kp_seed kp)\<rparr>"

definition keypair_pubkey :: "crypto \<Rightarrow> keypair \<Rightarrow> pubkey" where
  "keypair_pubkey c kp = pq_address c (keypair_public_key c kp)"

definition keypair_sign :: "crypto \<Rightarrow> keypair \<Rightarrow> u8 list \<Rightarrow> pq_signature" where
  "keypair_sign c kp msg =
     \<lparr>sig_scheme_version = PQ_SCHEME_ML_DSA_65,
      sig_public_key = keypair_public_key c kp,
      sig_bytes = ml_dsa_sign c (kp_seed kp) msg\<rparr>"

definition keypair_verify :: "crypto \<Rightarrow> pubkey \<Rightarrow> u8 list \<Rightarrow> pq_signature \<Rightarrow> bool" where
  "keypair_verify c address msg s =
     (case pq_signature_validate s of
        Inl _ \<Rightarrow> False
      | Inr _ \<Rightarrow>
          if signer_address c s \<noteq> address then False
          else if sig_scheme_version s = PQ_SCHEME_ML_DSA_65 then
            (if ml_dsa_verify c (pk_key_bytes (sig_public_key s)) msg (sig_bytes s) then True
             else fips204_verify c (pk_key_bytes (sig_public_key s)) msg (sig_bytes s))
          else if sig_scheme_version s = PQ_SCHEME_SLH_DSA_128F then
            slh_dsa_verify c (pk_key_bytes (sig_public_key s)) msg (sig_bytes s)
          else False)"

text \<open>
  What the code relies on: digests have 32 bytes, encoded keys and signatures have the
  lengths of FIPS 204 (so the \<open>expect\<close> in \<open>Keypair::sign\<close> never fires), and a signature
  verifies under the key of the seed that made it.
\<close>

definition crypto_laws :: "crypto \<Rightarrow> bool" where
  "crypto_laws c \<longleftrightarrow>
     (\<forall>d. length (sha256 c d) = 32) \<and>
     (\<forall>s. length (ml_dsa_public_key c s) = ML_DSA_65_PUBLIC_KEY_BYTES) \<and>
     (\<forall>s m. length (ml_dsa_sign c s m) = ML_DSA_65_SIGNATURE_BYTES) \<and>
     (\<forall>s m. ml_dsa_verify c (ml_dsa_public_key c s) m (ml_dsa_sign c s m))"

lemma keypair_sign_validates:
  "crypto_laws c \<Longrightarrow> pq_signature_validate (keypair_sign c kp msg) = Inr ()"
  by (simp add: crypto_laws_def pq_signature_validate_def pq_public_key_validate_def
      keypair_sign_def keypair_public_key_def)

lemma keypair_verify_sign [simp]:
  "crypto_laws c \<Longrightarrow> keypair_verify c (keypair_pubkey c kp) msg (keypair_sign c kp msg)"
  by (simp add: keypair_verify_def keypair_sign_validates)
     (simp add: keypair_sign_def signer_address_def keypair_pubkey_def keypair_public_key_def
        crypto_laws_def)

lemma keypair_verify_address: "keypair_verify c a msg s \<Longrightarrow> a = signer_address c s"
  by (simp add: keypair_verify_def split: sum.splits if_splits)

section \<open>A concrete instance\<close>

text \<open>
  A computable (and insecure) instance of the primitives that satisfies the laws, on which
  results about signed data are evaluated.
\<close>

definition demo_crypto :: crypto where
  "demo_crypto =
     \<lparr>sha256 = (\<lambda>d. take 32 (d @ replicate 32 0)),
      ml_dsa_public_key = (\<lambda>s. take ML_DSA_65_PUBLIC_KEY_BYTES (s @ replicate ML_DSA_65_PUBLIC_KEY_BYTES 0)),
      ml_dsa_sign = (\<lambda>s m. take ML_DSA_65_SIGNATURE_BYTES
        (take ML_DSA_65_PUBLIC_KEY_BYTES (s @ replicate ML_DSA_65_PUBLIC_KEY_BYTES 0) @ m @
         replicate ML_DSA_65_SIGNATURE_BYTES 0)),
      ml_dsa_verify = (\<lambda>k m s.
        s = take ML_DSA_65_SIGNATURE_BYTES (k @ m @ replicate ML_DSA_65_SIGNATURE_BYTES 0)),
      fips204_verify = (\<lambda>k m s. False),
      slh_dsa_verify = (\<lambda>k m s. False)\<rparr>"

definition demo_keypair :: "u8 \<Rightarrow> keypair" where
  "demo_keypair n = \<lparr>kp_seed = [n]\<rparr>"

definition demo_pubkey :: "u8 \<Rightarrow> pubkey" where
  "demo_pubkey n = Pubkey (1 # n # replicate 30 0)"

lemma length_take_pad [simp]:
  "length (take n (xs @ replicate n x)) = n"
  "length (take n (xs @ ys @ replicate n x)) = n"
  by simp_all

lemma demo_crypto_laws [simp]: "crypto_laws demo_crypto"
  unfolding crypto_laws_def demo_crypto_def crypto.select_convs length_take_pad by simp

lemma take_pad_seed: "32 \<le> N \<Longrightarrow> take 31 (take 32 (take N ([n] @ replicate N 0) @ ys)) = n # replicate 30 0"
  by (cases N) (simp_all add: min_def flip: replicate_Suc)

lemma demo_keypair_pubkey [simp]: "keypair_pubkey demo_crypto (demo_keypair n) = demo_pubkey n"
proof -
  have "32 \<le> ML_DSA_65_PUBLIC_KEY_BYTES" by (simp add: ML_DSA_65_PUBLIC_KEY_BYTES_def)
  then show ?thesis
    unfolding keypair_pubkey_def keypair_public_key_def pq_address_def demo_crypto_def
      demo_keypair_def demo_pubkey_def PQ_SCHEME_ML_DSA_65_def
      crypto.select_convs pq_public_key.select_convs keypair.select_convs
    by (simp only: take_pad_seed)
qed

lemma demo_pubkey_eq_iff [simp]: "demo_pubkey m = demo_pubkey n \<longleftrightarrow> m = n"
  by (simp add: demo_pubkey_def)

end
