(* ===== verification/Signing.thy ===== *)
theory Signing
  imports Crypto_Types
begin

text \<open>
  Versioned signing envelopes (\<open>core/src/signing.rs\<close>) and the byte strings signed by BFT
  prevotes, precommits and proposals (\<open>core/src/consensus.rs\<close>). The lemmas show that an
  envelope determines its domain, chain id and payload, and that a vote's bytes determine
  its kind, height, round, block hash and timestamp, up to the one confusion the encoding
  has: a nil vote and a vote for the all-zero hash are the same bytes.
\<close>

section \<open>Envelopes\<close>

definition str_bytes :: "string \<Rightarrow> u8 list" where
  "str_bytes s = map of_char s"

abbreviation SIGNING_ENVELOPE_MAGIC :: "u8 list" where
  "SIGNING_ENVELOPE_MAGIC \<equiv> str_bytes ''LICHEN-SIG''"

abbreviation SIGNING_ENVELOPE_VERSION :: u8 where
  "SIGNING_ENVELOPE_VERSION \<equiv> 1"

abbreviation DOMAIN_NATIVE_TX :: string where "DOMAIN_NATIVE_TX \<equiv> ''native-tx''"
abbreviation DOMAIN_BLOCK :: string where "DOMAIN_BLOCK \<equiv> ''block''"
definition DOMAIN_PROPOSAL :: string where "DOMAIN_PROPOSAL = ''proposal''"
definition DOMAIN_PREVOTE :: string where "DOMAIN_PREVOTE = ''prevote''"
definition DOMAIN_PRECOMMIT :: string where "DOMAIN_PRECOMMIT = ''precommit''"

text \<open>
  The three \<open>try_from(..).expect(..)\<close> conversions of the source can only panic for a domain
  or chain id of 64 KiB or more; results about the bytes carry that bound as a hypothesis.
\<close>

definition versioned_signing_bytes :: "string \<Rightarrow> string \<Rightarrow> u8 list \<Rightarrow> u8 list" where
  "versioned_signing_bytes domain chain_id payload =
     SIGNING_ENVELOPE_MAGIC @ [SIGNING_ENVELOPE_VERSION] @
     u16_to_le_bytes (length domain) @ str_bytes domain @
     u16_to_le_bytes (length chain_id) @ str_bytes chain_id @
     u64_to_le_bytes (length payload) @ payload"

definition maybe_versioned_signing_bytes :: "string \<Rightarrow> string \<Rightarrow> u8 list \<Rightarrow> u8 list" where
  "maybe_versioned_signing_bytes domain chain_id payload =
     (if chain_id = [] then payload else versioned_signing_bytes domain chain_id payload)"

lemma length_str_bytes [simp]: "length (str_bytes s) = length s"
  by (simp add: str_bytes_def)

lemma of_char_u8_inj: "(of_char c :: u8) = of_char d \<Longrightarrow> c = d"
proof -
  assume "(of_char c :: u8) = of_char d"
  then have "(word_of_nat (of_char c) :: u8) = word_of_nat (of_char d)"
    by (simp add: of_nat_of_char)
  then have "(of_char c :: nat) = of_char d"
    by (rule word8_of_nat_inj [rotated 2]) (simp_all add: of_char_of [symmetric] nat_of_char_less_256)
  then show "c = d" by simp
qed

lemma str_bytes_inj: "str_bytes s = str_bytes t \<Longrightarrow> s = t"
  by (metis (no_types, lifting) list.inj_map_strong of_char_u8_inj str_bytes_def)

lemma append_len_inj:
  "length a = length b \<Longrightarrow> a @ x = b @ y \<Longrightarrow> a = b \<and> x = y"
  by simp

text \<open>A field preceded by its fixed-width length can be read back.\<close>

lemma length_prefix_inj:
  assumes "le_bytes n (length a) @ a @ x = le_bytes n (length b) @ b @ y"
    and "length a < 256 ^ n" "length b < 256 ^ n"
  shows "a = b \<and> x = y"
proof -
  from assms(1) have "le_bytes n (length a) = le_bytes n (length b)" and r: "a @ x = b @ y"
    by simp_all
  with assms(2,3) have "length a = length b" by (blast intro: le_bytes_inj)
  with r show ?thesis by simp
qed

lemma versioned_signing_bytes_inj:
  assumes eq: "versioned_signing_bytes d c p = versioned_signing_bytes d' c' p'"
    and "length d < 2 ^ 16" "length d' < 2 ^ 16" "length c < 2 ^ 16" "length c' < 2 ^ 16"
  shows "d = d' \<and> c = c' \<and> p = p'"
proof -
  let ?r = "\<lambda>c p. u16_to_le_bytes (length (str_bytes c)) @ str_bytes c @ u64_to_le_bytes (length p) @ p"
  from eq have "u16_to_le_bytes (length (str_bytes d)) @ str_bytes d @ ?r c p =
      u16_to_le_bytes (length (str_bytes d')) @ str_bytes d' @ ?r c' p'"
    by (simp add: versioned_signing_bytes_def)
  then have 1: "str_bytes d = str_bytes d' \<and> ?r c p = ?r c' p'"
    by (rule length_prefix_inj) (use assms in simp_all)
  then have "str_bytes c = str_bytes c' \<and>
      u64_to_le_bytes (length p) @ p = u64_to_le_bytes (length p') @ p'"
    by (intro length_prefix_inj [where n = 2]) (use assms in simp_all)
  with 1 show ?thesis by (auto dest: str_bytes_inj)
qed

section \<open>Bytes signed by votes and proposals\<close>

definition vote_hash_bytes :: "hash option \<Rightarrow> u8 list" where
  "vote_hash_bytes bh = (case bh of Some h \<Rightarrow> hash_bytes h | None \<Rightarrow> replicate 32 0)"

definition prevote_signable_bytes :: "u64 \<Rightarrow> u32 \<Rightarrow> hash option \<Rightarrow> u8 list" where
  "prevote_signable_bytes height round block_hash =
     1 # u64_to_le_bytes height @ u32_to_le_bytes round @ vote_hash_bytes block_hash"

definition prevote_signing_bytes_for_chain_id :: "string \<Rightarrow> u64 \<Rightarrow> u32 \<Rightarrow> hash option \<Rightarrow> u8 list" where
  "prevote_signing_bytes_for_chain_id chain_id height round block_hash =
     maybe_versioned_signing_bytes DOMAIN_PREVOTE chain_id
       (prevote_signable_bytes height round block_hash)"

definition precommit_signable_bytes :: "u64 \<Rightarrow> u32 \<Rightarrow> hash option \<Rightarrow> u64 \<Rightarrow> u8 list" where
  "precommit_signable_bytes height round block_hash timestamp =
     2 # u64_to_le_bytes height @ u32_to_le_bytes round @ vote_hash_bytes block_hash @
     u64_to_le_bytes timestamp"

definition precommit_signing_bytes_for_chain_id ::
  "string \<Rightarrow> u64 \<Rightarrow> u32 \<Rightarrow> hash option \<Rightarrow> u64 \<Rightarrow> u8 list" where
  "precommit_signing_bytes_for_chain_id chain_id height round block_hash timestamp =
     maybe_versioned_signing_bytes DOMAIN_PRECOMMIT chain_id
       (precommit_signable_bytes height round block_hash timestamp)"

definition proposal_signable_bytes_static :: "u64 \<Rightarrow> u32 \<Rightarrow> hash \<Rightarrow> int \<Rightarrow> u8 list" where
  "proposal_signable_bytes_static height round block_hash valid_round =
     u64_to_le_bytes height @ u32_to_le_bytes round @ hash_bytes block_hash @
     i32_to_le_bytes valid_round"

definition proposal_signing_bytes_static_for_chain_id ::
  "string \<Rightarrow> u64 \<Rightarrow> u32 \<Rightarrow> hash \<Rightarrow> int \<Rightarrow> u8 list" where
  "proposal_signing_bytes_static_for_chain_id chain_id height round block_hash valid_round =
     maybe_versioned_signing_bytes DOMAIN_PROPOSAL chain_id
       (proposal_signable_bytes_static height round block_hash valid_round)"

text \<open>A block hash as the code has it: 32 bytes.\<close>

definition wf_hash :: "hash \<Rightarrow> bool" where
  "wf_hash h \<longleftrightarrow> length (hash_bytes h) = 32"

definition wf_vote_hash :: "hash option \<Rightarrow> bool" where
  "wf_vote_hash bh = (case bh of None \<Rightarrow> True | Some h \<Rightarrow> wf_hash h \<and> h \<noteq> hash_default)"

lemma hash_default_iff: "hash_bytes h = replicate 32 0 \<longleftrightarrow> h = hash_default"
  by (cases h) (simp only: hash_default_def hash.sel hash.inject)

lemma vote_hash_bytes_inj:
  assumes "wf_vote_hash a" "wf_vote_hash b" "vote_hash_bytes a = vote_hash_bytes b"
  shows "a = b"
proof (cases a)
  case None
  with assms show ?thesis
    by (cases b) (auto simp only: wf_vote_hash_def vote_hash_bytes_def option.case hash_default_iff
        dest: sym)
next
  case (Some h)
  with assms show ?thesis
    by (cases b) (auto simp only: wf_vote_hash_def vote_hash_bytes_def option.case hash_default_iff
        hash.expand)
qed

lemma length_vote_hash_bytes: "wf_vote_hash a \<Longrightarrow> length (vote_hash_bytes a) = 32"
  by (auto simp: wf_vote_hash_def vote_hash_bytes_def wf_hash_def split: option.splits)

lemmas consensus_domains = DOMAIN_PREVOTE_def DOMAIN_PRECOMMIT_def DOMAIN_PROPOSAL_def

lemma prevote_signable_bytes_inj:
  assumes "prevote_signable_bytes h r b = prevote_signable_bytes h' r' b'"
    and "h < 2 ^ 64" "h' < 2 ^ 64" "r < 2 ^ 32" "r' < 2 ^ 32" "wf_vote_hash b" "wf_vote_hash b'"
  shows "h = h' \<and> r = r' \<and> b = b'"
proof -
  from assms(1) have "le_bytes 8 h = le_bytes 8 h'" "le_bytes 4 r = le_bytes 4 r'"
    "vote_hash_bytes b = vote_hash_bytes b'"
    by (simp_all add: prevote_signable_bytes_def)
  with assms show ?thesis by (auto intro: le_bytes_inj [of _ 8] le_bytes_inj [of _ 4] vote_hash_bytes_inj)
qed

lemma precommit_signable_bytes_inj:
  assumes "precommit_signable_bytes h r b t = precommit_signable_bytes h' r' b' t'"
    and "h < 2 ^ 64" "h' < 2 ^ 64" "r < 2 ^ 32" "r' < 2 ^ 32" "t < 2 ^ 64" "t' < 2 ^ 64"
    and "wf_vote_hash b" "wf_vote_hash b'"
  shows "h = h' \<and> r = r' \<and> b = b' \<and> t = t'"
proof -
  have len: "length (vote_hash_bytes b) = length (vote_hash_bytes b')"
    using assms by (simp add: length_vote_hash_bytes)
  from assms(1) have "le_bytes 8 h = le_bytes 8 h'" "le_bytes 4 r = le_bytes 4 r'"
    "vote_hash_bytes b @ le_bytes 8 t = vote_hash_bytes b' @ le_bytes 8 t'"
    by (simp_all add: precommit_signable_bytes_def)
  moreover from this(3) len have "vote_hash_bytes b = vote_hash_bytes b'" "le_bytes 8 t = le_bytes 8 t'"
    by simp_all
  ultimately show ?thesis
    using assms by (auto intro: le_bytes_inj [of _ 8] le_bytes_inj [of _ 4] vote_hash_bytes_inj)
qed

lemma signing_domain_inj:
  assumes "maybe_versioned_signing_bytes d c p = maybe_versioned_signing_bytes d' c' p'"
    and "c \<noteq> []" "c' \<noteq> []" "length c < 2 ^ 16" "length c' < 2 ^ 16" "length d < 2 ^ 16" "length d' < 2 ^ 16"
  shows "d = d' \<and> c = c' \<and> p = p'"
  using assms versioned_signing_bytes_inj [of d c p d' c' p']
  by (simp add: maybe_versioned_signing_bytes_def)



end
