(* ===== verification/Blocks.thy ===== *)
theory Blocks
  imports Signing
begin

text \<open>
  Transactions, block headers and blocks (\<open>core/src/transaction.rs\<close>, \<open>core/src/block.rs\<close>):
  the signer rules and structural limits of a transaction, the header hash that identifies a
  block, the producer signature, and the binary Merkle tree over transaction hashes with its
  inclusion proofs. The bincode encodings are third-party code and are the fields of a
  \<open>codec\<close> record.
\<close>

unbundle bit_operations_syntax

section \<open>Transactions\<close>

record instruction =
  ix_program_id :: pubkey
  ix_accounts :: "pubkey list"
  ix_data :: "u8 list"

definition DEFAULT_COMPUTE_BUDGET :: u64 where "DEFAULT_COMPUTE_BUDGET = 200000"
abbreviation MAX_COMPUTE_BUDGET :: u64 where "MAX_COMPUTE_BUDGET \<equiv> 1400000"

record message =
  msg_instructions :: "instruction list"
  msg_recent_blockhash :: hash
  msg_compute_budget :: "u64 option"
  msg_compute_unit_price :: "u64 option"

definition effective_compute_budget :: "message \<Rightarrow> u64" where
  "effective_compute_budget m =
     (case msg_compute_budget m of
        Some b \<Rightarrow> if b > 0 then min b MAX_COMPUTE_BUDGET else DEFAULT_COMPUTE_BUDGET
      | None \<Rightarrow> DEFAULT_COMPUTE_BUDGET)"

definition effective_compute_unit_price :: "message \<Rightarrow> u64" where
  "effective_compute_unit_price m =
     (case msg_compute_unit_price m of Some p \<Rightarrow> p | None \<Rightarrow> 0)"

datatype transaction_type = Native | Evm | Consensus

record transaction =
  tx_signatures :: "pq_signature list"
  tx_message :: message
  tx_type :: transaction_type

record codec =
  ser_message :: "message \<Rightarrow> u8 list"
  ser_transaction :: "transaction \<Rightarrow> u8 list"

definition MAX_INSTRUCTIONS_PER_TX :: nat where "MAX_INSTRUCTIONS_PER_TX = 64"
definition MAX_SIGNATURES_PER_TX :: nat where "MAX_SIGNATURES_PER_TX = MAX_INSTRUCTIONS_PER_TX"
definition MAX_INSTRUCTION_DATA :: nat where "MAX_INSTRUCTION_DATA = 204800"
definition MAX_DEPLOY_INSTRUCTION_DATA :: nat where "MAX_DEPLOY_INSTRUCTION_DATA = 4194304"
definition MAX_TRANSACTION_SERIALIZED_SIZE :: nat where
  "MAX_TRANSACTION_SERIALIZED_SIZE = 5 * 1024 * 1024"
definition MAX_ACCOUNTS_PER_IX :: nat where "MAX_ACCOUNTS_PER_IX = 64"

definition is_evm :: "transaction \<Rightarrow> bool" where
  "is_evm tx \<longleftrightarrow> tx_type tx = Evm \<or>
     msg_recent_blockhash (tx_message tx) = Hash (replicate 32 0xEE)"

definition is_consensus :: "transaction \<Rightarrow> bool" where
  "is_consensus tx \<longleftrightarrow> tx_type tx = Consensus"

definition transaction_hash :: "crypto \<Rightarrow> codec \<Rightarrow> transaction \<Rightarrow> hash" where
  "transaction_hash c cd tx = hash_data c (ser_transaction cd tx)"

text \<open>
  \<open>required_signers_ordered\<close>: the loop keeps the set of signers already seen and the signers
  in order of first occurrence.
\<close>

fun signer_loop ::
  "pubkey set \<Rightarrow> pubkey list \<Rightarrow> instruction list \<Rightarrow> err + pubkey list" where
  "signer_loop seen acc [] = Inr acc"
| "signer_loop seen acc (ix # ixs) =
     (case ix_accounts ix of
        [] \<Rightarrow> Inl ''Instruction has no accounts''
      | a # _ \<Rightarrow>
          if a \<in> seen then signer_loop seen acc ixs
          else signer_loop (insert a seen) (acc @ [a]) ixs)"

definition required_signers_ordered :: "transaction \<Rightarrow> err + pubkey list" where
  "required_signers_ordered tx =
     (if msg_instructions (tx_message tx) = [] then Inl ''No instructions''
      else signer_loop {} [] (msg_instructions (tx_message tx)))"

fun verify_signature_loop ::
  "crypto \<Rightarrow> u8 list \<Rightarrow> pubkey set \<Rightarrow> (pq_signature \<times> pubkey) list \<Rightarrow> err + pubkey set" where
  "verify_signature_loop c msg verified [] = Inr verified"
| "verify_signature_loop c msg verified ((s, expected) # rest) =
     (case pq_signature_validate s of
        Inl e \<Rightarrow> Inl e
      | Inr _ \<Rightarrow>
          if signer_address c s \<noteq> expected then Inl ''signature signed by unexpected account''
          else if \<not> keypair_verify c expected msg s
          then Inl ''Missing or invalid signature for account''
          else if signer_address c s \<in> verified then Inl ''Duplicate signature for account''
          else verify_signature_loop c msg (insert (signer_address c s) verified) rest)"

definition verify_required_signatures_against ::
  "crypto \<Rightarrow> transaction \<Rightarrow> u8 list \<Rightarrow> err + pubkey set" where
  "verify_required_signatures_against c tx message_bytes =
     (if tx_signatures tx = [] then Inl ''No signatures''
      else rbind (required_signers_ordered tx) (\<lambda>required.
        if length (tx_signatures tx) \<noteq> length required
        then Inl ''Signature set must match required signers exactly''
        else verify_signature_loop c message_bytes {} (zip (tx_signatures tx) required)))"

definition verify_required_signatures_with_chain_id ::
  "crypto \<Rightarrow> codec \<Rightarrow> string \<Rightarrow> transaction \<Rightarrow> err + pubkey set" where
  "verify_required_signatures_with_chain_id c cd chain_id tx =
     (if chain_id = [] then Inl ''chain id is required for transaction verification''
      else verify_required_signatures_against c tx
        (versioned_signing_bytes DOMAIN_NATIVE_TX chain_id (ser_message cd (tx_message tx))))"

fun validate_instructions :: "bool \<Rightarrow> instruction list \<Rightarrow> err + unit" where
  "validate_instructions consensus [] = Inr ()"
| "validate_instructions consensus (ix # ixs) =
     (let is_system_deploy = ix_program_id ix = Pubkey (replicate 32 0) \<and>
            (case ix_data ix of [] \<Rightarrow> False | b # _ \<Rightarrow> b = 17);
          is_contract_deploy = ix_program_id ix = Pubkey (replicate 32 0xFF) \<and>
            take 9 (ix_data ix) = str_bytes (CHR ''{'' # CHR 0x22 # ''Deploy'' @ [CHR 0x22]);
          data_limit = (if is_system_deploy \<or> is_contract_deploy \<or> consensus
                        then MAX_DEPLOY_INSTRUCTION_DATA else MAX_INSTRUCTION_DATA)
      in if length (ix_data ix) > data_limit then Inl ''Instruction data too large''
         else if ix_accounts ix = [] then Inl ''Instruction has no accounts''
         else if length (ix_accounts ix) > MAX_ACCOUNTS_PER_IX
         then Inl ''Instruction has too many accounts''
         else validate_instructions consensus ixs)"

definition validate_transaction_structure :: "codec \<Rightarrow> transaction \<Rightarrow> err + unit" where
  "validate_transaction_structure cd tx =
     (if is_consensus tx \<and> tx_signatures tx \<noteq> []
      then Inl ''Consensus transactions must not carry user signatures''
      else if length (tx_signatures tx) > MAX_SIGNATURES_PER_TX then Inl ''Too many signatures''
      else if msg_instructions (tx_message tx) = [] then Inl ''No instructions''
      else if length (msg_instructions (tx_message tx)) > MAX_INSTRUCTIONS_PER_TX
      then Inl ''Too many instructions''
      else rbind (validate_instructions (is_consensus tx) (msg_instructions (tx_message tx))) (\<lambda>_.
        if length (ser_transaction cd tx) > MAX_TRANSACTION_SERIALIZED_SIZE
        then Inl ''Transaction serialized size too large'' else Inr ()))"

lemma signer_loop_spec:
  assumes "signer_loop (set acc) acc ixs = Inr out" "distinct acc"
  shows "distinct out \<and> set out = set acc \<union> (\<lambda>ix. hd (ix_accounts ix)) ` set ixs"
  using assms
proof (induction ixs arbitrary: acc)
  case Nil
  then show ?case by simp
next
  case (Cons ix ixs)
  show ?case
  proof (cases "ix_accounts ix")
    case Nil
    with Cons.prems show ?thesis by simp
  next
    case (Cons a as)
    show ?thesis
    proof (cases "a \<in> set acc")
      case True
      with Cons.prems Cons have "signer_loop (set acc) acc ixs = Inr out" by simp
      from Cons.IH [OF this Cons.prems(2)] True Cons show ?thesis by auto
    next
      case False
      with Cons.prems Cons have "signer_loop (set (acc @ [a])) (acc @ [a]) ixs = Inr out" by simp
      from Cons.IH [OF this] False Cons.prems(2) Cons show ?thesis by auto
    qed
  qed
qed

lemma verify_signature_loop_spec:
  "verify_signature_loop c msg V ps = Inr out \<Longrightarrow>
     out = V \<union> snd ` set ps \<and> (\<forall>(s, a) \<in> set ps. keypair_verify c a msg s)"
proof (induction ps arbitrary: V)
  case (Cons p ps)
  obtain s a where p: "p = (s, a)" by force
  from Cons.prems p have ok: "signer_address c s = a" "keypair_verify c a msg s"
    and rest: "verify_signature_loop c msg (insert a V) ps = Inr out"
    by (auto split: sum.splits if_splits)
  from Cons.IH [OF rest] ok p show ?case by auto
qed simp

section \<open>Headers and blocks\<close>

record commit_signature =
  cs_validator :: pubkey
  cs_signature :: pq_signature
  cs_timestamp :: u64

record block_header =
  hdr_slot :: u64
  hdr_parent_hash :: hash
  hdr_state_root :: hash
  hdr_tx_root :: hash
  hdr_timestamp :: u64
  hdr_validators_hash :: hash
  hdr_validator :: pubkey
  hdr_signature :: "pq_signature option"

record block =
  blk_header :: block_header
  blk_transactions :: "transaction list"
  blk_tx_fees_paid :: "u64 list"
  blk_oracle_prices :: "(string \<times> u64) list"
  blk_commit_round :: u32
  blk_commit_signatures :: "commit_signature list"

definition header_signable_data :: "block_header \<Rightarrow> u8 list" where
  "header_signable_data h =
     u64_to_le_bytes (hdr_slot h) @ hash_bytes (hdr_parent_hash h) @ hash_bytes (hdr_state_root h) @
     hash_bytes (hdr_tx_root h) @ u64_to_le_bytes (hdr_timestamp h) @
     hash_bytes (hdr_validators_hash h) @ pk_bytes (hdr_validator h)"

definition header_signable_hash :: "crypto \<Rightarrow> block_header \<Rightarrow> hash" where
  "header_signable_hash c h = hash_data c (header_signable_data h)"

definition block_hash :: "crypto \<Rightarrow> block \<Rightarrow> hash" where
  "block_hash c b = header_signable_hash c (blk_header b)"

definition header_verify_signature_with_chain_id ::
  "crypto \<Rightarrow> string \<Rightarrow> block_header \<Rightarrow> bool" where
  "header_verify_signature_with_chain_id c chain_id h =
     (case hdr_signature h of
        None \<Rightarrow> False
      | Some s \<Rightarrow> keypair_verify c (hdr_validator h)
          (maybe_versioned_signing_bytes DOMAIN_BLOCK chain_id
             (hash_bytes (header_signable_hash c h))) s)"

definition block_verify_signature_with_chain_id :: "crypto \<Rightarrow> string \<Rightarrow> block \<Rightarrow> bool" where
  "block_verify_signature_with_chain_id c chain_id b \<longleftrightarrow>
     hdr_slot (blk_header b) = 0 \<or> header_verify_signature_with_chain_id c chain_id (blk_header b)"

definition block_sign_with_chain_id :: "crypto \<Rightarrow> keypair \<Rightarrow> string \<Rightarrow> block \<Rightarrow> block" where
  "block_sign_with_chain_id c kp chain_id b =
     (let hash = block_hash c b;
          signable = maybe_versioned_signing_bytes DOMAIN_BLOCK chain_id (hash_bytes hash)
      in b\<lparr>blk_header := (blk_header b)\<lparr>hdr_signature := Some (keypair_sign c kp signable)\<rparr>\<rparr>)"

text \<open>Signing does not change the identity of a block, and the signature it adds verifies.\<close>

lemma block_hash_sign [simp]: "block_hash c (block_sign_with_chain_id c kp cid b) = block_hash c b"
  by (simp add: block_hash_def block_sign_with_chain_id_def header_signable_hash_def
      header_signable_data_def Let_def)

lemma block_hash_commit_fields [simp]:
  "block_hash c (b\<lparr>blk_commit_round := r, blk_commit_signatures := sigs\<rparr>) = block_hash c b"
  by (simp add: block_hash_def)

lemma block_sign_verifies:
  assumes "crypto_laws c" "hdr_validator (blk_header b) = keypair_pubkey c kp"
  shows "block_verify_signature_with_chain_id c cid (block_sign_with_chain_id c kp cid b)"
proof -
  have "header_signable_hash c (blk_header b) = block_hash c b"
    by (simp add: block_hash_def)
  moreover have "header_signable_hash c (blk_header (block_sign_with_chain_id c kp cid b)) =
      block_hash c b"
    using block_hash_sign by (simp add: block_hash_def [symmetric])
  ultimately show ?thesis
    using assms by (simp add: block_verify_signature_with_chain_id_def
        header_verify_signature_with_chain_id_def block_sign_with_chain_id_def Let_def)
qed

section \<open>Merkle tree over transaction hashes\<close>

definition merkle_leaf :: "crypto \<Rightarrow> hash \<Rightarrow> hash" where
  "merkle_leaf c h = hash_data c (0 # hash_bytes h)"

definition merkle_node :: "crypto \<Rightarrow> hash \<Rightarrow> hash \<Rightarrow> hash" where
  "merkle_node c l r = hash_data c (1 # hash_bytes l @ hash_bytes r)"

text \<open>One level up: an odd level is padded with its last entry, then paired by \<open>chunks(2)\<close>.\<close>

definition pad_odd :: "'a list \<Rightarrow> 'a list" where
  "pad_odd xs = (if length xs mod 2 = 1 then xs @ [last xs] else xs)"

fun pair_level :: "crypto \<Rightarrow> hash list \<Rightarrow> hash list" where
  "pair_level c (x # y # zs) = merkle_node c x y # pair_level c zs"
| "pair_level c _ = []"

lemma length_pair_level: "length (pair_level c xs) = length xs div 2"
  by (induction c xs rule: pair_level.induct) auto

lemma length_pad_odd: "length (pad_odd xs) = 2 * ((length xs + 1) div 2)"
  by (simp add: pad_odd_def) presburger

lemma length_level_up: "length (pair_level c (pad_odd xs)) = (length xs + 1) div 2"
  by (simp add: length_pair_level length_pad_odd)

function merkle_up :: "crypto \<Rightarrow> hash list \<Rightarrow> hash" where
  "merkle_up c level =
     (if length level > 1 then merkle_up c (pair_level c (pad_odd level)) else hd level)"
  by pat_completeness auto
termination
  by (relation "measure (\<lambda>(c, level). length level)") (auto simp: length_level_up)

declare merkle_up.simps [simp del]

definition merkle_tx_root_from_hashes :: "crypto \<Rightarrow> hash list \<Rightarrow> hash" where
  "merkle_tx_root_from_hashes c tx_hashes =
     (if tx_hashes = [] then hash_default else merkle_up c (map (merkle_leaf c) tx_hashes))"

definition compute_tx_root :: "crypto \<Rightarrow> codec \<Rightarrow> transaction list \<Rightarrow> hash" where
  "compute_tx_root c cd txs =
     (if txs = [] then hash_default
      else merkle_up c (map (\<lambda>tx. merkle_leaf c (transaction_hash c cd tx)) txs))"

function merkle_proof_loop ::
  "crypto \<Rightarrow> hash list \<Rightarrow> nat \<Rightarrow> (hash \<times> bool) list \<Rightarrow> (hash \<times> bool) list" where
  "merkle_proof_loop c level idx acc =
     (if length level > 1 then
        let level' = pad_odd level;
            sibling_idx = idx XOR 1;
            is_left = sibling_idx < idx
        in merkle_proof_loop c (pair_level c level') (idx div 2)
             (acc @ [(level' ! sibling_idx, is_left)])
      else acc)"
  by pat_completeness auto
termination
  by (relation "measure (\<lambda>(c, level, idx, acc). length level)") (auto simp: length_level_up)

declare merkle_proof_loop.simps [simp del]

definition merkle_tx_proof ::
  "crypto \<Rightarrow> codec \<Rightarrow> transaction list \<Rightarrow> nat \<Rightarrow> (hash \<times> bool) list option" where
  "merkle_tx_proof c cd txs index =
     (if txs = [] \<or> index \<ge> length txs then None
      else Some (merkle_proof_loop c
        (map (\<lambda>tx. merkle_leaf c (transaction_hash c cd tx)) txs) index []))"

fun merkle_fold :: "crypto \<Rightarrow> hash \<Rightarrow> (hash \<times> bool) list \<Rightarrow> hash" where
  "merkle_fold c current [] = current"
| "merkle_fold c current ((sibling, is_left) # proof) =
     merkle_fold c
       (if is_left then merkle_node c sibling current else merkle_node c current sibling) proof"

definition verify_merkle_tx_proof ::
  "crypto \<Rightarrow> hash \<Rightarrow> hash \<Rightarrow> (hash \<times> bool) list \<Rightarrow> bool" where
  "verify_merkle_tx_proof c root tx_hash proof \<longleftrightarrow> merkle_fold c (merkle_leaf c tx_hash) proof = root"

lemma merkle_fold_append: "merkle_fold c h (p @ q) = merkle_fold c (merkle_fold c h p) q"
  by (induction c h p rule: merkle_fold.induct) auto

lemma nth_pair_level:
  "even (length xs) \<Longrightarrow> i < length xs div 2 \<Longrightarrow>
     pair_level c xs ! i = merkle_node c (xs ! (2 * i)) (xs ! (2 * i + 1))"
proof (induction c xs arbitrary: i rule: pair_level.induct)
  case (1 c x y zs)
  then show ?case by (cases i) auto
qed auto

lemma nth_pad_odd: "i < length xs \<Longrightarrow> pad_odd xs ! i = xs ! i"
  by (simp add: pad_odd_def nth_append)

text \<open>One level of the proof: combining an entry with its sibling gives its parent.\<close>

lemma merkle_step:
  assumes "i < length level"
  defines "level' \<equiv> pad_odd level"
  shows "(if i XOR 1 < i then merkle_node c (level' ! (i XOR 1)) (level ! i)
          else merkle_node c (level ! i) (level' ! (i XOR 1))) = pair_level c level' ! (i div 2)"
proof -
  have ev: "even (length level')" by (simp add: level'_def length_pad_odd)
  have lt: "i div 2 < length level' div 2"
    using assms(1) by (simp add: level'_def length_pad_odd)
  have li: "level ! i = level' ! i" using assms(1) by (simp add: level'_def nth_pad_odd)
  show ?thesis
  proof (cases "even i")
    case True
    then have "i XOR 1 = i + 1" "2 * (i div 2) = i" by (auto simp: xor_Suc_0_eq)
    with li show ?thesis by (simp add: nth_pair_level [OF ev lt])
  next
    case False
    then have "i XOR 1 = i - 1" "2 * (i div 2) = i - 1" "i > 0"
      by (auto simp: xor_Suc_0_eq elim!: oddE)
    with li show ?thesis by (simp add: nth_pair_level [OF ev lt])
  qed
qed

lemma merkle_proof_loop_correct:
  "i < length level \<Longrightarrow> merkle_fold c h p = level ! i \<Longrightarrow>
     merkle_fold c h (merkle_proof_loop c level i p) = merkle_up c level"
proof (induction c level i p rule: merkle_proof_loop.induct)
  case (1 c level idx acc)
  show ?case
  proof (cases "length level > 1")
    case True
    let ?l = "pad_odd level" and ?s = "idx XOR 1"
    have "merkle_fold c h (acc @ [(?l ! ?s, ?s < idx)]) = pair_level c ?l ! (idx div 2)"
      using 1(2,3) merkle_step [of idx level c] by (simp add: merkle_fold_append split: if_splits)
    moreover have "idx div 2 < length (pair_level c ?l)"
      using 1(2) by (simp add: length_level_up)
    ultimately show ?thesis
      using 1(1) True
      by (simp add: merkle_proof_loop.simps [of c level] merkle_up.simps [of c level] Let_def)
  next
    case False
    with 1(2) have "length level = 1" "idx = 0" "level \<noteq> []" by auto
    with 1(3) False show ?thesis
      by (simp add: merkle_proof_loop.simps [of c level] merkle_up.simps [of c level] hd_conv_nth)
  qed
qed

text \<open>
  C33: Merkle inclusion proofs are complete. For every transaction of a block,
  \<open>merkle_tx_proof\<close> returns a proof, and \<open>verify_merkle_tx_proof\<close> accepts it against the
  transaction root that \<open>compute_tx_root\<close> puts in the header, whatever the number of
  transactions (odd levels are padded the same way on both sides).
\<close>

theorem merkle_proof_verifies:
  assumes "i < length txs"
  shows "\<exists>p. merkle_tx_proof c cd txs i = Some p \<and>
    verify_merkle_tx_proof c (compute_tx_root c cd txs) (transaction_hash c cd (txs ! i)) p"
proof -
  let ?level = "map (\<lambda>tx. merkle_leaf c (transaction_hash c cd tx)) txs"
  have "merkle_fold c (merkle_leaf c (transaction_hash c cd (txs ! i))) (merkle_proof_loop c ?level i [])
      = merkle_up c ?level"
    by (rule merkle_proof_loop_correct) (use assms in auto)
  with assms show ?thesis
    by (auto simp: merkle_tx_proof_def verify_merkle_tx_proof_def compute_tx_root_def)
qed

definition demo_transaction :: "nat \<Rightarrow> transaction" where
  "demo_transaction n =
     \<lparr>tx_signatures = [],
      tx_message = \<lparr>msg_instructions = [\<lparr>ix_program_id = Pubkey (replicate 32 0),
          ix_accounts = [Pubkey (replicate 32 (of_nat n))], ix_data = [of_nat n]\<rparr>],
        msg_recent_blockhash = Hash (replicate 32 7),
        msg_compute_budget = None, msg_compute_unit_price = None\<rparr>,
      tx_type = Native\<rparr>"

definition demo_codec :: codec where
  "demo_codec =
     \<lparr>ser_message = (\<lambda>m. concat (map ix_data (msg_instructions m))),
      ser_transaction = (\<lambda>tx. concat (map ix_data (msg_instructions (tx_message tx))))\<rparr>"

theorem merkle_proof_verifies_witness:
  "\<exists>p. merkle_tx_proof demo_crypto demo_codec (map demo_transaction [1, 2, 3]) 2 = Some p \<and>
     verify_merkle_tx_proof demo_crypto
       (compute_tx_root demo_crypto demo_codec (map demo_transaction [1, 2, 3]))
       (transaction_hash demo_crypto demo_codec (demo_transaction 3)) p"
  using merkle_proof_verifies [of 2 "map demo_transaction [1, 2, 3]"] by simp

lemma required_signers_ordered_spec:
  assumes "required_signers_ordered tx = Inr req"
  shows "distinct req"
    and "set req = (\<lambda>ix. hd (ix_accounts ix)) ` set (msg_instructions (tx_message tx))"
  using assms signer_loop_spec [of "[]" "msg_instructions (tx_message tx)" req]
  by (simp_all add: required_signers_ordered_def split: if_splits)

lemma verify_required_signatures_spec:
  assumes "verify_required_signatures_against c tx msg = Inr signers"
  obtains req where "required_signers_ordered tx = Inr req" "tx_signatures tx \<noteq> []"
    "length (tx_signatures tx) = length req" "signers = set req"
    "\<forall>(s, a) \<in> set (zip (tx_signatures tx) req). keypair_verify c a msg s"
proof -
  from assms obtain req where r: "required_signers_ordered tx = Inr req" "tx_signatures tx \<noteq> []"
    "length (tx_signatures tx) = length req"
    and loop: "verify_signature_loop c msg {} (zip (tx_signatures tx) req) = Inr signers"
    by (auto simp: verify_required_signatures_against_def rbind_eq_Inr split: if_splits)
  from verify_signature_loop_spec [OF loop] r(3) have "signers = set req"
    "\<forall>(s, a) \<in> set (zip (tx_signatures tx) req). keypair_verify c a msg s"
    by (auto simp flip: set_map)
  with r that show ?thesis by blast
qed

text \<open>
  C34: when a native transaction passes signature verification, the returned signer set is
  exactly the set of first accounts of its instructions, the transaction carries exactly one
  signature per required signer, and every required signer has a signature over the
  chain-bound message that verifies under its own address. Nothing is authorised that was
  not signed for this chain.
\<close>

theorem required_signatures_authorise:
  assumes "verify_required_signatures_with_chain_id c cd chain_id tx = Inr signers"
  shows "chain_id \<noteq> [] \<and>
    signers = (\<lambda>ix. hd (ix_accounts ix)) ` set (msg_instructions (tx_message tx)) \<and>
    length (tx_signatures tx) = card signers \<and>
    (\<forall>a. a \<in> signers \<longrightarrow> (\<exists>s. s \<in> set (tx_signatures tx) \<and> signer_address c s = a \<and>
       keypair_verify c a
         (versioned_signing_bytes DOMAIN_NATIVE_TX chain_id (ser_message cd (tx_message tx))) s))"
proof -
  let ?msg = "versioned_signing_bytes DOMAIN_NATIVE_TX chain_id (ser_message cd (tx_message tx))"
  from assms have cid: "chain_id \<noteq> []" and v: "verify_required_signatures_against c tx ?msg = Inr signers"
    by (auto simp: verify_required_signatures_with_chain_id_def split: if_splits)
  from v obtain req where req: "required_signers_ordered tx = Inr req"
    "length (tx_signatures tx) = length req" "signers = set req"
    and ver: "\<forall>(s, a) \<in> set (zip (tx_signatures tx) req). keypair_verify c a ?msg s"
    by (rule verify_required_signatures_spec)
  have "\<exists>s. s \<in> set (tx_signatures tx) \<and> signer_address c s = a \<and> keypair_verify c a ?msg s"
    if "a \<in> signers" for a
  proof -
    from that req obtain i where i: "i < length req" "a = req ! i" by (auto simp: in_set_conv_nth)
    with req(2) have "(tx_signatures tx ! i, a) \<in> set (zip (tx_signatures tx) req)"
      by (auto simp: in_set_conv_nth)
    with ver have "keypair_verify c a ?msg (tx_signatures tx ! i)" by blast
    with i req(2) keypair_verify_address show ?thesis by (metis nth_mem)
  qed
  moreover have "length (tx_signatures tx) = card signers"
    using req required_signers_ordered_spec(1) [OF req(1)] by (simp add: distinct_card)
  ultimately show ?thesis
    using cid req(3) required_signers_ordered_spec(2) [OF req(1)] by blast
qed

definition demo_signed_transaction :: transaction where
  "demo_signed_transaction =
     (let ix = \<lparr>ix_program_id = Pubkey (replicate 32 0), ix_accounts = [demo_pubkey 5], ix_data = [0]\<rparr>;
          m = \<lparr>msg_instructions = [ix], msg_recent_blockhash = Hash (replicate 32 7),
               msg_compute_budget = None, msg_compute_unit_price = None\<rparr>
      in \<lparr>tx_signatures = [keypair_sign demo_crypto (demo_keypair 5)
              (versioned_signing_bytes DOMAIN_NATIVE_TX ''lichen'' (ser_message demo_codec m))],
          tx_message = m, tx_type = Native\<rparr>)"

lemma demo_signer_address [simp]:
  "signer_address demo_crypto (keypair_sign demo_crypto (demo_keypair n) m) = demo_pubkey n"
  using keypair_verify_address [OF keypair_verify_sign [OF demo_crypto_laws, of "demo_keypair n" m]]
  by simp

lemma demo_keypair_verify [simp]:
  "keypair_verify demo_crypto (demo_pubkey n) m (keypair_sign demo_crypto (demo_keypair n) m)"
  using keypair_verify_sign [OF demo_crypto_laws, of "demo_keypair n" m] by simp

lemma demo_signed_transaction_verifies:
  "verify_required_signatures_with_chain_id demo_crypto demo_codec ''lichen'' demo_signed_transaction
     = Inr {demo_pubkey 5}"
  by (simp add: verify_required_signatures_with_chain_id_def verify_required_signatures_against_def
      required_signers_ordered_def demo_signed_transaction_def Let_def keypair_sign_validates)

theorem required_signatures_authorise_witness:
  "length (tx_signatures demo_signed_transaction) = card {demo_pubkey 5} \<and>
   {demo_pubkey 5} = (\<lambda>ix. hd (ix_accounts ix)) ` set (msg_instructions (tx_message demo_signed_transaction))"
  using required_signatures_authorise [OF demo_signed_transaction_verifies] by blast

end
