(* ===== verification/Monetary_Policy.thy ===== *)
theory Monetary_Policy
  imports Lichen_Prelude
begin

text \<open>
  The issuance rules of \<open>core/src/consensus.rs\<close>: the decaying inflation curve, per-slot and
  per-epoch mint, the bonded-stake target and the dynamic security budget, the proportional
  split of a budget, the founding vesting schedule, the validator saturation cap and the slot
  and epoch arithmetic. Every intermediate product is computed in \<open>u128\<close> in the source; the
  model writes the final cast to \<open>u64\<close> explicitly.
\<close>

section \<open>Constants\<close>

definition LICN :: nat where "LICN = 1000000000"

definition MIN_VALIDATOR_STAKE :: u64 where "MIN_VALIDATOR_STAKE = 75000 * 1000000000"
definition BOOTSTRAP_GRANT_AMOUNT :: u64 where "BOOTSTRAP_GRANT_AMOUNT = 100000 * 1000000000"
definition GENESIS_SUPPLY_SPORES :: u64 where "GENESIS_SUPPLY_SPORES = 500000000000000000"
definition INITIAL_INFLATION_RATE_BPS :: u64 where "INITIAL_INFLATION_RATE_BPS = 400"
definition INFLATION_DECAY_RATE_BPS :: u64 where "INFLATION_DECAY_RATE_BPS = 1500"
definition TERMINAL_INFLATION_RATE_BPS :: u64 where "TERMINAL_INFLATION_RATE_BPS = 15"
definition TARGET_BONDED_STAKE_BPS :: u64 where "TARGET_BONDED_STAKE_BPS = 6700"
definition SLOTS_PER_YEAR :: u64 where "SLOTS_PER_YEAR = 78840000"
definition SLOTS_PER_EPOCH :: u64 where "SLOTS_PER_EPOCH = 432000"
definition MAX_VALIDATOR_STAKE :: u64 where "MAX_VALIDATOR_STAKE = 1000000 * 1000000000"
definition MATURE_VALIDATOR_SATURATION_BPS :: u64 where "MATURE_VALIDATOR_SATURATION_BPS = 500"
definition MAX_VALIDATOR_EFFECTIVE_STAKE_MULTIPLIER :: u64 where
  "MAX_VALIDATOR_EFFECTIVE_STAKE_MULTIPLIER = 5"

abbreviation FOUNDING_CLIFF_SECONDS :: u64 where "FOUNDING_CLIFF_SECONDS \<equiv> 6 * 30 * 24 * 3600"
abbreviation FOUNDING_VEST_TOTAL_SECONDS :: u64 where
  "FOUNDING_VEST_TOTAL_SECONDS \<equiv> 24 * 30 * 24 * 3600"

lemmas policy_constants =
  MIN_VALIDATOR_STAKE_def BOOTSTRAP_GRANT_AMOUNT_def GENESIS_SUPPLY_SPORES_def
  INITIAL_INFLATION_RATE_BPS_def INFLATION_DECAY_RATE_BPS_def TERMINAL_INFLATION_RATE_BPS_def
  TARGET_BONDED_STAKE_BPS_def SLOTS_PER_YEAR_def SLOTS_PER_EPOCH_def MAX_VALIDATOR_STAKE_def
  MATURE_VALIDATOR_SATURATION_BPS_def MAX_VALIDATOR_EFFECTIVE_STAKE_MULTIPLIER_def

section \<open>Inflation curve\<close>

text \<open>The loop over the elapsed years, at most 200 of them, with its early return.\<close>

fun inflation_loop :: "nat \<Rightarrow> u128 \<Rightarrow> u64" where
  "inflation_loop 0 rate = as_u64 (rate div 10000)"
| "inflation_loop (Suc n) rate =
     (let rate' = rate * (10000 - INFLATION_DECAY_RATE_BPS) div 10000
      in if rate' < TERMINAL_INFLATION_RATE_BPS * 10000 then TERMINAL_INFLATION_RATE_BPS
         else inflation_loop n rate')"

definition inflation_rate_bps :: "u64 \<Rightarrow> u64" where
  "inflation_rate_bps current_slot =
     inflation_loop (min (current_slot div SLOTS_PER_YEAR) 200) (INITIAL_INFLATION_RATE_BPS * 10000)"

definition compute_block_reward :: "u64 \<Rightarrow> u64 \<Rightarrow> u64" where
  "compute_block_reward current_slot total_supply =
     as_u64 (total_supply * inflation_rate_bps current_slot div (10000 * SLOTS_PER_YEAR))"

definition compute_epoch_mint :: "u64 \<Rightarrow> u64 \<Rightarrow> u64" where
  "compute_epoch_mint epoch_start_slot total_supply =
     as_u64 (total_supply * inflation_rate_bps epoch_start_slot * SLOTS_PER_EPOCH
             div (10000 * SLOTS_PER_YEAR))"

definition target_bonded_stake :: "u64 \<Rightarrow> u64" where
  "target_bonded_stake total_supply =
     (if total_supply = 0 then 0
      else min (saturating_add128 (saturating_mul128 total_supply TARGET_BONDED_STAKE_BPS) 9999
                div 10000) u64_max)"

definition compute_epoch_security_budget :: "u64 \<Rightarrow> u64 \<Rightarrow> u64 \<Rightarrow> err + u64" where
  "compute_epoch_security_budget epoch_start_slot total_supply effective_stake =
     (if effective_stake > total_supply
      then Inl ''effective bonded stake exceeds total supply''
      else
        let ceiling = compute_epoch_mint epoch_start_slot total_supply
        in if ceiling = 0 \<or> effective_stake = 0 then Inr 0
           else
             let target = target_bonded_stake total_supply
             in if target = 0 \<or> effective_stake \<ge> target then Inr ceiling
                else Inr (min (saturating_mul128 ceiling effective_stake div target) u64_max))"

definition split_reward_budget_by_stake :: "u64 \<Rightarrow> u64 \<Rightarrow> u64 \<Rightarrow> err + u64 \<times> u64" where
  "split_reward_budget_by_stake reward_budget first_stake second_stake =
     rbind (ok_or (checked_add first_stake second_stake) ''stake-class total overflow'')
       (\<lambda>total_stake.
          if reward_budget = 0 \<or> total_stake = 0 then Inr (0, 0)
          else
            let second_reward =
              min (saturating_mul128 reward_budget second_stake div total_stake) u64_max
            in Inr (saturating_sub reward_budget second_reward, second_reward))"

section \<open>Vesting\<close>

definition founding_vesting_unlocked :: "u64 \<Rightarrow> u64 \<Rightarrow> u64 \<Rightarrow> u64 \<Rightarrow> u64" where
  "founding_vesting_unlocked total_amount cliff_end vest_end current_time =
     (if current_time < cliff_end then 0
      else if current_time \<ge> vest_end then total_amount
      else
        let linear_period = vest_end - cliff_end
        in if linear_period = 0 then total_amount
           else as_u64 (total_amount * (current_time - cliff_end) div linear_period))"

section \<open>Saturation\<close>

definition validator_saturation_cap_bps :: "nat \<Rightarrow> err + u64" where
  "validator_saturation_cap_bps active_validators =
     (if active_validators = 0 then Inl ''validator saturation requires an active validator''
      else if active_validators \<ge> 20 then Inr MATURE_VALIDATOR_SATURATION_BPS
      else
        let remaining = saturating_sub 20 active_validators
        in rbind (ok_or (checked_mul 9500 remaining) ''validator saturation interpolation overflow'')
             (\<lambda>m. rbind (ok_or (checked_add MATURE_VALIDATOR_SATURATION_BPS (m div 19))
                          ''validator saturation cap overflow'')
               (\<lambda>linear. Inr (min (max linear (div_ceil 10000 active_validators)) 10000))))"

definition mul_div_ceil_u64 :: "u64 \<Rightarrow> u64 \<Rightarrow> u64 \<Rightarrow> err + u64" where
  "mul_div_ceil_u64 left right denominator =
     (if denominator = 0 then Inl ''ceiling division denominator cannot be zero''
      else rbind (ok_or (checked_mul128 left right) ''ceiling multiplication overflow'')
        (\<lambda>numerator.
           let quotient = div_ceil numerator denominator
           in if quotient \<le> u64_max then Inr quotient else Inl ''ceiling division exceeds u64''))"

section \<open>Epochs\<close>

definition slot_to_epoch :: "u64 \<Rightarrow> u64" where
  "slot_to_epoch slot = slot div SLOTS_PER_EPOCH"

definition epoch_start_slot :: "u64 \<Rightarrow> u64" where
  "epoch_start_slot epoch = wrapping_mul64 epoch SLOTS_PER_EPOCH"

definition is_epoch_boundary :: "u64 \<Rightarrow> bool" where
  "is_epoch_boundary slot \<longleftrightarrow> slot > 0 \<and> slot mod SLOTS_PER_EPOCH = 0"

section \<open>Facts about the curve\<close>

lemma inflation_loop_le: "rate \<le> 4000000 \<Longrightarrow> 150000 \<le> rate \<Longrightarrow> inflation_loop n rate \<le> rate div 10000"
proof (induction n arbitrary: rate)
  case 0
  then show ?case by (simp add: as_u64_def)
next
  case (Suc n)
  let ?r = "rate * 8500 div 10000"
  have le: "?r \<le> rate" by simp
  show ?case
  proof (cases "?r < 150000")
    case True
    with Suc.prems show ?thesis by (simp add: Let_def policy_constants)
  next
    case False
    with Suc le have "inflation_loop n ?r \<le> ?r div 10000" by simp
    also have "\<dots> \<le> rate div 10000" using le by (rule div_le_mono)
    finally show ?thesis using False by (simp add: Let_def policy_constants)
  qed
qed

lemma inflation_loop_ge: "rate \<le> 4000000 \<Longrightarrow> 150000 \<le> rate \<Longrightarrow> 15 \<le> inflation_loop n rate"
proof (induction n arbitrary: rate)
  case 0
  then show ?case by (simp add: as_u64_def)
next
  case (Suc n)
  then show ?case by (simp add: Let_def policy_constants)
qed

text \<open>One more year never raises the rate.\<close>

lemma inflation_loop_step:
  "rate \<le> 4000000 \<Longrightarrow> 150000 \<le> rate \<Longrightarrow> inflation_loop (Suc n) rate \<le> inflation_loop n rate"
proof (induction n arbitrary: rate)
  case 0
  then show ?case using inflation_loop_le [of rate "Suc 0"] by (simp add: as_u64_def)
next
  case (Suc n)
  let ?r = "rate * 8500 div 10000"
  show ?case
  proof (cases "?r < 150000")
    case True
    then show ?thesis by (simp add: Let_def policy_constants)
  next
    case False
    with Suc have "inflation_loop (Suc n) ?r \<le> inflation_loop n ?r" by simp
    with False show ?thesis by (simp add: Let_def policy_constants)
  qed
qed

lemma inflation_loop_antimono:
  "rate \<le> 4000000 \<Longrightarrow> 150000 \<le> rate \<Longrightarrow> m \<le> n \<Longrightarrow> inflation_loop n rate \<le> inflation_loop m rate"
  by (rule lift_Suc_antimono_le [of "\<lambda>n. inflation_loop n rate"]) (rule inflation_loop_step)

lemma inflation_rate_le: "inflation_rate_bps s \<le> 400"
  using inflation_loop_le [of 4000000 "min (s div SLOTS_PER_YEAR) 200"]
  by (simp add: inflation_rate_bps_def INITIAL_INFLATION_RATE_BPS_def)

lemma inflation_rate_ge: "15 \<le> inflation_rate_bps s"
  using inflation_loop_ge [of 4000000 "min (s div SLOTS_PER_YEAR) 200"]
  by (simp add: inflation_rate_bps_def INITIAL_INFLATION_RATE_BPS_def)

lemma inflation_rate_antimono: "s \<le> t \<Longrightarrow> inflation_rate_bps t \<le> inflation_rate_bps s"
  unfolding inflation_rate_bps_def INITIAL_INFLATION_RATE_BPS_def
  by (intro inflation_loop_antimono min.mono div_le_mono) auto

text \<open>The mint of an epoch never reaches a quarter of a promille of the supply (4% a year).\<close>

lemma epoch_mint_exact:
  assumes "total_supply \<le> u64_max"
  shows "compute_epoch_mint s total_supply =
    total_supply * inflation_rate_bps s * SLOTS_PER_EPOCH div (10000 * SLOTS_PER_YEAR)"
    and "compute_epoch_mint s total_supply \<le> total_supply div 4500"
proof -
  let ?m = "total_supply * inflation_rate_bps s * SLOTS_PER_EPOCH div (10000 * SLOTS_PER_YEAR)"
  have "?m \<le> total_supply * 400 * 432000 div (10000 * 78840000)"
    unfolding policy_constants
    by (intro div_le_mono mult_le_mono le_refl inflation_rate_le)
  also have "\<dots> \<le> total_supply div 4500"
  proof -
    have "total_supply * 400 * 432000 div (10000 * 78840000) = total_supply * 16 div 73000"
      by (simp add: div_mult2_eq [symmetric])
    also have "\<dots> \<le> total_supply div 4500"
      by linarith
    finally show ?thesis .
  qed
  finally have le: "?m \<le> total_supply div 4500" .
  then have "?m \<le> u64_max" using assms by (meson div_le_dividend order_trans)
  then show eq: "compute_epoch_mint s total_supply = ?m"
    by (simp add: compute_epoch_mint_def as_u64_id)
  from le eq show "compute_epoch_mint s total_supply \<le> total_supply div 4500" by simp
qed

lemma mul_u64_fits_u128: "a \<le> u64_max \<Longrightarrow> b \<le> u64_max \<Longrightarrow> a * b \<le> u128_max"
proof -
  assume "a \<le> u64_max" "b \<le> u64_max"
  then have "a * b \<le> u64_max * u64_max" by (rule mult_le_mono)
  also have "\<dots> \<le> u128_max" by (simp add: u64_max_def u128_max_def)
  finally show ?thesis .
qed

lemma saturating_mul128_exact: "a \<le> u64_max \<Longrightarrow> b \<le> u64_max \<Longrightarrow> saturating_mul128 a b = a * b"
  by (simp add: saturating_mul128_def mul_u64_fits_u128)

lemma target_bonded_stake_le: "total_supply \<le> u64_max \<Longrightarrow> target_bonded_stake total_supply \<le> total_supply"
  by (auto simp: target_bonded_stake_def saturating_mul128_exact TARGET_BONDED_STAKE_BPS_def
      saturating_add128_def u64_max_def)

lemma target_bonded_stake_pos:
  "total_supply \<le> u64_max \<Longrightarrow> 0 < total_supply \<Longrightarrow> 0 < target_bonded_stake total_supply"
  by (auto simp: target_bonded_stake_def saturating_mul128_exact TARGET_BONDED_STAKE_BPS_def
      saturating_add128_def u64_max_def u128_max_def)

text \<open>
  C35: the inflation rate starts at 4% a year, never rises from one slot to a later one, and
  never falls below the 0.15% terminal rate, for every slot number.
\<close>

theorem inflation_rate_bounded_decreasing:
  "inflation_rate_bps 0 = INITIAL_INFLATION_RATE_BPS \<and>
   TERMINAL_INFLATION_RATE_BPS \<le> inflation_rate_bps s \<and>
   inflation_rate_bps s \<le> INITIAL_INFLATION_RATE_BPS \<and>
   inflation_rate_bps (s + d) \<le> inflation_rate_bps s"
  using inflation_rate_le [of s] inflation_rate_ge [of s] inflation_rate_antimono [of s "s + d"]
  by (simp add: policy_constants inflation_rate_bps_def as_u64_def)

lemma security_budget_cases:
  assumes "supply \<le> u64_max" "stake \<le> supply"
  shows "compute_epoch_security_budget s supply stake =
    Inr (if stake = 0 then 0
         else if stake \<ge> target_bonded_stake supply then compute_epoch_mint s supply
         else compute_epoch_mint s supply * stake div target_bonded_stake supply)"
proof -
  let ?m = "compute_epoch_mint s supply" and ?t = "target_bonded_stake supply"
  have m: "?m \<le> u64_max" using epoch_mint_exact(2) [OF assms(1), of s] assms(1)
    by (meson div_le_dividend order_trans)
  have "?m * stake div ?t \<le> u64_max" if "stake < ?t"
  proof -
    have "?m * stake div ?t \<le> ?m * ?t div ?t" using that by (intro div_le_mono mult_le_mono) auto
    with m that show ?thesis by simp
  qed
  moreover have "0 < ?t" if "stake \<noteq> 0" using target_bonded_stake_pos [OF assms(1)] that assms(2) by simp
  moreover have "saturating_mul128 ?m stake = ?m * stake"
    using m assms by (simp add: saturating_mul128_exact)
  ultimately show ?thesis
    using assms(2) by (auto simp: compute_epoch_security_budget_def Let_def not_le min_absorb1)
qed

lemma scaled_le: "(a::nat) \<le> t \<Longrightarrow> m * a div t \<le> m"
  by (cases "t = 0") (auto intro: order_trans [OF div_le_mono [OF mult_le_mono2]])

text \<open>
  the epoch security budget succeeds exactly when the bonded stake does not exceed the
  supply. It is never more than the inflation ceiling of the epoch, is monotone in the bonded
  stake, pays the whole ceiling once the 67% target is bonded, and pays nothing when nothing
  is bonded.
\<close>

theorem security_budget_bounded_monotone:
  assumes "supply \<le> u64_max" "stake \<le> stake'" "stake' \<le> supply"
  shows "\<exists>b b'. compute_epoch_security_budget s supply stake = Inr b \<and>
    compute_epoch_security_budget s supply stake' = Inr b' \<and>
    b \<le> b' \<and> b' \<le> compute_epoch_mint s supply \<and>
    (target_bonded_stake supply \<le> stake \<and> 0 < stake \<longrightarrow> b = compute_epoch_mint s supply) \<and>
    (stake = 0 \<longrightarrow> b = 0)"
proof -
  have "compute_epoch_mint s supply * stake div target_bonded_stake supply
      \<le> compute_epoch_mint s supply * stake' div target_bonded_stake supply"
    using assms(2) by (intro div_le_mono mult_le_mono) auto
  with assms show ?thesis
    by (auto simp: security_budget_cases scaled_le)
qed

theorem security_budget_bounded_monotone_witness:
  "\<exists>b b'. compute_epoch_security_budget 0 1000000 335000 = Inr b \<and>
    compute_epoch_security_budget 0 1000000 670000 = Inr b' \<and> b \<le> b' \<and>
    b' \<le> compute_epoch_mint 0 1000000"
  using security_budget_bounded_monotone [of 1000000 335000 670000 0] by (auto simp: u64_max_def)

lemma epoch_mint_zero: "compute_epoch_mint s 0 = 0"
  by (simp add: compute_epoch_mint_def as_u64_def)

text \<open>
  Splitting a reward budget between two stake classes loses and creates nothing: when
  anything is staked the two shares add up to the budget, and the second class gets its
  proportional share rounded down, so neither share exceeds the budget.
\<close>

theorem split_reward_budget_conserves:
  assumes "budget \<le> u64_max" "a + b \<le> u64_max" "0 < a + b"
  shows "\<exists>x y. split_reward_budget_by_stake budget a b = Inr (x, y) \<and> x + y = budget \<and>
    y = budget * b div (a + b)"
proof -
  have y: "budget * b div (a + b) \<le> budget" by (rule scaled_le) simp
  have "saturating_mul128 budget b = budget * b"
    using assms by (intro saturating_mul128_exact) auto
  then have "split_reward_budget_by_stake budget a b =
      Inr (budget - budget * b div (a + b), budget * b div (a + b))"
    using y assms
    by (auto simp: split_reward_budget_by_stake_def Let_def saturating_sub_def min_absorb1
        checked_add_def ok_or_def)
  with y show ?thesis by simp
qed

theorem split_reward_budget_conserves_witness:
  "\<exists>x y. split_reward_budget_by_stake 1000 100 200 = Inr (x, y) \<and> x + y = 1000 \<and>
    y = 1000 * 200 div (100 + 200)"
  by (rule split_reward_budget_conserves) (simp_all add: u64_max_def)

lemma vesting_exact:
  assumes "grant \<le> u64_max" "cliff \<le> t" "t < vest"
  shows "founding_vesting_unlocked grant cliff vest t = grant * (t - cliff) div (vest - cliff)"
proof -
  have "grant * (t - cliff) div (vest - cliff) \<le> grant" by (rule scaled_le) (use assms in simp)
  with assms show ?thesis by (simp add: founding_vesting_unlocked_def Let_def as_u64_id)
qed

lemma vesting_le:
  assumes "grant \<le> u64_max"
  shows "founding_vesting_unlocked grant cliff vest t \<le> grant"
proof (cases "t < cliff \<or> t \<ge> vest")
  case True
  then show ?thesis by (auto simp: founding_vesting_unlocked_def)
next
  case False
  then have "t - cliff \<le> vest - cliff" by auto
  with False assms show ?thesis by (simp add: vesting_exact not_less not_le scaled_le)
qed

text \<open>
  Founding vesting releases nothing before the cliff, everything at the end, never more
  than the grant, and never takes back what it has released.
\<close>

theorem founding_vesting_monotone:
  assumes "grant \<le> u64_max" "cliff \<le> vest" "t \<le> t'"
  shows "founding_vesting_unlocked grant cliff vest t \<le> founding_vesting_unlocked grant cliff vest t' \<and>
    founding_vesting_unlocked grant cliff vest t' \<le> grant \<and>
    (t < cliff \<longrightarrow> founding_vesting_unlocked grant cliff vest t = 0) \<and>
    (vest \<le> t \<longrightarrow> founding_vesting_unlocked grant cliff vest t = grant)"
proof -
  have "founding_vesting_unlocked grant cliff vest t \<le> founding_vesting_unlocked grant cliff vest t'"
  proof (cases "t < cliff \<or> t' \<ge> vest")
    case True
    then show ?thesis
      using vesting_le [OF assms(1), of cliff vest t] assms by (auto simp: founding_vesting_unlocked_def)
  next
    case False
    with assms show ?thesis
      by (simp add: vesting_exact not_less not_le) (intro div_le_mono mult_le_mono diff_le_mono; simp)
  qed
  with assms vesting_le show ?thesis by (auto simp: founding_vesting_unlocked_def)
qed

theorem founding_vesting_monotone_witness:
  "founding_vesting_unlocked 1000 10 20 15 \<le> founding_vesting_unlocked 1000 10 20 18 \<and>
   founding_vesting_unlocked 1000 10 20 18 \<le> 1000"
  using founding_vesting_monotone [of 1000 10 20 15 18] by (simp add: u64_max_def)

end
