(* ===== verification/Stake_Info.thy ===== *)
theory Stake_Info
  imports Crypto_Types Monetary_Policy
begin

text \<open>
  One validator's stake (\<open>StakeInfo\<close> of \<open>core/src/consensus.rs\<close>): creation with or without a
  bootstrap grant, slashing, reward accrual, the contributory-stake claim that splits a reward
  between liquid balance and bootstrap debt, uptime, and the stake changes of the owner.
\<close>

section \<open>State\<close>

datatype bootstrap_status = Bootstrapping | FullyVested

definition MAX_BOOTSTRAP_VALIDATORS :: u64 where "MAX_BOOTSTRAP_VALIDATORS = 200"
abbreviation MAX_BOOTSTRAP_SLOTS :: u64 where "MAX_BOOTSTRAP_SLOTS \<equiv> 547 * 216000"
abbreviation UPTIME_BONUS_THRESHOLD_BPS :: u64 where "UPTIME_BONUS_THRESHOLD_BPS \<equiv> 9500"
definition PERFORMANCE_BONUS_BPS :: u64 where "PERFORMANCE_BONUS_BPS = 15000"
abbreviation UNSTAKE_COOLDOWN_SLOTS :: u64 where "UNSTAKE_COOLDOWN_SLOTS \<equiv> 1512000"

definition no_fingerprint :: "u8 list" where "no_fingerprint = replicate 32 0"

record stake_info =
  si_validator :: pubkey
  si_amount :: u64
  si_earned_amount :: u64
  si_bootstrap_debt :: u64
  si_locked_until :: u64
  si_is_active :: bool
  si_delegated_amount :: u64
  si_rewards_earned :: u64
  si_last_reward_slot :: u64
  si_status :: bootstrap_status
  si_blocks_produced :: u64
  si_graduation_slot :: "u64 option"
  si_total_claimed :: u64
  si_total_debt_repaid :: u64
  si_machine_fingerprint :: "u8 list"
  si_start_slot :: u64
  si_bootstrap_index :: u64
  si_last_migration_slot :: u64
  si_penalty_boost_until :: u64

record unstake_request =
  ur_validator :: pubkey
  ur_staker :: pubkey
  ur_amount :: u64
  ur_unlock_slot :: u64

section \<open>Operations\<close>

definition si_with_bootstrap_index :: "pubkey \<Rightarrow> u64 \<Rightarrow> u64 \<Rightarrow> u64 \<Rightarrow> stake_info" where
  "si_with_bootstrap_index validator amount current_slot bootstrap_index =
     (let is_bootstrap = bootstrap_index < MAX_BOOTSTRAP_VALIDATORS \<and> amount = BOOTSTRAP_GRANT_AMOUNT;
          bootstrap_debt = (if is_bootstrap then amount else 0)
      in \<lparr>si_validator = validator,
          si_amount = amount,
          si_earned_amount = 0,
          si_bootstrap_debt = bootstrap_debt,
          si_locked_until = wrapping_add64 current_slot 1000,
          si_is_active = (amount \<ge> MIN_VALIDATOR_STAKE),
          si_delegated_amount = 0,
          si_rewards_earned = 0,
          si_last_reward_slot = current_slot,
          si_status = (if bootstrap_debt > 0 then Bootstrapping else FullyVested),
          si_blocks_produced = 0,
          si_graduation_slot = None,
          si_total_claimed = 0,
          si_total_debt_repaid = 0,
          si_machine_fingerprint = no_fingerprint,
          si_start_slot = current_slot,
          si_bootstrap_index = bootstrap_index,
          si_last_migration_slot = 0,
          si_penalty_boost_until = 0\<rparr>)"

definition si_new :: "pubkey \<Rightarrow> u64 \<Rightarrow> u64 \<Rightarrow> stake_info" where
  "si_new validator amount current_slot = si_with_bootstrap_index validator amount current_slot u64_max"

definition si_total_stake :: "stake_info \<Rightarrow> u64" where
  "si_total_stake si = saturating_add (si_amount si) (si_delegated_amount si)"

definition si_meets_minimum :: "stake_info \<Rightarrow> bool" where
  "si_meets_minimum si \<longleftrightarrow> si_total_stake si \<ge> MIN_VALIDATOR_STAKE"

text \<open>\<open>self.is_active = self.meets_minimum()\<close>, the last statement of most mutators.\<close>

definition si_refresh_active :: "stake_info \<Rightarrow> stake_info" where
  "si_refresh_active si = si\<lparr>si_is_active := si_meets_minimum si\<rparr>"

definition si_slash :: "u64 \<Rightarrow> stake_info \<Rightarrow> stake_info \<times> u64" where
  "si_slash amount si =
     (let slashed = min amount (si_amount si)
      in if slashed = 0 \<or> si_amount si = 0 then (si, 0)
         else
           let new_amount = saturating_sub (si_amount si) slashed
           in (si_refresh_active (si\<lparr>
                 si_earned_amount := as_u64 (si_earned_amount si * new_amount div si_amount si),
                 si_amount := new_amount\<rparr>), slashed))"

definition si_add_reward :: "u64 \<Rightarrow> u64 \<Rightarrow> stake_info \<Rightarrow> stake_info" where
  "si_add_reward reward slot si =
     si\<lparr>si_rewards_earned := saturating_add (si_rewards_earned si) reward, si_last_reward_slot := slot\<rparr>"

definition si_uptime_bps :: "stake_info \<Rightarrow> u64 \<Rightarrow> u64 \<Rightarrow> u64" where
  "si_uptime_bps si current_slot num_validators =
     (let slots_active = saturating_sub current_slot (si_start_slot si)
      in if slots_active = 0 then 0
         else
           let expected_blocks = slots_active div max num_validators 1
           in if expected_blocks = 0 then (if si_blocks_produced si > 0 then 10000 else 0)
              else min (saturating_mul (si_blocks_produced si) 10000 div expected_blocks) 10000)"

text \<open>
  The share of a claimed reward that goes to the debt: 90% while a penalty boost is active,
  otherwise 75% for a validator with 95% uptime and 50% for the others. The boost is cleared
  once it has expired.
\<close>

definition si_debt_fraction :: "stake_info \<Rightarrow> u64 \<Rightarrow> u64 \<Rightarrow> u64 \<Rightarrow> u64" where
  "si_debt_fraction si total_reward current_slot num_validators =
     (if si_penalty_boost_until si > 0 \<and> current_slot < si_penalty_boost_until si
      then as_u64 (total_reward * 90 div 100)
      else if si_uptime_bps si current_slot num_validators \<ge> UPTIME_BONUS_THRESHOLD_BPS
      then as_u64 (total_reward div 2 * PERFORMANCE_BONUS_BPS div 10000)
      else total_reward div 2)"

definition si_clear_expired_boost :: "u64 \<Rightarrow> stake_info \<Rightarrow> stake_info" where
  "si_clear_expired_boost current_slot si =
     (if si_penalty_boost_until si > 0 \<and> current_slot \<ge> si_penalty_boost_until si
      then si\<lparr>si_penalty_boost_until := 0\<rparr> else si)"

definition si_claim_rewards :: "u64 \<Rightarrow> u64 \<Rightarrow> stake_info \<Rightarrow> stake_info \<times> (u64 \<times> u64)" where
  "si_claim_rewards current_slot num_validators si =
     (let total_reward = si_rewards_earned si;
          si = si\<lparr>si_rewards_earned := 0\<rparr>
      in if si_bootstrap_debt si > 0 then
           (if current_slot \<ge> saturating_add (si_start_slot si) MAX_BOOTSTRAP_SLOTS
            then (si\<lparr>si_bootstrap_debt := 0, si_status := FullyVested,
                     si_graduation_slot := Some current_slot, si_penalty_boost_until := 0,
                     si_total_claimed := saturating_add (si_total_claimed si) total_reward\<rparr>,
                  (total_reward, 0))
            else
              let debt_fraction = si_debt_fraction si total_reward current_slot num_validators;
                  si = si_clear_expired_boost current_slot si;
                  paid = min debt_fraction (si_bootstrap_debt si);
                  liquid = total_reward - paid;
                  si = si\<lparr>si_bootstrap_debt := si_bootstrap_debt si - paid,
                          si_earned_amount := saturating_add (si_earned_amount si) paid,
                          si_total_debt_repaid := saturating_add (si_total_debt_repaid si) paid,
                          si_total_claimed := saturating_add (si_total_claimed si) total_reward\<rparr>;
                  si = (if si_bootstrap_debt si = 0
                        then si\<lparr>si_status := FullyVested, si_graduation_slot := Some current_slot,
                                si_penalty_boost_until := 0\<rparr>
                        else si)
              in (si, (liquid, paid)))
         else (si\<lparr>si_total_claimed := saturating_add (si_total_claimed si) total_reward\<rparr>,
               (total_reward, 0)))"

definition si_is_fully_vested :: "stake_info \<Rightarrow> bool" where
  "si_is_fully_vested si \<longleftrightarrow> si_status si = FullyVested"

definition si_vesting_progress :: "stake_info \<Rightarrow> u64" where
  "si_vesting_progress si =
     (if si_earned_amount si = 0 \<and> si_bootstrap_debt si = 0 then 100
      else
        let total_bootstrap = wrapping_add64 (si_earned_amount si) (si_bootstrap_debt si)
        in if total_bootstrap = 0 then 100
           else as_u64 (si_earned_amount si * 100 div total_bootstrap))"

definition si_add_stake :: "u64 \<Rightarrow> stake_info \<Rightarrow> err + stake_info" where
  "si_add_stake additional si =
     (if \<not> si_is_fully_vested si then Inl ''Must be fully vested to add additional stake''
      else if additional > saturating_sub MAX_VALIDATOR_STAKE (si_amount si)
      then Inl ''Cannot exceed maximum stake''
      else Inr (si\<lparr>si_amount := saturating_add (si_amount si) additional\<rparr>))"

definition si_top_up_stake :: "u64 \<Rightarrow> stake_info \<Rightarrow> err + stake_info \<times> u64" where
  "si_top_up_stake additional si =
     (if additional = 0 then Inl ''Top-up amount must be greater than zero''
      else if additional > saturating_sub MAX_VALIDATOR_STAKE (si_amount si)
      then Inl ''Cannot exceed maximum stake''
      else
        let si = si_refresh_active (si\<lparr>si_amount := saturating_add (si_amount si) additional\<rparr>)
        in Inr (si, si_amount si))"

definition si_request_unstake :: "u64 \<Rightarrow> u64 \<Rightarrow> pubkey \<Rightarrow> stake_info \<Rightarrow> err + unstake_request" where
  "si_request_unstake amount current_slot staker si =
     (if \<not> si_is_fully_vested si then Inl ''Must be fully vested to unstake''
      else if amount = 0 \<or> amount > si_amount si then Inl ''Invalid unstake amount''
      else rbind (ok_or (checked_add current_slot UNSTAKE_COOLDOWN_SLOTS)
                   ''Validator unstake cooldown deadline overflow'')
        (\<lambda>unlock. Inr \<lparr>ur_validator = si_validator si, ur_staker = staker, ur_amount = amount,
                       ur_unlock_slot = unlock\<rparr>))"

section \<open>Properties\<close>

lemma si_refresh_active_simps [simp]:
  "si_validator (si_refresh_active si) = si_validator si"
  "si_amount (si_refresh_active si) = si_amount si"
  "si_delegated_amount (si_refresh_active si) = si_delegated_amount si"
  "si_total_stake (si_refresh_active si) = si_total_stake si"
  "si_is_active (si_refresh_active si) = si_meets_minimum si"
  "si_machine_fingerprint (si_refresh_active si) = si_machine_fingerprint si"
  "si_status (si_refresh_active si) = si_status si"
  "si_bootstrap_debt (si_refresh_active si) = si_bootstrap_debt si"
  by (simp_all add: si_refresh_active_def si_total_stake_def)

lemma si_slash_amount:
  "si_slash amount si = (si', slashed) \<Longrightarrow>
     slashed = min amount (si_amount si) \<and> si_amount si' + slashed = si_amount si"
  by (auto simp: si_slash_def Let_def saturating_sub_def split: if_splits)

lemma si_slash_frame:
  "si_slash amount si = (si', slashed) \<Longrightarrow>
     si_delegated_amount si' = si_delegated_amount si \<and> si_validator si' = si_validator si \<and>
     si_machine_fingerprint si' = si_machine_fingerprint si \<and> si_status si' = si_status si \<and>
     si_bootstrap_debt si' = si_bootstrap_debt si"
  by (auto simp: si_slash_def Let_def split: if_splits)

lemma si_debt_fraction_le:
  "total_reward \<le> u64_max \<Longrightarrow> si_debt_fraction si total_reward s n \<le> total_reward"
  by (auto simp: si_debt_fraction_def as_u64_def PERFORMANCE_BONUS_BPS_def u64_max_def)

lemma si_claim_rewards_spec:
  assumes "si_claim_rewards slot n si = (si', liquid, paid)" "si_rewards_earned si \<le> u64_max"
  shows "liquid + paid = si_rewards_earned si" "si_rewards_earned si' = 0"
    "paid \<le> si_bootstrap_debt si"
    "si_bootstrap_debt si' = (if paid = 0 \<and> slot \<ge> saturating_add (si_start_slot si) MAX_BOOTSTRAP_SLOTS
       then 0 else si_bootstrap_debt si - paid)"
    "si_bootstrap_debt si > 0 \<and> si_bootstrap_debt si' = 0 \<longrightarrow>
       si_status si' = FullyVested \<and> si_graduation_slot si' = Some slot \<and> si_penalty_boost_until si' = 0"
    "si_amount si' = si_amount si" "si_delegated_amount si' = si_delegated_amount si"
    "si_is_active si' = si_is_active si" "si_validator si' = si_validator si"
    "si_machine_fingerprint si' = si_machine_fingerprint si"
proof -
  have frac: "si_debt_fraction (si\<lparr>si_rewards_earned := 0\<rparr>) (si_rewards_earned si) slot n
      \<le> si_rewards_earned si" by (rule si_debt_fraction_le) (rule assms(2))
  note d = assms(1) [unfolded si_claim_rewards_def Let_def]
  show "liquid + paid = si_rewards_earned si" "si_rewards_earned si' = 0"
    "paid \<le> si_bootstrap_debt si"
    "si_bootstrap_debt si > 0 \<and> si_bootstrap_debt si' = 0 \<longrightarrow>
       si_status si' = FullyVested \<and> si_graduation_slot si' = Some slot \<and> si_penalty_boost_until si' = 0"
    "si_amount si' = si_amount si" "si_delegated_amount si' = si_delegated_amount si"
    "si_is_active si' = si_is_active si" "si_validator si' = si_validator si"
    "si_machine_fingerprint si' = si_machine_fingerprint si"
    using d frac by (auto simp: si_clear_expired_boost_def split: if_splits)
  show "si_bootstrap_debt si' = (if paid = 0 \<and> slot \<ge> saturating_add (si_start_slot si) MAX_BOOTSTRAP_SLOTS
       then 0 else si_bootstrap_debt si - paid)"
    using d by (auto simp: si_clear_expired_boost_def split: if_splits)
qed

text \<open>
  claiming validator rewards conserves them. The liquid amount and the debt payment add up
  to the rewards that were pending, which are reset; the debt never goes below zero; and the
  validator is marked fully vested exactly when the claim clears the debt, with the stake
  itself untouched.
\<close>

theorem claim_rewards_conserves:
  assumes "si_rewards_earned si \<le> u64_max" "si_claim_rewards slot n si = (si', liquid, paid)"
  shows "liquid + paid = si_rewards_earned si \<and> si_rewards_earned si' = 0 \<and>
    paid \<le> si_bootstrap_debt si \<and> si_bootstrap_debt si' \<le> si_bootstrap_debt si - paid \<and>
    si_total_stake si' = si_total_stake si \<and>
    (0 < si_bootstrap_debt si \<and> si_bootstrap_debt si' = 0 \<longrightarrow>
       si_status si' = FullyVested \<and> si_graduation_slot si' = Some slot)"
  using si_claim_rewards_spec [OF assms(2,1)] by (auto simp: si_total_stake_def)

definition demo_bootstrap_validator :: stake_info where
  "demo_bootstrap_validator =
     si_add_reward 1000 50 (si_with_bootstrap_index (demo_pubkey 1) BOOTSTRAP_GRANT_AMOUNT 10 0)"

theorem claim_rewards_conserves_witness:
  "si_rewards_earned demo_bootstrap_validator = 1000 \<and>
   fst (snd (si_claim_rewards 60 4 demo_bootstrap_validator)) +
     snd (snd (si_claim_rewards 60 4 demo_bootstrap_validator)) = 1000"
  using claim_rewards_conserves [of demo_bootstrap_validator 60 4
      "fst (si_claim_rewards 60 4 demo_bootstrap_validator)"
      "fst (snd (si_claim_rewards 60 4 demo_bootstrap_validator))"
      "snd (snd (si_claim_rewards 60 4 demo_bootstrap_validator))"]
  by (simp add: demo_bootstrap_validator_def si_add_reward_def si_with_bootstrap_index_def Let_def
      saturating_add_def u64_max_def)

end
