(* ===== verification/Staking_V2_State.thy ===== *)
theory Staking_V2_State
  imports Stake_Info
begin

text \<open>
  The records of Staking V2 (\<open>core/src/consensus.rs\<close>): delayed commission changes, the
  stake-time accumulator that turns stake changes within an epoch into an exact time average,
  per-epoch accounting of a validator and its delegators, and the slash exposure frozen at an
  epoch boundary. Time averages are shown to depend only on the stake held slot by slot and
  not on when it was checkpointed.
\<close>

section \<open>Constants\<close>

abbreviation DEFAULT_VALIDATOR_COMMISSION_BPS :: u64 where "DEFAULT_VALIDATOR_COMMISSION_BPS \<equiv> 500"
abbreviation MAX_VALIDATOR_COMMISSION_BPS :: u64 where "MAX_VALIDATOR_COMMISSION_BPS \<equiv> 1000"
abbreviation MAX_VALIDATOR_COMMISSION_CHANGE_BPS_PER_EPOCH :: u64 where
  "MAX_VALIDATOR_COMMISSION_CHANGE_BPS_PER_EPOCH \<equiv> 100"
abbreviation VALIDATOR_COMMISSION_CHANGE_DELAY_EPOCHS :: u64 where
  "VALIDATOR_COMMISSION_CHANGE_DELAY_EPOCHS \<equiv> 2"
abbreviation STAKING_V2_STATE_VERSION :: nat where "STAKING_V2_STATE_VERSION \<equiv> 2"
abbreviation SLASHING_V2_EVIDENCE_WINDOW_EPOCHS :: u64 where
  "SLASHING_V2_EVIDENCE_WINDOW_EPOCHS \<equiv> 2"

definition MOSSSTAKE_PROTOCOL_DELEGATOR :: pubkey where
  "MOSSSTAKE_PROTOCOL_DELEGATOR = Pubkey
     [0x26, 0x61, 0x36, 0x2e, 0x2a, 0x1d, 0x78, 0xe2, 0x6f, 0x06, 0xe7, 0xdd, 0x9d, 0xa0, 0x74, 0x82,
      0x67, 0xd1, 0xdc, 0xe5, 0x06, 0x13, 0x08, 0x37, 0x83, 0x3f, 0x08, 0x3c, 0x39, 0x75, 0x1d, 0xa5]"

definition abs_diff :: "u64 \<Rightarrow> u64 \<Rightarrow> u64" where
  "abs_diff a b = (if a \<ge> b then a - b else b - a)"

section \<open>Commission schedule\<close>

record pending_validator_commission =
  pvc_commission_bps :: u64
  pvc_activation_epoch :: u64

record validator_commission_state =
  vcs_current_bps :: u64
  vcs_pending :: "pending_validator_commission option"
  vcs_last_activated_epoch :: u64

definition vcs_new :: "u64 \<Rightarrow> validator_commission_state" where
  "vcs_new current_epoch =
     \<lparr>vcs_current_bps = DEFAULT_VALIDATOR_COMMISSION_BPS, vcs_pending = None,
      vcs_last_activated_epoch = current_epoch\<rparr>"

definition vcs_validate :: "validator_commission_state \<Rightarrow> err + unit" where
  "vcs_validate cs =
     (if vcs_current_bps cs > MAX_VALIDATOR_COMMISSION_BPS
      then Inl ''validator commission exceeds maximum''
      else case vcs_pending cs of
        None \<Rightarrow> Inr ()
      | Some pending \<Rightarrow>
          if pvc_commission_bps pending > MAX_VALIDATOR_COMMISSION_BPS
          then Inl ''pending validator commission exceeds maximum''
          else if pvc_activation_epoch pending \<le> vcs_last_activated_epoch cs
          then Inl ''pending validator commission does not activate in the future''
          else if abs_diff (vcs_current_bps cs) (pvc_commission_bps pending)
                    > MAX_VALIDATOR_COMMISSION_CHANGE_BPS_PER_EPOCH
          then Inl ''pending validator commission changes by more than the per-epoch limit''
          else Inr ())"

section \<open>Stake-time accumulator\<close>

record epoch_stake_accumulator =
  acc_amount :: u64
  acc_weighted_slot_spores :: u128
  acc_last_checkpoint_slot :: u64

definition acc_new :: "u64 \<Rightarrow> u64 \<Rightarrow> epoch_stake_accumulator" where
  "acc_new amount epoch_start =
     \<lparr>acc_amount = amount, acc_weighted_slot_spores = 0, acc_last_checkpoint_slot = epoch_start\<rparr>"

definition acc_checkpoint :: "u64 \<Rightarrow> epoch_stake_accumulator \<Rightarrow> err + epoch_stake_accumulator" where
  "acc_checkpoint slot a =
     rbind (ok_or (checked_sub slot (acc_last_checkpoint_slot a)) ''stake checkpoint moved backwards'')
       (\<lambda>elapsed.
     rbind (ok_or (checked_mul128 (acc_amount a) elapsed) ''stake-time multiplication overflow'')
       (\<lambda>accrued.
     rbind (ok_or (checked_add128 (acc_weighted_slot_spores a) accrued) ''stake-time accumulator overflow'')
       (\<lambda>w. Inr (a\<lparr>acc_weighted_slot_spores := w, acc_last_checkpoint_slot := slot\<rparr>))))"

definition acc_set_amount :: "u64 \<Rightarrow> u64 \<Rightarrow> epoch_stake_accumulator \<Rightarrow> err + epoch_stake_accumulator" where
  "acc_set_amount slot amount a = rbind (acc_checkpoint slot a) (\<lambda>a. Inr (a\<lparr>acc_amount := amount\<rparr>))"

definition acc_average_amount :: "u64 \<Rightarrow> u64 \<Rightarrow> epoch_stake_accumulator \<Rightarrow> err + u64" where
  "acc_average_amount epoch_end epoch_start a =
     rbind (ok_or (checked_sub epoch_end epoch_start) ''epoch reward interval moved backwards'')
       (\<lambda>duration.
          if duration = 0 then Inl ''epoch reward interval cannot be empty''
          else rbind (acc_checkpoint epoch_end a) (\<lambda>closed.
            let avg = acc_weighted_slot_spores closed div duration
            in if avg \<le> u64_max then Inr avg else Inl ''average epoch stake exceeds u64''))"

section \<open>Epoch accounting and slash exposure\<close>

record validator_epoch_accounting =
  vea_validator :: pubkey
  vea_self_bond :: epoch_stake_accumulator
  vea_delegations :: "(pubkey, epoch_stake_accumulator) hmap"
  vea_production_baseline :: u64
  vea_consensus_power :: u64
  vea_leader_weight :: u64
  vea_commission_bps :: u64

record validator_slash_exposure =
  vse_self_bond :: u64
  vse_delegations :: "(pubkey, u64) hmap"

definition vse_total :: "validator_slash_exposure \<Rightarrow> err + u64" where
  "vse_total e =
     try_fold (\<lambda>total d. ok_or (checked_add total (snd d)) ''validator slash exposure overflow'')
       (vse_self_bond e) (vse_delegations e)"

record epoch_slash_exposure_snapshot =
  ses_epoch :: u64
  ses_start_slot :: u64
  ses_validators :: "(pubkey, validator_slash_exposure) hmap"

record staking_v2_slash_owner_loss =
  ol_owner :: pubkey
  ol_active_stake :: u64
  ol_cooling_down_stake :: u64

definition ol_total :: "staking_v2_slash_owner_loss \<Rightarrow> err + u64" where
  "ol_total l = ok_or (checked_add (ol_active_stake l) (ol_cooling_down_stake l)) ''slash owner loss overflow''"

record staking_v2_slash_settlement =
  sst_validator :: pubkey
  sst_offense_epoch :: u64
  sst_slash_percent :: u64
  sst_owner_losses :: "staking_v2_slash_owner_loss list"
  sst_mossstake_requested_loss :: u64

definition sst_native_loss :: "staking_v2_slash_settlement \<Rightarrow> err + u64" where
  "sst_native_loss s =
     try_fold (\<lambda>total loss. rbind (ol_total loss)
         (\<lambda>l. ok_or (checked_add total l) ''native slash settlement overflow'')) 0 (sst_owner_losses s)"

record staking_v2_epoch_state =
  v2_version :: nat
  v2_activation_slot :: u64
  v2_current_epoch :: u64
  v2_epoch_start_slot :: u64
  v2_validators :: "(pubkey, validator_epoch_accounting) hmap"
  v2_commissions :: "(pubkey, validator_commission_state) hmap"
  v2_last_settled_epoch :: "u64 option"
  v2_slash_exposure_snapshots :: "(u64, epoch_slash_exposure_snapshot) hmap"

record validator_epoch_stake_weight =
  vsw_validator :: pubkey
  vsw_average_self_bond :: u64
  vsw_average_delegations :: "(pubkey \<times> u64) list"

definition vsw_average_effective_stake :: "validator_epoch_stake_weight \<Rightarrow> err + u64" where
  "vsw_average_effective_stake w =
     try_fold (\<lambda>total d. ok_or (checked_add total (snd d)) ''average validator stake overflow'')
       (vsw_average_self_bond w) (vsw_average_delegations w)"

record epoch_stake_weight_snapshot =
  esw_epoch :: u64
  esw_start_slot :: u64
  esw_end_slot :: u64
  esw_validators :: "validator_epoch_stake_weight list"

definition esw_effective_stake :: "epoch_stake_weight_snapshot \<Rightarrow> err + u64" where
  "esw_effective_stake s =
     try_fold (\<lambda>total v. rbind (vsw_average_effective_stake v)
         (\<lambda>e. ok_or (checked_add total e) ''average epoch effective stake overflow'')) 0 (esw_validators s)"

record staking_v2_epoch_reward_inputs =
  eri_stake_weights :: epoch_stake_weight_snapshot
  eri_performance_bps :: "(pubkey, u64) hmap"
  eri_commission_bps :: "(pubkey, u64) hmap"

section \<open>Properties\<close>

lemma acc_checkpoint_Inr:
  "acc_checkpoint slot a = Inr a' \<longleftrightarrow>
     acc_last_checkpoint_slot a \<le> slot \<and>
     acc_weighted_slot_spores a + acc_amount a * (slot - acc_last_checkpoint_slot a) \<le> u128_max \<and>
     a' = a\<lparr>acc_weighted_slot_spores :=
              acc_weighted_slot_spores a + acc_amount a * (slot - acc_last_checkpoint_slot a),
            acc_last_checkpoint_slot := slot\<rparr>"
  by (auto simp: acc_checkpoint_def rbind_eq_Inr)

text \<open>Checkpointing in between does not change what is accumulated.\<close>

lemma acc_checkpoint_trans:
  "acc_checkpoint s a = Inr b \<Longrightarrow> acc_checkpoint t b = Inr c \<Longrightarrow> acc_checkpoint t a = Inr c"
proof -
  assume "acc_checkpoint s a = Inr b" "acc_checkpoint t b = Inr c"
  moreover have "acc_amount a * (s - acc_last_checkpoint_slot a) + acc_amount a * (t - s)
      = acc_amount a * (t - acc_last_checkpoint_slot a)"
    if "acc_last_checkpoint_slot a \<le> s" "s \<le> t" using that by (simp flip: distrib_left)
  ultimately show ?thesis by (auto simp: acc_checkpoint_Inr add.assoc)
qed

text \<open>
  A history of stake changes within an epoch: each change sets a new amount at a slot. The
  reference value of the accumulator is the sum, over the slots, of the stake held in the slot.
\<close>

fun acc_run :: "(u64 \<times> u64) list \<Rightarrow> epoch_stake_accumulator \<Rightarrow> err + epoch_stake_accumulator" where
  "acc_run [] a = Inr a"
| "acc_run ((slot, amount) # changes) a = rbind (acc_set_amount slot amount a) (acc_run changes)"

text \<open>The stake held in a slot: a change made at a slot counts from that slot on.\<close>

fun held_at :: "u64 \<Rightarrow> (u64 \<times> u64) list \<Rightarrow> u64 \<Rightarrow> u64" where
  "held_at amount [] slot = amount"
| "held_at amount ((s, new) # changes) slot =
     (if slot < s then amount else held_at new changes slot)"

lemma acc_run_sum:
  assumes "acc_run changes a = Inr b" "acc_checkpoint epoch_end b = Inr c"
  shows "acc_weighted_slot_spores c = acc_weighted_slot_spores a +
      (\<Sum>slot = acc_last_checkpoint_slot a..<epoch_end. held_at (acc_amount a) changes slot)
    \<and> acc_last_checkpoint_slot a \<le> epoch_end"
  using assms
proof (induction changes arbitrary: a)
  case Nil
  then show ?case by (auto simp: acc_checkpoint_Inr)
next
  case (Cons ch changes)
  obtain s new where ch: "ch = (s, new)" by force
  from Cons.prems ch obtain a1 where a1: "acc_checkpoint s a = Inr a1"
    and run: "acc_run changes (a1\<lparr>acc_amount := new\<rparr>) = Inr b"
    by (auto simp: acc_set_amount_def rbind_eq_Inr)
  from a1 have le: "acc_last_checkpoint_slot a \<le> s" and last: "acc_last_checkpoint_slot a1 = s"
    and w: "acc_weighted_slot_spores a1 =
      acc_weighted_slot_spores a + acc_amount a * (s - acc_last_checkpoint_slot a)"
    by (auto simp: acc_checkpoint_Inr)
  note IH = Cons.IH [OF run Cons.prems(2)]
  have "s \<le> epoch_end" using IH last by simp
  let ?f = "held_at (acc_amount a) (ch # changes)"
  have "(\<Sum>slot = acc_last_checkpoint_slot a..<epoch_end. ?f slot) =
      (\<Sum>slot = acc_last_checkpoint_slot a..<s. ?f slot) + (\<Sum>slot = s..<epoch_end. ?f slot)"
    by (rule sum.atLeastLessThan_concat [OF le \<open>s \<le> epoch_end\<close>, symmetric])
  also have "(\<Sum>slot = acc_last_checkpoint_slot a..<s. ?f slot) =
      acc_amount a * (s - acc_last_checkpoint_slot a)"
    by (simp add: ch)
  also have "(\<Sum>slot = s..<epoch_end. ?f slot) = (\<Sum>slot = s..<epoch_end. held_at new changes slot)"
    by (rule sum.cong) (simp_all add: ch)
  finally show ?case using IH le last w \<open>s \<le> epoch_end\<close> by simp
qed

text \<open>
  C37: the average stake the reward plan uses is exact. For any history of stake changes
  recorded since the epoch start, a successful \<open>average_amount\<close> is the floor of the mean, over
  the slots of the epoch, of the stake held in each slot; the slots at which the accumulator
  was checkpointed do not matter.
\<close>

theorem epoch_average_is_time_average:
  assumes "acc_run changes (acc_new amount start) = Inr a"
    and "acc_average_amount epoch_end start a = Inr avg"
  shows "avg = (\<Sum>slot = start..<epoch_end. held_at amount changes slot) div (epoch_end - start)"
proof -
  from assms(2) obtain c where "acc_checkpoint epoch_end a = Inr c"
    and "avg = acc_weighted_slot_spores c div (epoch_end - start)"
    by (auto simp: acc_average_amount_def rbind_eq_Inr Let_def checked_sub_def split: if_splits)
  with acc_run_sum [OF assms(1)] show ?thesis by (simp add: acc_new_def)
qed

theorem epoch_average_is_time_average_witness:
  "acc_run [(4, 300), (6, 0)] (acc_new 100 0) = Inr
     \<lparr>acc_amount = 0, acc_weighted_slot_spores = 1000, acc_last_checkpoint_slot = 6\<rparr> \<and>
   100 = (\<Sum>slot = 0..<10. held_at 100 [(4, 300), (6, 0)] slot) div (10 - 0)"
proof
  show run: "acc_run [(4, 300), (6, 0)] (acc_new 100 0) = Inr
     \<lparr>acc_amount = 0, acc_weighted_slot_spores = 1000, acc_last_checkpoint_slot = 6\<rparr>"
    by (simp add: acc_new_def acc_set_amount_def acc_checkpoint_def checked_sub_def checked_mul128_def
        checked_add128_def u128_max_def ok_or_def)
  show "100 = (\<Sum>slot = 0..<10. held_at 100 [(4, 300), (6, 0)] slot) div (10 - 0)"
    by (rule epoch_average_is_time_average [OF run])
      (simp add: acc_average_amount_def acc_checkpoint_def checked_sub_def checked_mul128_def
        checked_add128_def u128_max_def u64_max_def ok_or_def Let_def)
qed

end
