(* ===== verification/Stake_Pool_Invariant.thy ===== *)
theory Stake_Pool_Invariant
  imports Stake_Pool
begin

text \<open>
  What \<open>StakePool::validate_invariants\<close> means and which operations keep it. \<open>pool_inv\<close> is the
  declarative reading of the check; \<open>pool_step\<close> is the transition relation of the pool's
  operations, labelled with the stake that enters and leaves; every pool reached from the
  empty one passes the check, and stake is conserved along every run.
\<close>

section \<open>Declarative invariant\<close>

text \<open>\<open>HashMap\<close>s have one value per key.\<close>

definition pool_wf :: "stake_pool \<Rightarrow> bool" where
  "pool_wf p \<longleftrightarrow>
     distinct (map fst (sp_stakes p)) \<and> distinct (map fst (sp_unstake_requests p)) \<and>
     distinct (map fst (sp_delegations p)) \<and> distinct (map fst (sp_fingerprint_registry p)) \<and>
     (\<forall>v es. hm_get (sp_delegations p) v = Some es \<longrightarrow> distinct (map fst es))"

definition delegations_ok :: "pubkey \<Rightarrow> u64 \<Rightarrow> (pubkey, u64) hmap option \<Rightarrow> bool" where
  "delegations_ok v delegated entries =
     (case entries of
        None \<Rightarrow> delegated = 0
      | Some es \<Rightarrow> es \<noteq> [] \<and> (\<forall>(d, a) \<in> set es. d \<noteq> v \<and> a \<noteq> 0) \<and>
          hm_sum (\<lambda>a. a) es = delegated \<and> delegated \<le> u64_max)"

definition stake_ok :: "stake_pool \<Rightarrow> pubkey \<Rightarrow> stake_info \<Rightarrow> bool" where
  "stake_ok p v i \<longleftrightarrow>
     si_validator i = v \<and> si_amount i \<le> MAX_VALIDATOR_STAKE \<and>
     si_amount i + si_delegated_amount i \<le> u64_max \<and>
     (si_is_active i \<longrightarrow> si_amount i + si_delegated_amount i \<ge> MIN_VALIDATOR_STAKE) \<and>
     delegations_ok v (si_delegated_amount i) (hm_get (sp_delegations p) v) \<and>
     (si_machine_fingerprint i \<noteq> no_fingerprint \<longrightarrow>
        hm_get (sp_fingerprint_registry p) (si_machine_fingerprint i) = Some v)"

definition bonded :: "stake_pool \<Rightarrow> nat" where
  "bonded p = hm_sum (\<lambda>i. si_amount i + si_delegated_amount i) (sp_stakes p)"

definition registry_ok :: "stake_pool \<Rightarrow> bool" where
  "registry_ok p \<longleftrightarrow>
     (\<forall>f v. hm_get (sp_fingerprint_registry p) f = Some v \<longrightarrow>
        f \<noteq> no_fingerprint \<and> (\<exists>i. sp_get_stake p v = Some i \<and> si_machine_fingerprint i = f))"

definition requests_ok :: "stake_pool \<Rightarrow> bool" where
  "requests_ok p \<longleftrightarrow>
     (\<forall>v s r. hm_get (sp_unstake_requests p) (v, s) = Some r \<longrightarrow>
        ur_validator r = v \<and> ur_staker r = s \<and> ur_amount r \<noteq> 0)"

definition pool_inv :: "stake_pool \<Rightarrow> bool" where
  "pool_inv p \<longleftrightarrow>
     (\<forall>v i. sp_get_stake p v = Some i \<longrightarrow> stake_ok p v i) \<and>
     bonded p = sp_total_staked p \<and> sp_total_staked p \<le> u64_max \<and>
     (\<forall>v. hm_get (sp_delegations p) v \<noteq> None \<longrightarrow> sp_get_stake p v \<noteq> None) \<and>
     requests_ok p \<and> registry_ok p"

definition pool_ok :: "stake_pool \<Rightarrow> bool" where
  "pool_ok p \<longleftrightarrow> pool_wf p \<and> pool_inv p"

section \<open>The check is the invariant\<close>

lemma validate_delegation_entry_Inr:
  "validate_delegation_entry v acc e = Inr t \<longleftrightarrow>
     (fst e \<noteq> v \<and> snd e \<noteq> 0) \<and> t = acc + snd e \<and> t \<le> u64_max"
  by (auto simp: validate_delegation_entry_def)

lemma validate_delegations_Inr:
  "validate_delegations p v = Inr t \<longleftrightarrow> delegations_ok v t (hm_get (sp_delegations p) v)"
proof (cases "hm_get (sp_delegations p) v")
  case (Some es)
  have "try_fold (validate_delegation_entry v) 0 es = Inr t \<longleftrightarrow>
      (\<forall>e \<in> set es. fst e \<noteq> v \<and> snd e \<noteq> 0) \<and> t = 0 + sum_list (map snd es) \<and> t \<le> u64_max"
    by (rule try_fold_guarded_sum [OF validate_delegation_entry_Inr]) simp
  with Some show ?thesis
    by (cases "es = []") (auto simp: validate_delegations_def delegations_ok_def hm_sum_snd
        case_prod_unfold neq_Nil_conv simp del: try_fold.simps)
qed (auto simp: validate_delegations_def delegations_ok_def)

lemma validate_stake_entry_Inr:
  "validate_stake_entry p acc e = Inr t \<longleftrightarrow>
     stake_ok p (fst e) (snd e) \<and> t = acc + (si_amount (snd e) + si_delegated_amount (snd e)) \<and> t \<le> u64_max"
  by (auto simp: validate_stake_entry_def stake_ok_def Let_def rbind_eq_Inr validate_delegations_Inr
      not_less)

lemma validate_unstake_entry_Inr:
  "validate_unstake_entry e = Inr () \<longleftrightarrow>
     ur_validator (snd e) = fst (fst e) \<and> ur_staker (snd e) = snd (fst e) \<and> ur_amount (snd e) \<noteq> 0"
  by (auto simp: validate_unstake_entry_def)

lemma validate_fingerprint_entry_Inr:
  "validate_fingerprint_entry p e = Inr () \<longleftrightarrow>
     fst e \<noteq> no_fingerprint \<and> (\<exists>i. sp_get_stake p (snd e) = Some i \<and> si_machine_fingerprint i = fst e)"
  by (auto simp: validate_fingerprint_entry_def split: option.splits)

lemma ball_map_of: "distinct (map fst m) \<Longrightarrow> (\<forall>x \<in> set m. P (fst x) (snd x)) \<longleftrightarrow> (\<forall>k v. map_of m k = Some v \<longrightarrow> P k v)"
  by (force simp: map_of_eq_Some_iff)

lemma validate_invariants_iff:
  assumes "pool_wf p"
  shows "validate_invariants p = Inr () \<longleftrightarrow> pool_inv p"
proof -
  have d: "distinct (map fst (sp_stakes p))" "distinct (map fst (sp_unstake_requests p))"
    "distinct (map fst (sp_fingerprint_registry p))"
    using assms by (simp_all add: pool_wf_def)
  have fold: "try_fold (validate_stake_entry p) 0 (sp_stakes p) = Inr t \<longleftrightarrow>
      (\<forall>v i. sp_get_stake p v = Some i \<longrightarrow> stake_ok p v i) \<and> t = bonded p \<and> t \<le> u64_max" for t
  proof -
    have "try_fold (validate_stake_entry p) 0 (sp_stakes p) = Inr t \<longleftrightarrow>
        (\<forall>e \<in> set (sp_stakes p). stake_ok p (fst e) (snd e)) \<and>
        t = 0 + sum_list (map (\<lambda>e. si_amount (snd e) + si_delegated_amount (snd e)) (sp_stakes p)) \<and> t \<le> u64_max"
      by (rule try_fold_guarded_sum [OF validate_stake_entry_Inr]) simp
    with ball_map_of [OF d(1), of "stake_ok p"] show ?thesis
      by (simp add: bonded_def hm_sum_snd)
  qed
  have "try_fold (\<lambda>_. validate_unstake_entry) () (sp_unstake_requests p) = Inr () \<longleftrightarrow> requests_ok p"
    using ball_map_of [OF d(2), of "\<lambda>k r. ur_validator r = fst k \<and> ur_staker r = snd k \<and> ur_amount r \<noteq> 0"]
    by (simp add: try_fold_unit validate_unstake_entry_Inr requests_ok_def)
  moreover have "try_fold (\<lambda>_. validate_fingerprint_entry p) () (sp_fingerprint_registry p) = Inr () \<longleftrightarrow> registry_ok p"
    using ball_map_of [OF d(3), of "\<lambda>f v. f \<noteq> no_fingerprint \<and>
        (\<exists>i. sp_get_stake p v = Some i \<and> si_machine_fingerprint i = f)"]
    by (simp add: try_fold_unit validate_fingerprint_entry_Inr registry_ok_def)
  moreover have known: "(\<exists>v \<in> set (hm_keys (sp_delegations p)). \<not> hm_contains (sp_stakes p) v) \<longleftrightarrow>
      \<not> (\<forall>v. hm_get (sp_delegations p) v \<noteq> None \<longrightarrow> sp_get_stake p v \<noteq> None)"
    by (simp add: map_of_eq_None_iff del: not_None_eq)
  ultimately show ?thesis
    unfolding validate_invariants_def pool_inv_def known
    by (auto simp: rbind_eq_Inr fold) (metis option.distinct(1))
qed

section \<open>One validator at a time\<close>

text \<open>
  Every operation rewrites the stake entry of one validator, the delegations to it and the
  totals. This lemma discharges the parts of the invariant that do not concern them.
\<close>

lemma pool_ok_update:
  assumes ok: "pool_ok p" and old: "sp_get_stake p v = Some i"
    and "si_validator i' = v" "si_amount i' \<le> MAX_VALIDATOR_STAKE"
    and "si_amount i' + si_delegated_amount i' \<le> u64_max"
    and "si_is_active i' \<longrightarrow> si_amount i' + si_delegated_amount i' \<ge> MIN_VALIDATOR_STAKE"
    and fp: "si_machine_fingerprint i' = si_machine_fingerprint i"
    and ds: "delegations_ok v (si_delegated_amount i') (hm_get ds v)"
      "\<And>w. w \<noteq> v \<Longrightarrow> hm_get ds w = hm_get (sp_delegations p) w"
      "distinct (map fst ds)" "\<And>es. hm_get ds v = Some es \<Longrightarrow> distinct (map fst es)"
    and total: "ts + (si_amount i + si_delegated_amount i) =
      sp_total_staked p + (si_amount i' + si_delegated_amount i')" "ts \<le> u64_max"
  shows "pool_ok (p\<lparr>sp_stakes := hm_insert v i' (sp_stakes p), sp_total_staked := ts,
    sp_delegations := ds\<rparr>)" (is "pool_ok ?p")
proof -
  from ok have wf: "pool_wf p" and inv: "pool_inv p" by (simp_all add: pool_ok_def)
  have "distinct (map fst es)" if "hm_get ds w = Some es" for w es
    using that wf ds(2) [of w] ds(4) unfolding pool_wf_def by (cases "w = v") metis+
  with wf ds(3) have wf': "pool_wf ?p" by (simp add: pool_wf_def)
  have "stake_ok ?p w j" if "sp_get_stake ?p w = Some j" for w j
  proof (cases "w = v")
    case True
    with that have j: "j = i'" by simp
    from inv old have "stake_ok p v i" by (simp add: pool_inv_def)
    then have "si_machine_fingerprint i \<noteq> no_fingerprint \<Longrightarrow>
        hm_get (sp_fingerprint_registry p) (si_machine_fingerprint i) = Some v"
      by (simp add: stake_ok_def)
    with True j assms(3-6) fp ds(1) show ?thesis by (simp add: stake_ok_def)
  next
    case False
    with that inv have "stake_ok p w j" by (simp add: pool_inv_def)
    with False ds(2) show ?thesis by (simp add: stake_ok_def)
  qed
  moreover have "bonded ?p = ts"
    using hm_sum_insert_old [OF old, of "\<lambda>i. si_amount i + si_delegated_amount i" i'] inv total(1)
    by (simp add: bonded_def pool_inv_def)
  moreover have "sp_get_stake ?p w \<noteq> None" if "hm_get (sp_delegations ?p) w \<noteq> None" for w
    using that inv ds(2) [of w] by (cases "w = v") (simp_all add: pool_inv_def)
  moreover have "registry_ok ?p"
    using inv fp old unfolding pool_inv_def registry_ok_def by fastforce
  moreover have "requests_ok ?p" using inv by (simp add: pool_inv_def requests_ok_def)
  ultimately have "pool_inv ?p" using total(2) by (simp add: pool_inv_def)
  with wf' show ?thesis by (simp add: pool_ok_def)
qed

text \<open>Self-bond changes leave the delegations alone; bookkeeping changes leave the stake alone.\<close>

lemma pool_okD:
  assumes "pool_ok p" "sp_get_stake p v = Some i"
  shows "si_validator i = v" "si_amount i \<le> MAX_VALIDATOR_STAKE"
    "si_amount i + si_delegated_amount i \<le> u64_max"
    "si_is_active i \<longrightarrow> si_amount i + si_delegated_amount i \<ge> MIN_VALIDATOR_STAKE"
    "delegations_ok v (si_delegated_amount i) (hm_get (sp_delegations p) v)"
    "si_amount i + si_delegated_amount i \<le> sp_total_staked p"
    "si_total_stake i = si_amount i + si_delegated_amount i"
proof -
  from assms have ok: "stake_ok p v i" by (simp add: pool_ok_def pool_inv_def)
  then show "si_validator i = v" "si_amount i \<le> MAX_VALIDATOR_STAKE"
    and *: "si_amount i + si_delegated_amount i \<le> u64_max"
    and "si_is_active i \<longrightarrow> si_amount i + si_delegated_amount i \<ge> MIN_VALIDATOR_STAKE"
      "delegations_ok v (si_delegated_amount i) (hm_get (sp_delegations p) v)"
    by (simp_all add: stake_ok_def)
  from assms show "si_amount i + si_delegated_amount i \<le> sp_total_staked p"
    using hm_sum_ge [OF assms(2), of "\<lambda>i. si_amount i + si_delegated_amount i"]
    by (simp add: pool_ok_def pool_inv_def bonded_def)
  from * show "si_total_stake i = si_amount i + si_delegated_amount i"
    by (simp add: si_total_stake_def saturating_add_def)
qed

lemma pool_ok_wfD:
  assumes "pool_ok p"
  shows "distinct (map fst (sp_delegations p))" "distinct (map fst (sp_stakes p))"
    "distinct (map fst (sp_unstake_requests p))" "sp_total_staked p \<le> u64_max"
    "hm_get (sp_delegations p) v = Some es \<Longrightarrow> distinct (map fst es)"
  using assms by (auto simp: pool_ok_def pool_wf_def pool_inv_def)

lemma pool_ok_self_bond:
  assumes "pool_ok p" "sp_get_stake p v = Some i"
    and "si_validator i' = v" "si_amount i' \<le> MAX_VALIDATOR_STAKE"
    and "si_delegated_amount i' = si_delegated_amount i"
    and "si_is_active i' \<longrightarrow> si_amount i' + si_delegated_amount i' \<ge> MIN_VALIDATOR_STAKE"
    and "si_machine_fingerprint i' = si_machine_fingerprint i"
    and "ts + si_amount i = sp_total_staked p + si_amount i'" "ts \<le> u64_max"
  shows "pool_ok (p\<lparr>sp_stakes := hm_insert v i' (sp_stakes p), sp_total_staked := ts\<rparr>)"
proof -
  have "si_amount i' + si_delegated_amount i' \<le> u64_max"
    using pool_okD(6) [OF assms(1,2)] assms(5,8,9) by linarith
  then have "pool_ok (p\<lparr>sp_stakes := hm_insert v i' (sp_stakes p), sp_total_staked := ts,
      sp_delegations := sp_delegations p\<rparr>)"
    using assms pool_okD [OF assms(1,2)] pool_ok_wfD [OF assms(1)]
    by (intro pool_ok_update [OF assms(1,2)]) auto
  then show ?thesis by simp
qed

definition same_bond :: "stake_info \<Rightarrow> stake_info \<Rightarrow> bool" where
  "same_bond i i' \<longleftrightarrow>
     si_validator i' = si_validator i \<and> si_amount i' = si_amount i \<and>
     si_delegated_amount i' = si_delegated_amount i \<and> si_is_active i' = si_is_active i \<and>
     si_machine_fingerprint i' = si_machine_fingerprint i"

lemma pool_ok_same_bond:
  assumes "pool_ok p" "sp_get_stake p v = Some i" "same_bond i i'"
  shows "pool_ok (p\<lparr>sp_stakes := hm_insert v i' (sp_stakes p)\<rparr>)"
proof -
  have "pool_ok (p\<lparr>sp_stakes := hm_insert v i' (sp_stakes p), sp_total_staked := sp_total_staked p\<rparr>)"
    using assms pool_okD [OF assms(1,2)] pool_ok_wfD [OF assms(1)]
    by (intro pool_ok_self_bond [OF assms(1,2)]) (auto simp: same_bond_def)
  then show ?thesis by simp
qed

lemma same_bond_add_reward: "same_bond i (si_add_reward r s i)"
  by (simp add: same_bond_def si_add_reward_def)

lemma same_bond_trans: "same_bond i j \<Longrightarrow> same_bond j k \<Longrightarrow> same_bond i k"
  by (simp add: same_bond_def)

lemma same_bond_claim: "same_bond i (fst (si_claim_rewards s n i))"
  by (simp add: same_bond_def si_claim_rewards_def Let_def si_clear_expired_boost_def)

section \<open>Operations\<close>

definition pending :: "stake_pool \<Rightarrow> nat" where
  "pending p = hm_sum ur_amount (sp_unstake_requests p)"

text \<open>All stake the pool answers for: bonded, cooling down, and slashed.\<close>

definition pool_value :: "stake_pool \<Rightarrow> nat" where
  "pool_value p = sp_total_staked p + pending p + sp_total_slashed p"

lemma max_stake_lt: "MAX_VALIDATOR_STAKE < u64_max"
  by (simp add: policy_constants u64_max_def)

lemma saturating_add_max:
  "saturating_add a b \<le> MAX_VALIDATOR_STAKE \<Longrightarrow> saturating_add a b = a + b"
  using max_stake_lt by (auto simp: saturating_add_def min_def split: if_splits)

lemma meets_minimum_iff:
  "si_amount i + si_delegated_amount i \<le> u64_max \<Longrightarrow>
     si_meets_minimum i \<longleftrightarrow> si_amount i + si_delegated_amount i \<ge> MIN_VALIDATOR_STAKE"
  by (simp add: si_meets_minimum_def si_total_stake_def saturating_add_def)

lemma meets_minimumD: "si_meets_minimum i \<Longrightarrow> si_amount i + si_delegated_amount i \<ge> MIN_VALIDATOR_STAKE"
  by (simp add: si_meets_minimum_def si_total_stake_def saturating_add_def)

lemma si_refresh_active_fields [simp]:
  "si_meets_minimum (si_refresh_active i) = si_meets_minimum i"
  by (simp add: si_meets_minimum_def)

lemma si_slash_active: "si_slash a i = (i', s) \<Longrightarrow> i' = i \<or> (si_is_active i' \<longrightarrow> si_meets_minimum i')"
  by (auto simp: si_slash_def Let_def split: if_splits)

lemma pool_ok_new:
  assumes ok: "pool_ok p" and new: "sp_get_stake p v = None"
    and i: "si_validator i = v" "si_amount i \<le> MAX_VALIDATOR_STAKE" "si_delegated_amount i = 0"
      "si_machine_fingerprint i = no_fingerprint" "si_is_active i \<longrightarrow> si_amount i \<ge> MIN_VALIDATOR_STAKE"
    and "sp_total_staked p + si_amount i \<le> u64_max"
  shows "pool_ok (p\<lparr>sp_stakes := hm_insert v i (sp_stakes p),
    sp_total_staked := sp_total_staked p + si_amount i\<rparr>)" (is "pool_ok ?p")
proof -
  from ok have wf: "pool_wf p" and inv: "pool_inv p" by (simp_all add: pool_ok_def)
  then have "pool_wf ?p" by (simp add: pool_wf_def)
  have none: "hm_get (sp_delegations p) v = None" using inv new by (auto simp: pool_inv_def)
  have "stake_ok ?p w j" if "sp_get_stake ?p w = Some j" for w j
  proof (cases "w = v")
    case True
    with that i none max_stake_lt show ?thesis by (auto simp: stake_ok_def delegations_ok_def)
  next
    case False
    with that inv have "stake_ok p w j" by (simp add: pool_inv_def)
    then show ?thesis by (simp add: stake_ok_def)
  qed
  moreover have "bonded ?p = sp_total_staked ?p"
    using hm_sum_insert_new [OF new] inv i(3) by (simp add: bonded_def pool_inv_def)
  moreover have "registry_ok ?p" using inv new unfolding pool_inv_def registry_ok_def by force
  moreover have "requests_ok ?p" using inv by (simp add: pool_inv_def requests_ok_def)
  ultimately have "pool_inv ?p" using inv assms(8) by (simp add: pool_inv_def)
  with \<open>pool_wf ?p\<close> show ?thesis by (simp add: pool_ok_def)
qed

lemma sp_stake_ok:
  assumes "pool_ok p" "sp_stake v a s p = Inr p'" "sp_total_staked p + a \<le> u64_max"
  shows "pool_ok p' \<and> pool_value p' = pool_value p + a"
proof (cases "sp_get_stake p v")
  case None
  with assms(2) have p': "p' = p\<lparr>sp_stakes := hm_insert v (si_new v a s) (sp_stakes p),
      sp_total_staked := sp_total_staked p + si_amount (si_new v a s)\<rparr>" and "a \<le> MAX_VALIDATOR_STAKE"
    using assms(3) by (auto simp: sp_stake_def Let_def saturating_add_exact si_new_def
        si_with_bootstrap_index_def split: if_splits)
  moreover from this(2) assms None have "pool_ok (p\<lparr>sp_stakes := hm_insert v (si_new v a s) (sp_stakes p),
      sp_total_staked := sp_total_staked p + si_amount (si_new v a s)\<rparr>)"
    by (intro pool_ok_new) (simp_all add: si_new_def si_with_bootstrap_index_def Let_def)
  ultimately show ?thesis
    by (simp add: pool_value_def pending_def si_new_def si_with_bootstrap_index_def Let_def)
next
  case (Some i)
  let ?i = "si_refresh_active (i\<lparr>si_amount := saturating_add (si_amount i) a\<rparr>)"
  from assms(2) Some have p': "p' = p\<lparr>sp_stakes := hm_insert v ?i (sp_stakes p),
      sp_total_staked := sp_total_staked p + a\<rparr>" and le: "saturating_add (si_amount i) a \<le> MAX_VALIDATOR_STAKE"
    using assms(3) by (auto simp: sp_stake_def Let_def saturating_add_exact split: if_splits)
  have "pool_ok (p\<lparr>sp_stakes := hm_insert v ?i (sp_stakes p), sp_total_staked := sp_total_staked p + a\<rparr>)"
    using assms(3) le saturating_add_max [OF le] pool_okD(1) [OF assms(1) Some]
    by (intro pool_ok_self_bond [OF assms(1) Some]) (auto dest: meets_minimumD)
  with p' show ?thesis by (simp add: pool_value_def pending_def)
qed

lemma sp_top_up_ok:
  assumes "pool_ok p" "sp_top_up_stake v a p = Inr (p', t)" "sp_total_staked p + a \<le> u64_max"
  shows "pool_ok p' \<and> pool_value p' = pool_value p + a"
proof -
  from assms(2) obtain i where i: "sp_get_stake p v = Some i"
    and le: "a \<le> MAX_VALIDATOR_STAKE - si_amount i"
    and p': "p' = p\<lparr>sp_stakes := hm_insert v (si_refresh_active
        (i\<lparr>si_amount := saturating_add (si_amount i) a\<rparr>)) (sp_stakes p), sp_total_staked := sp_total_staked p + a\<rparr>"
    using assms(3) by (auto simp: sp_top_up_stake_def si_top_up_stake_def Let_def saturating_add_exact
        saturating_sub_def rbind_def split: option.splits if_splits)
  note ok = pool_okD [OF assms(1) i]
  have "saturating_add (si_amount i) a = si_amount i + a" "si_amount i + a \<le> MAX_VALIDATOR_STAKE"
    using le ok(2) max_stake_lt by (auto simp: saturating_add_def)
  then have "pool_ok p'"
    unfolding p' using assms(3) ok(1)
    by (intro pool_ok_self_bond [OF assms(1) i]) (auto dest: meets_minimumD)
  with p' show ?thesis by (simp add: pool_value_def pending_def)
qed

lemma sp_add_validator_stake_ok:
  assumes "pool_ok p" "sp_add_validator_stake v a p = Inr p'" "sp_total_staked p + a \<le> u64_max"
  shows "pool_ok p' \<and> pool_value p' = pool_value p + a"
proof -
  from assms(2) obtain i where i: "sp_get_stake p v = Some i"
    and le: "a \<le> MAX_VALIDATOR_STAKE - si_amount i"
    and p': "p' = p\<lparr>sp_stakes := hm_insert v (i\<lparr>si_amount := saturating_add (si_amount i) a\<rparr>) (sp_stakes p),
        sp_total_staked := sp_total_staked p + a\<rparr>"
    using assms(3) by (auto simp: sp_add_validator_stake_def si_add_stake_def Let_def saturating_add_exact
        saturating_sub_def rbind_def split: option.splits if_splits)
  note ok = pool_okD [OF assms(1) i]
  have "saturating_add (si_amount i) a = si_amount i + a" "si_amount i + a \<le> MAX_VALIDATOR_STAKE"
    using le ok(2) max_stake_lt by (auto simp: saturating_add_def)
  then have "pool_ok p'"
    unfolding p' using assms(3) ok(1,4)
    by (intro pool_ok_self_bond [OF assms(1) i]) auto
  with p' show ?thesis by (simp add: pool_value_def pending_def)
qed

lemma sp_slash_ok:
  assumes "pool_ok p" "pool_value p \<le> u64_max" "sp_slash_validator v a p = (p', slashed)"
  shows "pool_ok p' \<and> pool_value p' = pool_value p"
proof (cases "sp_get_stake p v")
  case None
  with assms show ?thesis by (simp add: sp_slash_validator_def)
next
  case (Some i)
  obtain i' s where sl: "si_slash a i = (i', s)" by force
  note amt = si_slash_amount [OF sl] and fr = si_slash_frame [OF sl] and ok = pool_okD [OF assms(1) Some]
  have s: "s \<le> sp_total_staked p" using amt ok(6) by simp
  have "s + sp_total_slashed p \<le> u64_max" using s assms(2) by (simp add: pool_value_def)
  with sl Some s assms(3) have p': "p' = p\<lparr>sp_stakes := hm_insert v i' (sp_stakes p),
      sp_total_staked := sp_total_staked p - s, sp_total_slashed := sp_total_slashed p + s\<rparr>"
    by (auto simp: sp_slash_validator_def saturating_sub_def saturating_add_exact add.commute)
  have act: "si_is_active i' \<longrightarrow> si_amount i' + si_delegated_amount i' \<ge> MIN_VALIDATOR_STAKE"
    using si_slash_active [OF sl] ok(4) meets_minimumD by blast
  have "pool_ok (p\<lparr>sp_stakes := hm_insert v i' (sp_stakes p), sp_total_staked := sp_total_staked p - s\<rparr>)"
    using amt fr ok act s pool_ok_wfD(4) [OF assms(1)]
    by (intro pool_ok_self_bond [OF assms(1) Some]) auto
  with p' have "pool_ok p'"
    by (simp add: pool_ok_def pool_wf_def pool_inv_def bonded_def requests_ok_def registry_ok_def stake_ok_def)
  with p' s show ?thesis by (simp add: pool_value_def pending_def)
qed

lemma delegation_of_get:
  "hm_get (sp_delegations p) v = Some es \<Longrightarrow> delegation_of p v d = hm_get_or 0 es d"
  "hm_get (sp_delegations p) v = None \<Longrightarrow> delegation_of p v d = 0"
  by (simp_all add: delegation_of_def)

lemma hm_insert_sum_value:
  fixes es :: "('k, nat) hmap"
  shows "hm_sum (\<lambda>a. a) (hm_insert d x es) + hm_get_or 0 es d = hm_sum (\<lambda>a. a) es + x"
proof (cases "hm_get es d")
  case (Some a)
  with hm_sum_insert_old [OF Some, of "\<lambda>a. a" x] show ?thesis by (simp add: hm_get_or_def)
qed (simp add: hm_get_or_def hm_sum_insert_new)

lemma set_hm_insert: "distinct (map fst es) \<Longrightarrow> set (hm_insert d x es) = insert (d, x) {e \<in> set es. fst e \<noteq> d}"
  by (induction es) (auto simp: image_iff)

lemma delegations_ok_insert:
  assumes "delegations_ok v delegated (hm_get ds v)" "d \<noteq> v" "0 < a" "delegated + a \<le> u64_max"
    and "\<And>es. hm_get ds v = Some es \<Longrightarrow> distinct (map fst es)"
  defines "es \<equiv> hm_get_or [] ds v"
  shows "delegations_ok v (delegated + a) (Some (hm_insert d (hm_get_or 0 es d + a) es))"
proof -
  have d: "distinct (map fst es)" using assms(5) by (auto simp: es_def hm_get_or_def split: option.splits)
  have sum: "hm_sum (\<lambda>a. a) es = delegated" and all: "\<forall>(k, x) \<in> set es. k \<noteq> v \<and> x \<noteq> 0"
    using assms(1) by (auto simp: es_def hm_get_or_def delegations_ok_def split: option.splits)
  have "hm_insert d (hm_get_or 0 es d + a) es \<noteq> []" by (cases es) (auto split: prod.splits)
  moreover have "hm_sum (\<lambda>a. a) (hm_insert d (hm_get_or 0 es d + a) es) = delegated + a"
    using hm_insert_sum_value [of d "hm_get_or 0 es d + a" es] sum by simp
  moreover have "\<forall>(k, x) \<in> set (hm_insert d (hm_get_or 0 es d + a) es). k \<noteq> v \<and> x \<noteq> 0"
    using all assms(2,3) by (auto simp: set_hm_insert [OF d])
  ultimately show ?thesis using assms(4) by (simp add: delegations_ok_def)
qed

lemma sp_delegate_cases:
  assumes "sp_delegate d v a p = Inr p'"
  obtains i where "sp_get_stake p v = Some i" "0 < a" "si_delegated_amount i + a \<le> u64_max"
    "si_total_stake i + a \<le> u64_max" "sp_total_staked p + a \<le> u64_max" "si_is_fully_vested i"
    "si_total_stake i + a \<le> si_amount i * MAX_VALIDATOR_EFFECTIVE_STAKE_MULTIPLIER"
    "p' = p\<lparr>sp_stakes := hm_insert v (si_refresh_active
         (i\<lparr>si_delegated_amount := si_delegated_amount i + a\<rparr>)) (sp_stakes p),
       sp_total_staked := sp_total_staked p + a,
       sp_delegations := hm_insert v (hm_insert d (delegation_of p v d + a)
         (hm_get_or [] (sp_delegations p) v)) (sp_delegations p)\<rparr>"
proof -
  from assms obtain i where i: "sp_get_stake p v = Some i"
    by (auto simp: sp_delegate_def rbind_eq_Inr split: if_splits)
  from assms show ?thesis
    by (intro that [OF i])
       (auto simp: sp_delegate_def rbind_eq_Inr Let_def i split: if_splits)
qed

lemma sp_delegate_ok:
  assumes ok: "pool_ok p" and "sp_delegate d v a p = Inr p'" "d \<noteq> v"
  shows "pool_ok p' \<and> pool_value p' = pool_value p + a"
proof -
  from assms(2) obtain i where i: "sp_get_stake p v = Some i" and a: "0 < a"
    and le: "si_delegated_amount i + a \<le> u64_max" "si_total_stake i + a \<le> u64_max" "sp_total_staked p + a \<le> u64_max"
    and p': "p' = p\<lparr>sp_stakes := hm_insert v (si_refresh_active
         (i\<lparr>si_delegated_amount := si_delegated_amount i + a\<rparr>)) (sp_stakes p),
       sp_total_staked := sp_total_staked p + a,
       sp_delegations := hm_insert v (hm_insert d (delegation_of p v d + a)
         (hm_get_or [] (sp_delegations p) v)) (sp_delegations p)\<rparr>"
    by (rule sp_delegate_cases)
  let ?es = "hm_get_or [] (sp_delegations p) v"
  have del: "delegation_of p v d = hm_get_or 0 ?es d"
    by (simp add: delegation_of_def hm_get_or_def split: option.splits)
  note okD = pool_okD [OF ok i]
  have des: "delegations_ok v (si_delegated_amount i + a) (Some (hm_insert d (delegation_of p v d + a) ?es))"
    unfolding del using delegations_ok_insert [OF okD(5) assms(3) a le(1)] pool_ok_wfD(5) [OF ok] by blast
  have dist: "distinct (map fst ?es)"
    using pool_ok_wfD(5) [OF ok, of v] by (auto simp: hm_get_or_def split: option.splits)
  have "pool_ok p'"
    unfolding p' using okD le des dist pool_ok_wfD(1) [OF ok]
    by (intro pool_ok_update [OF ok i]) (auto dest: meets_minimumD)
  with p' show ?thesis by (simp add: pool_value_def pending_def)
qed

lemma undelegate_entries_ok:
  assumes "delegations_ok v delegated (Some es)" "distinct (map fst es)" "hm_get es d = Some e" "a \<le> e" "0 < a"
  defines "es' \<equiv> (if e - a = 0 then hm_remove d es else hm_insert d (e - a) es)"
  shows "delegations_ok v (delegated - a) (if es' = [] then None else Some es') \<and> distinct (map fst es')"
proof -
  have sum: "hm_sum (\<lambda>a. a) es = delegated" "delegated \<le> u64_max" and all: "\<forall>(k, x) \<in> set es. k \<noteq> v \<and> x \<noteq> 0"
    using assms(1) by (auto simp: delegations_ok_def)
  have kv: "d \<noteq> v" using all assms(3) by (auto dest: map_of_SomeD)
  have sum': "hm_sum (\<lambda>a. a) es' = delegated - a"
  proof (cases "e - a = 0")
    case True
    then show ?thesis
      using hm_sum_remove [OF assms(2,3), of "\<lambda>a. a"] assms(4) sum by (simp add: es'_def)
  next
    case False
    then show ?thesis
      using hm_sum_insert_old [OF assms(3), of "\<lambda>a. a" "e - a"] assms(4) sum by (simp add: es'_def)
  qed
  have "\<forall>(k, x) \<in> set es'. k \<noteq> v \<and> x \<noteq> 0"
    using all kv by (auto simp: es'_def set_hm_insert [OF assms(2)] hm_remove_def)
  with sum sum' assms(2) show ?thesis by (auto simp: delegations_ok_def es'_def)
qed

lemma sp_undelegate_ok:
  assumes ok: "pool_ok p" and un: "sp_undelegate d v a p = Inr p'"
  shows "pool_ok p' \<and> pool_value p' + a = pool_value p \<and> 0 < a \<and>
    sp_unstake_requests p' = sp_unstake_requests p"
proof -
  let ?ds = "undelegate_entry d v a (sp_delegations p)"
  from un obtain i where i: "sp_get_stake p v = Some i" and a: "0 < a" "a \<le> si_delegated_amount i"
    and del: "a \<le> delegation_of p v d"
    and p': "p' = p\<lparr>sp_stakes := hm_insert v (si_refresh_active
        (i\<lparr>si_delegated_amount := si_delegated_amount i - a\<rparr>)) (sp_stakes p),
      sp_total_staked := saturating_sub (sp_total_staked p) a, sp_delegations := ?ds\<rparr>"
    by (auto simp: sp_undelegate_def Let_def not_less split: if_splits option.splits)
  note okD = pool_okD [OF ok i]
  from del a(1) obtain es e where es: "hm_get (sp_delegations p) v = Some es" "hm_get es d = Some e" "a \<le> e"
    by (auto simp: delegation_of_def hm_get_or_def split: option.splits)
  define es' where "es' = (if e - a = 0 then hm_remove d es else hm_insert d (e - a) es)"
  have des: "delegations_ok v (si_delegated_amount i - a) (if es' = [] then None else Some es')"
    "distinct (map fst es')"
    using undelegate_entries_ok [OF okD(5) [unfolded es(1)] pool_ok_wfD(5) [OF ok es(1)] es(2,3) a(1)]
    unfolding es'_def by blast+
  have ds: "?ds = (if es' = [] then hm_remove v (sp_delegations p) else hm_insert v es' (sp_delegations p))"
    using es by (simp add: undelegate_entry_def es'_def Let_def)
  have get: "hm_get ?ds v = (if es' = [] then None else Some es')"
    "\<And>w. w \<noteq> v \<Longrightarrow> hm_get ?ds w = hm_get (sp_delegations p) w"
    by (simp_all add: ds)
  have dist: "distinct (map fst ?ds)" "\<And>xs. hm_get ?ds v = Some xs \<Longrightarrow> distinct (map fst xs)"
    using pool_ok_wfD(1) [OF ok] des(2) get(1) by (auto simp: ds split: if_splits)
  have "a \<le> sp_total_staked p" using a okD(6) by simp
  then have "pool_ok p'"
    unfolding p' using okD(1-3,6) a pool_ok_wfD(4) [OF ok]
    by (intro pool_ok_update [OF ok i _ _ _ _ _ _ get(2) dist])
       (auto simp: get(1) des(1) saturating_sub_def dest: meets_minimumD)
  with p' \<open>a \<le> sp_total_staked p\<close> a show ?thesis
    by (simp add: pool_value_def pending_def saturating_sub_def)
qed

text \<open>Adding and removing an unstake request.\<close>

lemma pool_frame_requests [simp]:
  "stake_ok (p\<lparr>sp_unstake_requests := rs\<rparr>) v i = stake_ok p v i"
  "bonded (p\<lparr>sp_unstake_requests := rs\<rparr>) = bonded p"
  "registry_ok (p\<lparr>sp_unstake_requests := rs\<rparr>) = registry_ok p"
  by (simp_all add: stake_ok_def bonded_def registry_ok_def)

lemma pool_ok_requests:
  assumes "pool_ok p" "distinct (map fst rs)"
    and "\<And>v s r. hm_get rs (v, s) = Some r \<Longrightarrow> ur_validator r = v \<and> ur_staker r = s \<and> ur_amount r \<noteq> 0"
  shows "pool_ok (p\<lparr>sp_unstake_requests := rs\<rparr>)"
proof -
  have "pool_wf (p\<lparr>sp_unstake_requests := rs\<rparr>)"
    using assms(1,2) unfolding pool_ok_def pool_wf_def by simp
  moreover have "requests_ok (p\<lparr>sp_unstake_requests := rs\<rparr>)"
    unfolding requests_ok_def using assms(3) by simp
  ultimately show ?thesis
    using assms(1) unfolding pool_ok_def pool_inv_def by simp
qed

lemma pool_ok_requestD:
  "pool_ok p \<Longrightarrow> hm_get (sp_unstake_requests p) (v, s) = Some r \<Longrightarrow>
     ur_validator r = v \<and> ur_staker r = s \<and> ur_amount r \<noteq> 0"
  by (simp add: pool_ok_def pool_inv_def requests_ok_def)

lemma pool_ok_add_request:
  assumes ok: "pool_ok p" and r: "ur_validator r = v" "ur_staker r = s" "ur_amount r \<noteq> 0"
  shows "pool_ok (p\<lparr>sp_unstake_requests := hm_insert (v, s) r (sp_unstake_requests p)\<rparr>)"
proof (rule pool_ok_requests [OF ok])
  show "distinct (map fst (hm_insert (v, s) r (sp_unstake_requests p)))"
    using pool_ok_wfD(3) [OF ok] by (rule distinct_keys_insert)
next
  fix w u q
  assume "hm_get (hm_insert (v, s) r (sp_unstake_requests p)) (w, u) = Some q"
  then show "ur_validator q = w \<and> ur_staker q = u \<and> ur_amount q \<noteq> 0"
    using pool_ok_requestD [OF ok, of w u q] r by (cases "(w, u) = (v, s)") auto
qed

lemma sp_request_delegation_unstake_ok:
  assumes ok: "pool_ok p" and rq: "sp_request_delegation_unstake d v a s p = Inr (p', r)"
  shows "pool_ok p' \<and> pool_value p' = pool_value p"
proof -
  from rq obtain q where un: "sp_undelegate d v a p = Inr q"
    and new: "hm_get (sp_unstake_requests p) (v, d) = None"
    and p': "p' = q\<lparr>sp_unstake_requests := hm_insert (v, d) r (sp_unstake_requests q)\<rparr>"
    and r: "ur_validator r = v" "ur_staker r = d" "ur_amount r = a"
    by (auto simp: sp_request_delegation_unstake_def rbind_eq_Inr Let_def
        hm_contains_def simp del: hm_contains_iff split: if_splits)
  note q = sp_undelegate_ok [OF ok un]
  have "pool_ok p'" unfolding p' using q r by (intro pool_ok_add_request) auto
  with q p' r new show ?thesis
    by (auto simp: pool_value_def pending_def hm_sum_insert_new)
qed

lemma sp_request_unstake_ok:
  assumes ok: "pool_ok p" and rq: "sp_request_unstake v a s staker p = Inr (p', r)"
  shows "pool_ok p' \<and> pool_value p' = pool_value p"
proof -
  from rq obtain i where i: "sp_get_stake p v = Some i"
    and new: "hm_get (sp_unstake_requests p) (v, staker) = None"
    and a: "0 < a" "a \<le> si_amount i"
    and r: "ur_validator r = si_validator i" "ur_staker r = staker" "ur_amount r = a"
    and p': "p' = p\<lparr>sp_stakes := hm_insert v (si_refresh_active
        (i\<lparr>si_amount := saturating_sub (si_amount i) a\<rparr>)) (sp_stakes p),
      sp_total_staked := saturating_sub (sp_total_staked p) a,
      sp_unstake_requests := hm_insert (v, staker) r (sp_unstake_requests p)\<rparr>"
    by (auto simp: sp_request_unstake_def si_request_unstake_def rbind_eq_Inr Let_def
        hm_contains_def simp del: hm_contains_iff split: if_splits)
  note okD = pool_okD [OF ok i]
  have ts: "a \<le> sp_total_staked p" using a okD(6) by simp
  have q: "pool_ok (p\<lparr>sp_stakes := hm_insert v (si_refresh_active
      (i\<lparr>si_amount := saturating_sub (si_amount i) a\<rparr>)) (sp_stakes p),
      sp_total_staked := saturating_sub (sp_total_staked p) a\<rparr>)"
    using okD a ts pool_ok_wfD(4) [OF ok]
    by (intro pool_ok_self_bond [OF ok i]) (auto simp: saturating_sub_def dest: meets_minimumD)
  have "pool_ok p'"
    using pool_ok_add_request [OF q, of r v staker] r a okD(1) by (simp add: p')
  with p' r new ts show ?thesis
    by (simp add: pool_value_def pending_def hm_sum_insert_new saturating_sub_def)
qed

lemma sp_claim_unstake_ok:
  assumes ok: "pool_ok p" and cl: "sp_claim_unstake v s staker p = Inr (p', a)"
  shows "pool_ok p' \<and> pool_value p' + a = pool_value p"
proof -
  from cl obtain r where r: "hm_get (sp_unstake_requests p) (v, staker) = Some r" "a = ur_amount r"
    and p': "p' = p\<lparr>sp_unstake_requests := hm_remove (v, staker) (sp_unstake_requests p)\<rparr>"
    by (auto simp: sp_claim_unstake_def rbind_eq_Inr split: if_splits)
  have "pool_ok p'"
    unfolding p' using pool_ok_wfD(3) [OF ok] pool_ok_requestD [OF ok]
    by (intro pool_ok_requests [OF ok]) (auto split: if_splits)
  with p' r hm_sum_remove [OF pool_ok_wfD(3) [OF ok] r(1), of ur_amount] show ?thesis
    by (simp add: pool_value_def pending_def)
qed

lemma settle_distributions_ok:
  "pool_ok p \<Longrightarrow> pool_ok (fst (settle_distributions s n ds p m)) \<and>
     pool_value (fst (settle_distributions s n ds p m)) = pool_value p"
proof (induction s n ds p m rule: settle_distributions.induct)
  case (2 s n v r ds p m)
  show ?case
  proof (cases "sp_get_stake p v")
    case None
    with 2 show ?thesis by simp
  next
    case (Some i)
    obtain i' l d where cl: "si_claim_rewards s n (si_add_reward r s i) = (i', l, d)"
      by (metis prod.exhaust)
    let ?q = "p\<lparr>sp_stakes := hm_insert v i' (sp_stakes p)\<rparr>"
    have "same_bond i i'"
      using same_bond_trans [OF same_bond_add_reward same_bond_claim, of i s n r s] cl by simp
    then have "pool_ok ?q" using "2.prems" Some by (intro pool_ok_same_bond)
    moreover have "pool_value ?q = pool_value p" by (simp add: pool_value_def pending_def)
    ultimately show ?thesis
      using "2.IH" Some cl by (simp add: case_prod_unfold)
  qed
qed simp

lemma pool_same_bond_ok:
  assumes "pool_ok p" "sp_get_stake p v = Some i" "same_bond i i'"
  shows "pool_ok (p\<lparr>sp_stakes := hm_insert v i' (sp_stakes p)\<rparr>) \<and>
    pool_value (p\<lparr>sp_stakes := hm_insert v i' (sp_stakes p)\<rparr>) = pool_value p"
  using pool_ok_same_bond [OF assms] by (simp add: pool_value_def pending_def)

lemma sp_bookkeeping_ok:
  assumes "pool_ok p"
  shows "pool_ok (sp_distribute_fees v f s p) \<and> pool_value (sp_distribute_fees v f s p) = pool_value p"
    and "pool_ok (fst (sp_distribute_block_reward v s p)) \<and>
      pool_value (fst (sp_distribute_block_reward v s p)) = pool_value p"
    and "pool_ok (fst (sp_claim_rewards v s p)) \<and> pool_value (fst (sp_claim_rewards v s p)) = pool_value p"
    and "sp_record_block_produced v p = Inr p' \<Longrightarrow> pool_ok p' \<and> pool_value p' = pool_value p"
    and "pool_ok (fst (sp_distribute_epoch_staker_rewards_from_pool b s p)) \<and>
      pool_value (fst (sp_distribute_epoch_staker_rewards_from_pool b s p)) = pool_value p"
proof -
  note upd = pool_same_bond_ok [OF assms]
  show "pool_ok (sp_distribute_fees v f s p) \<and> pool_value (sp_distribute_fees v f s p) = pool_value p"
    using upd same_bond_add_reward assms by (simp add: sp_distribute_fees_def split: option.splits)
  have "same_bond i (i\<lparr>si_last_reward_slot := s\<rparr>)" "same_bond i (i\<lparr>si_blocks_produced := m\<rparr>)" for i m
    by (simp_all add: same_bond_def)
  then show "pool_ok (fst (sp_distribute_block_reward v s p)) \<and>
      pool_value (fst (sp_distribute_block_reward v s p)) = pool_value p"
    and "sp_record_block_produced v p = Inr p' \<Longrightarrow> pool_ok p' \<and> pool_value p' = pool_value p"
    using upd assms by (auto simp: sp_distribute_block_reward_def sp_record_block_produced_def rbind_eq_Inr
        split: option.splits)
  show "pool_ok (fst (sp_claim_rewards v s p)) \<and> pool_value (fst (sp_claim_rewards v s p)) = pool_value p"
    using upd [OF _ same_bond_claim] assms
    by (simp add: sp_claim_rewards_def case_prod_unfold split: option.splits)
  show "pool_ok (fst (sp_distribute_epoch_staker_rewards_from_pool b s p)) \<and>
      pool_value (fst (sp_distribute_epoch_staker_rewards_from_pool b s p)) = pool_value p"
    using settle_distributions_ok [OF assms] assms
    by (simp add: sp_distribute_epoch_staker_rewards_from_pool_def case_prod_unfold)
qed

section \<open>Runs of the pool\<close>

text \<open>
  The operations as a transition system. A step is labelled with the stake that enters the
  pool and the stake that leaves it. The guard on entering stake says that everything the pool
  answers for fits in \<open>u64\<close>, which the token supply guarantees; the guard of \<open>delegate\<close> is
  the test \<open>staker == validator\<close> with which the processor chooses between self-bond and
  delegation.
\<close>

inductive pool_step :: "stake_pool \<Rightarrow> nat \<Rightarrow> nat \<Rightarrow> stake_pool \<Rightarrow> bool" where
  step_stake: "sp_stake v a s p = Inr p' \<Longrightarrow> pool_value p + a \<le> u64_max \<Longrightarrow> pool_step p a 0 p'"
| step_top_up: "sp_top_up_stake v a p = Inr (p', t) \<Longrightarrow> pool_value p + a \<le> u64_max \<Longrightarrow> pool_step p a 0 p'"
| step_add: "sp_add_validator_stake v a p = Inr p' \<Longrightarrow> pool_value p + a \<le> u64_max \<Longrightarrow> pool_step p a 0 p'"
| step_delegate: "sp_delegate d v a p = Inr p' \<Longrightarrow> d \<noteq> v \<Longrightarrow> pool_value p + a \<le> u64_max \<Longrightarrow> pool_step p a 0 p'"
| step_undelegate: "sp_undelegate d v a p = Inr p' \<Longrightarrow> pool_step p 0 a p'"
| step_request_delegation: "sp_request_delegation_unstake d v a s p = Inr (p', r) \<Longrightarrow> pool_step p 0 0 p'"
| step_request: "sp_request_unstake v a s staker p = Inr (p', r) \<Longrightarrow> pool_step p 0 0 p'"
| step_claim_unstake: "sp_claim_unstake v s staker p = Inr (p', a) \<Longrightarrow> pool_step p 0 a p'"
| step_slash: "sp_slash_validator v a p = (p', slashed) \<Longrightarrow> pool_step p 0 0 p'"
| step_fees: "pool_step p 0 0 (sp_distribute_fees v f s p)"
| step_block_reward: "pool_step p 0 0 (fst (sp_distribute_block_reward v s p))"
| step_claim_rewards: "pool_step p 0 0 (fst (sp_claim_rewards v s p))"
| step_produced: "sp_record_block_produced v p = Inr p' \<Longrightarrow> pool_step p 0 0 p'"
| step_epoch: "pool_step p 0 0 (fst (sp_distribute_epoch_staker_rewards_from_pool b s p))"

inductive pool_run :: "nat \<Rightarrow> nat \<Rightarrow> stake_pool \<Rightarrow> bool" where
  run_new: "pool_run 0 0 sp_new"
| run_step: "pool_run i q p \<Longrightarrow> pool_step p di do p' \<Longrightarrow> pool_run (i + di) (q + do) p'"

lemma pool_step_ok:
  assumes "pool_step p di do p'" "pool_ok p" "pool_value p \<le> u64_max"
  shows "pool_ok p' \<and> pool_value p' + do = pool_value p + di \<and> pool_value p' \<le> u64_max"
proof -
  have fits: "sp_total_staked p + a \<le> u64_max" if "pool_value p + a \<le> u64_max" for a
    using that by (simp add: pool_value_def)
  show ?thesis
    using assms(1)
  proof cases
    case (step_stake v s)
    with sp_stake_ok [OF assms(2)] fits show ?thesis by auto
  next
    case (step_top_up v t)
    with sp_top_up_ok [OF assms(2)] fits show ?thesis by auto
  next
    case (step_add v)
    with sp_add_validator_stake_ok [OF assms(2)] fits show ?thesis by auto
  next
    case (step_delegate d v)
    with sp_delegate_ok [OF assms(2)] show ?thesis by auto
  next
    case (step_undelegate d v)
    with sp_undelegate_ok [OF assms(2)] assms(3) show ?thesis by fastforce
  next
    case (step_claim_unstake v s staker)
    with sp_claim_unstake_ok [OF assms(2)] assms(3) show ?thesis by fastforce
  next
    case (step_request_delegation d v a s r)
    with sp_request_delegation_unstake_ok [OF assms(2)] assms(3) show ?thesis by auto
  next
    case (step_request v a s staker r)
    with sp_request_unstake_ok [OF assms(2)] assms(3) show ?thesis by auto
  next
    case (step_slash v a slashed)
    with sp_slash_ok [OF assms(2,3)] assms(3) show ?thesis by auto
  next
    case (step_produced v)
    with sp_bookkeeping_ok(4) [OF assms(2)] assms(3) show ?thesis by auto
  qed (use assms(3) sp_bookkeeping_ok(1-3,5) [OF assms(2)] in simp_all)
qed

lemma pool_new_ok: "pool_ok sp_new" "pool_value sp_new = 0"
  by (simp_all add: sp_new_def pool_ok_def pool_wf_def pool_inv_def bonded_def requests_ok_def
      registry_ok_def pool_value_def pending_def)

lemma pool_run_ok:
  "pool_run i q p \<Longrightarrow> pool_ok p \<and> pool_value p + q = i \<and> pool_value p \<le> u64_max"
proof (induction rule: pool_run.induct)
  case run_new
  then show ?case by (simp add: pool_new_ok)
next
  case (run_step i q p di do p')
  with pool_step_ok [OF run_step.hyps(2)] show ?case by auto
qed


definition demo_pool_staked :: stake_pool where
  "demo_pool_staked = sp_new\<lparr>
     sp_stakes := [(demo_pubkey 1, si_new (demo_pubkey 1) 100000000000000 10)],
     sp_total_staked := 100000000000000\<rparr>"

definition demo_pool_delegated :: stake_pool where
  "demo_pool_delegated = demo_pool_staked\<lparr>
     sp_stakes := [(demo_pubkey 1, si_refresh_active
        ((si_new (demo_pubkey 1) 100000000000000 10)\<lparr>si_delegated_amount := 40000000000000\<rparr>))],
     sp_total_staked := 140000000000000,
     sp_delegations := [(demo_pubkey 1, [(demo_pubkey 2, 40000000000000)])]\<rparr>"

lemma demo_pool_run: "pool_run 140000000000000 0 demo_pool_delegated"
proof -
  note defs = demo_pool_staked_def demo_pool_delegated_def sp_new_def Let_def policy_constants u64_max_def
    saturating_add_def
  have "sp_stake (demo_pubkey 1) 100000000000000 10 sp_new = Inr demo_pool_staked"
    by (simp add: sp_stake_def defs)
  then have "pool_step sp_new 100000000000000 0 demo_pool_staked"
    by (rule step_stake) (simp add: pool_new_ok u64_max_def)
  from run_step [OF run_new this] have r1: "pool_run 100000000000000 0 demo_pool_staked" by simp
  have "sp_delegate (demo_pubkey 2) (demo_pubkey 1) 40000000000000 demo_pool_staked = Inr demo_pool_delegated"
    by (simp add: sp_delegate_def sp_staking_v2_delegation_capacity_def delegation_of_def si_is_fully_vested_def
        si_new_def si_with_bootstrap_index_def si_total_stake_def checked_mul_def checked_add_def ok_or_def
        hm_get_or_def MAX_BOOTSTRAP_VALIDATORS_def defs)
  then have "pool_step demo_pool_staked 40000000000000 0 demo_pool_delegated"
    by (rule step_delegate) (simp_all add: pool_value_def pending_def defs)
  from run_step [OF r1 this] show ?thesis by simp
qed


end
