(* ===== verification/Bft_Types.thy ===== *)
theory Bft_Types
  imports Blocks
begin

text \<open>
  The messages of BFT consensus (\<open>core/src/consensus.rs\<close>): proposals, prevotes, precommits and
  the older slot votes, the signature checks on them, the slashable offenses and the two
  verifiers of slashing evidence. The vote authority, which signs at most one slot vote per
  slot, is here too.
\<close>

section \<open>Messages\<close>

datatype round_step = Propose | Prevote | Precommit | Commit

record proposal =
  prop_height :: u64
  prop_round :: u32
  prop_block :: block
  prop_valid_round :: int
  prop_proposer :: pubkey
  prop_signature :: pq_signature

record prevote =
  pv_height :: u64
  pv_round :: u32
  pv_block_hash :: "hash option"
  pv_validator :: pubkey
  pv_signature :: pq_signature

record precommit =
  pc_height :: u64
  pc_round :: u32
  pc_block_hash :: "hash option"
  pc_validator :: pubkey
  pc_signature :: pq_signature
  pc_timestamp :: u64

record vote =
  vt_slot :: u64
  vt_block_hash :: hash
  vt_validator :: pubkey
  vt_signature :: pq_signature
  vt_timestamp :: u64

definition proposal_signing_bytes_for_chain_id :: "crypto \<Rightarrow> string \<Rightarrow> proposal \<Rightarrow> u8 list" where
  "proposal_signing_bytes_for_chain_id c chain_id p =
     maybe_versioned_signing_bytes DOMAIN_PROPOSAL chain_id
       (proposal_signable_bytes_static (prop_height p) (prop_round p) (block_hash c (prop_block p))
          (prop_valid_round p))"

definition proposal_verify_signature_with_chain_id :: "crypto \<Rightarrow> string \<Rightarrow> proposal \<Rightarrow> bool" where
  "proposal_verify_signature_with_chain_id c chain_id p =
     keypair_verify c (prop_proposer p) (proposal_signing_bytes_for_chain_id c chain_id p) (prop_signature p)"

definition prevote_verify_signature_with_chain_id :: "crypto \<Rightarrow> string \<Rightarrow> prevote \<Rightarrow> bool" where
  "prevote_verify_signature_with_chain_id c chain_id v =
     keypair_verify c (pv_validator v)
       (prevote_signing_bytes_for_chain_id chain_id (pv_height v) (pv_round v) (pv_block_hash v))
       (pv_signature v)"

definition precommit_verify_signature_with_chain_id :: "crypto \<Rightarrow> string \<Rightarrow> precommit \<Rightarrow> bool" where
  "precommit_verify_signature_with_chain_id c chain_id v =
     keypair_verify c (pc_validator v)
       (precommit_signing_bytes_for_chain_id chain_id (pc_height v) (pc_round v) (pc_block_hash v)
          (pc_timestamp v))
       (pc_signature v)"

definition vote_message :: "u64 \<Rightarrow> hash \<Rightarrow> u8 list" where
  "vote_message slot bh = u64_to_le_bytes slot @ hash_bytes bh"

definition vote_verify :: "crypto \<Rightarrow> vote \<Rightarrow> bool" where
  "vote_verify c v =
     keypair_verify c (vt_validator v) (vote_message (vt_slot v) (vt_block_hash v)) (vt_signature v)"

section \<open>Slashing evidence\<close>

datatype slashing_offense =
    DoubleBlock u64 hash hash
  | DoubleVote u64 vote vote
  | Downtime u64 u64 u64
  | InvalidStateTransition u64 string
  | Censorship u64 u64
  | Collusion u64 "pubkey list"
  | DoubleBlockV2 block_header block_header
  | DoublePrevoteV2 prevote prevote
  | DoublePrecommitV2 precommit precommit

record slashing_evidence =
  se_offense :: slashing_offense
  se_validator :: pubkey
  se_evidence_slot :: u64
  se_reporter :: pubkey
  se_timestamp :: u64

definition se_verify :: "crypto \<Rightarrow> slashing_evidence \<Rightarrow> bool" where
  "se_verify c e =
     (case se_offense e of
        DoubleBlock _ h1 h2 \<Rightarrow> h1 \<noteq> h2
      | DoubleVote _ v1 v2 \<Rightarrow>
          vt_slot v1 = vt_slot v2 \<and> vt_block_hash v1 \<noteq> vt_block_hash v2 \<and>
          vt_validator v1 = vt_validator v2 \<and> vt_validator v1 = se_validator e \<and>
          vote_verify c v1 \<and> vote_verify c v2
      | Downtime last_active current missed \<Rightarrow> missed = saturating_sub current last_active \<and> missed > 0
      | InvalidStateTransition _ description \<Rightarrow> description \<noteq> []
      | Censorship _ n \<Rightarrow> n > 0
      | Collusion _ vs \<Rightarrow> length vs \<ge> 2
      | DoubleBlockV2 _ _ \<Rightarrow> False
      | DoublePrevoteV2 _ _ \<Rightarrow> False
      | DoublePrecommitV2 _ _ \<Rightarrow> False)"

definition se_verify_with_chain_id :: "crypto \<Rightarrow> string \<Rightarrow> slashing_evidence \<Rightarrow> bool" where
  "se_verify_with_chain_id c chain_id e =
     (case se_offense e of
        DoubleBlockV2 h1 h2 \<Rightarrow>
          hdr_slot h1 = hdr_slot h2 \<and> hdr_validator h1 = hdr_validator h2 \<and>
          hdr_validator h1 = se_validator e \<and> header_signable_hash c h1 \<noteq> header_signable_hash c h2 \<and>
          header_verify_signature_with_chain_id c chain_id h1 \<and>
          header_verify_signature_with_chain_id c chain_id h2
      | DoublePrevoteV2 v1 v2 \<Rightarrow>
          pv_height v1 = pv_height v2 \<and> pv_round v1 = pv_round v2 \<and>
          pv_block_hash v1 \<noteq> pv_block_hash v2 \<and> pv_validator v1 = pv_validator v2 \<and>
          pv_validator v1 = se_validator e \<and>
          prevote_verify_signature_with_chain_id c chain_id v1 \<and>
          prevote_verify_signature_with_chain_id c chain_id v2
      | DoublePrecommitV2 v1 v2 \<Rightarrow>
          pc_height v1 = pc_height v2 \<and> pc_round v1 = pc_round v2 \<and>
          pc_block_hash v1 \<noteq> pc_block_hash v2 \<and> pc_validator v1 = pc_validator v2 \<and>
          pc_validator v1 = se_validator e \<and>
          precommit_verify_signature_with_chain_id c chain_id v1 \<and>
          precommit_verify_signature_with_chain_id c chain_id v2
      | _ \<Rightarrow> False)"

definition se_offense_slot :: "slashing_evidence \<Rightarrow> u64" where
  "se_offense_slot e =
     (case se_offense e of
        DoubleBlock slot _ _ \<Rightarrow> slot
      | DoubleVote slot _ _ \<Rightarrow> slot
      | InvalidStateTransition slot _ \<Rightarrow> slot
      | Censorship slot _ \<Rightarrow> slot
      | Collusion slot _ \<Rightarrow> slot
      | Downtime _ current _ \<Rightarrow> current
      | DoubleBlockV2 h1 _ \<Rightarrow> hdr_slot h1
      | DoublePrevoteV2 v1 _ \<Rightarrow> pv_height v1
      | DoublePrecommitV2 v1 _ \<Rightarrow> pc_height v1)"

definition se_severity :: "slashing_evidence \<Rightarrow> u64" where
  "se_severity e =
     (case se_offense e of
        DoubleBlock _ _ _ \<Rightarrow> 100
      | DoubleVote _ _ _ \<Rightarrow> 80
      | Downtime _ _ missed \<Rightarrow> min (10 + min (missed div 10) 40) 50
      | InvalidStateTransition _ _ \<Rightarrow> 100
      | Censorship _ _ \<Rightarrow> 70
      | Collusion _ _ \<Rightarrow> 100
      | DoubleBlockV2 _ _ \<Rightarrow> 100
      | DoublePrevoteV2 _ _ \<Rightarrow> 80
      | DoublePrecommitV2 _ _ \<Rightarrow> 80)"

section \<open>Vote authority\<close>

record vote_authority =
  va_signing_seed :: "u8 list"
  va_validator_pubkey :: pubkey
  va_voted :: "(u64, hash) hmap"

definition va_new :: "u8 list \<Rightarrow> pubkey \<Rightarrow> vote_authority" where
  "va_new seed pk = \<lparr>va_signing_seed = seed, va_validator_pubkey = pk, va_voted = []\<rparr>"

definition va_try_vote ::
  "crypto \<Rightarrow> u64 \<Rightarrow> u64 \<Rightarrow> hash \<Rightarrow> vote_authority \<Rightarrow> vote_authority \<times> vote option" where
  "va_try_vote c now slot bh va =
     (if hm_contains (va_voted va) slot then (va, None)
      else
        let kp = \<lparr>kp_seed = va_signing_seed va\<rparr>;
            signature = keypair_sign c kp (vote_message slot bh);
            vote = \<lparr>vt_slot = slot, vt_block_hash = bh, vt_validator = va_validator_pubkey va,
                    vt_signature = signature, vt_timestamp = now\<rparr>
        in (va\<lparr>va_voted := hm_insert slot bh (va_voted va)\<rparr>, Some vote))"

definition va_prune :: "u64 \<Rightarrow> vote_authority \<Rightarrow> vote_authority" where
  "va_prune min_slot va = va\<lparr>va_voted := hm_retain (\<lambda>s. s \<ge> min_slot) (va_voted va)\<rparr>"

text \<open>A history of requests to the authority, with the votes it has released.\<close>

fun va_run :: "crypto \<Rightarrow> (u64 \<times> u64 \<times> hash) list \<Rightarrow> vote_authority \<Rightarrow> vote_authority \<times> vote list" where
  "va_run c [] va = (va, [])"
| "va_run c ((now, slot, bh) # reqs) va =
     (case va_try_vote c now slot bh va of (va', out) \<Rightarrow>
        (case va_run c reqs va' of (va'', votes) \<Rightarrow>
           (va'', (case out of Some v \<Rightarrow> [v] | None \<Rightarrow> []) @ votes)))"

lemma va_run_votes:
  assumes "va_run c reqs va = (va', votes)"
  shows "distinct (map vt_slot votes) \<and> (\<forall>v \<in> set votes. vt_slot v \<notin> fst ` set (va_voted va))"
  using assms
proof (induction c reqs va arbitrary: va' votes rule: va_run.induct)
  case (2 c now slot bh reqs va)
  obtain va1 out where t: "va_try_vote c now slot bh va = (va1, out)" by force
  obtain va2 vs where r: "va_run c reqs va1 = (va2, vs)" by force
  note IH = "2.IH" [OF t [symmetric] r]
  from "2.prems" t r have votes: "votes = (case out of Some v \<Rightarrow> [v] | None \<Rightarrow> []) @ vs" by simp
  show ?case
  proof (cases "hm_contains (va_voted va) slot")
    case True
    with t have "out = None" "va1 = va" by (simp_all add: va_try_vote_def)
    with IH votes show ?thesis by simp
  next
    case False
    with t obtain v where "out = Some v" "vt_slot v = slot"
      "va1 = va\<lparr>va_voted := hm_insert slot bh (va_voted va)\<rparr>"
      by (auto simp: va_try_vote_def Let_def)
    with IH votes False show ?thesis by auto
  qed
qed simp


end
