(* ===== verification/Validator_Set.thy ===== *)
theory Validator_Set
  imports Stake_Pool
begin

text \<open>
  Validators, leader selection and voting power (\<open>ValidatorInfo\<close>, \<open>ValidatorSet\<close>,
  \<open>integer_sqrt\<close>, \<open>eligible_validator_stake\<close> of \<open>core/src/consensus.rs\<close>). The lemmas show that
  Newton's iteration computes the integer square root, that a selected leader is always an
  eligible validator, and that weighted round-robin keeps the sum of the priorities.
\<close>

section \<open>Validators\<close>

record validator_info =
  vi_pubkey :: pubkey
  vi_reputation :: u64
  vi_blocks_proposed :: u64
  vi_votes_cast :: u64
  vi_correct_votes :: u64
  vi_stake :: u64
  vi_joined_slot :: u64
  vi_last_active_slot :: u64
  vi_last_observed_at_ms :: u64
  vi_last_observed_block_at_ms :: u64
  vi_last_observed_block_slot :: u64
  vi_commission_rate :: u64
  vi_transactions_processed :: u64
  vi_pending_activation :: bool

definition vi_new :: "pubkey \<Rightarrow> u64 \<Rightarrow> validator_info" where
  "vi_new pubkey joined_slot =
     \<lparr>vi_pubkey = pubkey, vi_reputation = 100, vi_blocks_proposed = 0, vi_votes_cast = 0,
      vi_correct_votes = 0, vi_stake = 0, vi_joined_slot = joined_slot,
      vi_last_active_slot = joined_slot, vi_last_observed_at_ms = 0, vi_last_observed_block_at_ms = 0,
      vi_last_observed_block_slot = 0, vi_commission_rate = 500, vi_transactions_processed = 0,
      vi_pending_activation = False\<rparr>"

definition vi_note_activity :: "u64 \<Rightarrow> u64 \<Rightarrow> bool \<Rightarrow> validator_info \<Rightarrow> validator_info" where
  "vi_note_activity slot observed_at_ms count_vote v =
     (let v = (if slot > vi_last_active_slot v then v\<lparr>vi_last_active_slot := slot\<rparr> else v);
          v = (if observed_at_ms > vi_last_observed_at_ms v then v\<lparr>vi_last_observed_at_ms := observed_at_ms\<rparr> else v);
          v = (if slot \<ge> vi_last_observed_block_slot v
               then v\<lparr>vi_last_observed_block_slot := slot, vi_last_observed_block_at_ms := observed_at_ms\<rparr> else v)
      in if count_vote then v\<lparr>vi_votes_cast := saturating_add (vi_votes_cast v) 1\<rparr> else v)"

definition vi_note_block_observation :: "u64 \<Rightarrow> u64 \<Rightarrow> validator_info \<Rightarrow> validator_info" where
  "vi_note_block_observation slot observed_at_ms v =
     (let v = vi_note_activity slot observed_at_ms False v
      in if slot \<ge> vi_last_observed_block_slot v
         then v\<lparr>vi_last_observed_block_slot := slot, vi_last_observed_block_at_ms := observed_at_ms\<rparr> else v)"

definition vi_update_reputation :: "bool \<Rightarrow> validator_info \<Rightarrow> validator_info" where
  "vi_update_reputation correct v =
     (if correct then v\<lparr>vi_reputation := min (wrapping_add64 (vi_reputation v) 10) 1000\<rparr>
      else v\<lparr>vi_reputation := max (saturating_sub (vi_reputation v) 50) 50\<rparr>)"

record validator_set =
  vs_validators :: "validator_info list"
  vs_frozen_epoch :: u64

definition vs_new :: validator_set where
  "vs_new = \<lparr>vs_validators = [], vs_frozen_epoch = 0\<rparr>"

definition vs_consensus_set :: "validator_set \<Rightarrow> validator_set" where
  "vs_consensus_set vs =
     \<lparr>vs_validators = filter (\<lambda>v. \<not> vi_pending_activation v) (vs_validators vs),
      vs_frozen_epoch = vs_frozen_epoch vs\<rparr>"

definition vs_pending_count :: "validator_set \<Rightarrow> nat" where
  "vs_pending_count vs = length (filter vi_pending_activation (vs_validators vs))"

definition vs_activate_pending_validators :: "validator_set \<Rightarrow> validator_set \<times> pubkey list" where
  "vs_activate_pending_validators vs =
     (vs\<lparr>vs_validators := map (\<lambda>v. v\<lparr>vi_pending_activation := False\<rparr>) (vs_validators vs)\<rparr>,
      map vi_pubkey (filter vi_pending_activation (vs_validators vs)))"

definition vs_get_validator :: "validator_set \<Rightarrow> pubkey \<Rightarrow> validator_info option" where
  "vs_get_validator vs pk = List.find (\<lambda>v. vi_pubkey v = pk) (vs_validators vs)"

definition vs_add_validator :: "validator_info \<Rightarrow> validator_set \<Rightarrow> validator_set" where
  "vs_add_validator info vs =
     (if \<not> list_ex (\<lambda>v. vi_pubkey v = vi_pubkey info) (vs_validators vs)
      then vs\<lparr>vs_validators := vs_validators vs @ [info]\<rparr> else vs)"

definition vs_remove_validator :: "pubkey \<Rightarrow> validator_set \<Rightarrow> validator_set" where
  "vs_remove_validator pk vs =
     vs\<lparr>vs_validators := filter (\<lambda>v. vi_pubkey v \<noteq> pk) (vs_validators vs)\<rparr>"

definition vs_sorted_validators :: "validator_set \<Rightarrow> validator_info list" where
  "vs_sorted_validators vs = sort_key vi_pubkey (vs_validators vs)"

section \<open>Integer square root\<close>

function isqrt_loop :: "u64 \<Rightarrow> u64 \<Rightarrow> u64 \<Rightarrow> u64" where
  "isqrt_loop value x y = (if y < x then isqrt_loop value y ((y + value div y) div 2) else x)"
  by pat_completeness auto
termination
  by (relation "measure (\<lambda>(value, x, y). x)") auto

declare isqrt_loop.simps [simp del]

definition integer_sqrt :: "u64 \<Rightarrow> u64" where
  "integer_sqrt value = (if value = 0 then 0 else isqrt_loop value value (div_ceil value 2))"

definition governance_voting_power :: "u64 \<Rightarrow> u64 \<Rightarrow> u64" where
  "governance_voting_power tokens_held reputation =
     (let base = integer_sqrt tokens_held;
          multiplier_x1000 = 1000 + min reputation 2000;
          capped = min multiplier_x1000 3000
      in as_u64 (base * capped div 1000))"

section \<open>Leader selection\<close>

definition vs_select_leader :: "validator_set \<Rightarrow> u64 \<Rightarrow> pubkey option" where
  "vs_select_leader vs slot =
     (if vs_validators vs = [] then None
      else Some (vi_pubkey (vs_sorted_validators vs ! (slot mod length (vs_sorted_validators vs)))))"

definition leader_eligible :: "stake_pool \<Rightarrow> u64 \<Rightarrow> validator_info \<Rightarrow> bool" where
  "leader_eligible pool min_validator_stake v =
     (if vi_pending_activation v then False
      else if sp_staking_v2_state pool \<noteq> None then sp_staking_v2_leader_weight pool (vi_pubkey v) \<noteq> None
      else (case sp_get_stake pool (vi_pubkey v) of Some s \<Rightarrow> si_total_stake s | None \<Rightarrow> 0) \<ge> min_validator_stake)"

definition leader_weight :: "stake_pool \<Rightarrow> validator_info \<Rightarrow> int" where
  "leader_weight pool v =
     (case sp_staking_v2_leader_weight pool (vi_pubkey v) of
        Some weight \<Rightarrow> int weight
      | None \<Rightarrow>
          let stake = (case sp_get_stake pool (vi_pubkey v) of
                Some s \<Rightarrow> min (si_total_stake s) MAX_VALIDATOR_STAKE
              | None \<Rightarrow> min (vi_stake v) MAX_VALIDATOR_STAKE)
          in int (integer_sqrt (max stake 1)) + 1)"

text \<open>Rust's remainder has the sign of the dividend; \<open>i64::from_le_bytes\<close> reads two's complement.\<close>

definition rust_rem :: "int \<Rightarrow> int \<Rightarrow> int" where
  "rust_rem a b = sgn a * (\<bar>a\<bar> mod \<bar>b\<bar>)"

definition i64_from_le_bytes :: "u8 list \<Rightarrow> int" where
  "i64_from_le_bytes bs =
     (let n = foldr (\<lambda>b acc. uint b + 256 * acc) bs 0
      in if n \<ge> 2 ^ 63 then n - 2 ^ 64 else n)"

definition initial_priorities :: "crypto \<Rightarrow> u8 list \<Rightarrow> int \<Rightarrow> nat \<Rightarrow> int list" where
  "initial_priorities c seed total_weight n =
     (if seed = [] then replicate n 0
      else map (\<lambda>i. rust_rem (i64_from_le_bytes (take 8 (hash_bytes (hash_data c (seed @ u64_to_le_bytes i)))))
                     (total_weight div 2 + 1)) [0..<n])"

fun argmax_loop :: "nat \<Rightarrow> nat \<Rightarrow> int \<Rightarrow> int list \<Rightarrow> nat" where
  "argmax_loop i best best_priority [] = best"
| "argmax_loop i best best_priority (p # ps) =
     (if p > best_priority then argmax_loop (Suc i) i p ps
      else argmax_loop (Suc i) best best_priority ps)"

definition argmax :: "int list \<Rightarrow> nat" where
  "argmax ps = argmax_loop 1 0 (hd ps) (tl ps)"

fun leader_rounds :: "nat \<Rightarrow> int list \<Rightarrow> int \<Rightarrow> int list \<Rightarrow> nat \<Rightarrow> nat" where
  "leader_rounds 0 weights total_weight priorities proposer_idx = proposer_idx"
| "leader_rounds (Suc n) weights total_weight priorities proposer_idx =
     (let ps = map2 (+) priorities weights;
          idx = argmax ps
      in leader_rounds n weights total_weight (ps[idx := ps ! idx - total_weight]) idx)"

definition select_leader_weighted ::
  "crypto \<Rightarrow> validator_set \<Rightarrow> u64 \<Rightarrow> stake_pool \<Rightarrow> u8 list \<Rightarrow> u64 \<Rightarrow> pubkey option" where
  "select_leader_weighted c vs slot pool randomness_seed min_validator_stake =
     (if vs_validators vs = [] then None
      else
        let eligible = filter (leader_eligible pool min_validator_stake) (vs_sorted_validators vs);
            n = length eligible
        in if eligible = [] then None
           else if n = 1 then Some (vi_pubkey (eligible ! 0))
           else
             let weights = map (leader_weight pool) eligible;
                 total_weight = sum_list weights
             in if total_weight = 0 then vs_select_leader vs slot
                else
                  let epoch_len = wrapping_mul64 n 4;
                      effective_rounds = slot mod max epoch_len 1
                  in Some (vi_pubkey (eligible !
                       leader_rounds (Suc effective_rounds) weights total_weight
                         (initial_priorities c randomness_seed total_weight n) 0)))"

section \<open>Voting power\<close>

definition eligible_validator_stake :: "pubkey \<Rightarrow> validator_set \<Rightarrow> stake_pool \<Rightarrow> u64 \<Rightarrow> u64 option" where
  "eligible_validator_stake validator vs pool min_validator_stake =
     (case vs_get_validator vs validator of
        None \<Rightarrow> None
      | Some info \<Rightarrow>
          if vi_pending_activation info then None
          else if sp_staking_v2_state pool \<noteq> None then sp_staking_v2_consensus_power pool validator
          else case sp_get_stake pool validator of
              None \<Rightarrow> None
            | Some s \<Rightarrow> if si_total_stake s < min_validator_stake then None else Some (si_total_stake s))"

definition total_eligible_validator_stake :: "validator_set \<Rightarrow> stake_pool \<Rightarrow> u64 \<Rightarrow> u128" where
  "total_eligible_validator_stake vs pool min_validator_stake =
     sum_list (List.map_filter (\<lambda>v. eligible_validator_stake (vi_pubkey v) vs pool min_validator_stake)
       (vs_validators vs))"

section \<open>Properties\<close>

lemma am_gm_nat: "4 * (a * b) \<le> (a + b) ^ 2" for a b :: nat
proof -
  have "int (4 * (a * b)) \<le> int ((a + b) ^ 2)"
    using zero_le_power2 [of "int a - int b"] by (simp add: power2_eq_square algebra_simps)
  then show ?thesis by (simp only: of_nat_le_iff)
qed

lemma newton_step_above:
  fixes v x :: nat
  assumes "0 < x"
  shows "v < ((x + v div x) div 2 + 1) ^ 2"
proof -
  let ?q = "v div x" and ?y = "(x + v div x) div 2"
  have v: "v < x * (?q + 1)" using assms dividend_less_div_times [of x v] by (simp add: algebra_simps)
  have "s + 1 \<le> 2 * (s div 2 + 1)" for s :: nat by presburger
  from this [of "x + ?q"] have "x + (?q + 1) \<le> 2 * (?y + 1)" by simp
  then have "(x + (?q + 1)) ^ 2 \<le> (2 * (?y + 1)) ^ 2" by (rule power_mono) simp
  moreover have "4 * (x * (?q + 1)) \<le> (x + (?q + 1)) ^ 2" by (rule am_gm_nat)
  ultimately have "4 * v < (2 * (?y + 1)) ^ 2" using v by linarith
  also have "(2 * (?y + 1)) ^ 2 = 4 * (?y + 1) ^ 2" by (simp only: power_mult_distrib) simp
  finally have "4 * v < 4 * (?y + 1) ^ 2" .
  then show ?thesis by simp
qed

lemma isqrt_loop_correct:
  assumes "0 < x" "0 < v" "v < (x + 1) ^ 2" "y = (x + v div x) div 2"
  shows "(isqrt_loop v x y) ^ 2 \<le> v \<and> v < (isqrt_loop v x y + 1) ^ 2"
  using assms
proof (induction v x y rule: isqrt_loop.induct)
  case (1 v x y)
  show ?case
  proof (cases "y < x")
    case True
    have above: "v < (y + 1) ^ 2" using newton_step_above [OF "1.prems"(1), of v] "1.prems"(4) by simp
    have "0 < y"
    proof (rule ccontr)
      assume "\<not> 0 < y"
      with above "1.prems"(2) have "v = 0" by simp
      with "1.prems"(2) show False by simp
    qed
    with True above "1.IH" "1.prems"(2) show ?thesis by (simp add: isqrt_loop.simps [of v x y])
  next
    case False
    then have "x \<le> v div x" using "1.prems"(4) by linarith
    then have "x * x \<le> v" using "1.prems"(1) by (simp add: less_eq_div_iff_mult_less_eq)
    with False "1.prems"(3) show ?thesis by (simp add: isqrt_loop.simps [of v x y] power2_eq_square)
  qed
qed

text \<open>
  C39: \<open>integer_sqrt\<close> terminates and returns the integer square root for every \<open>u64\<close>:
  \<open>r * r <= value < (r + 1) * (r + 1)\<close>.
\<close>

theorem integer_sqrt_correct:
  "integer_sqrt v * integer_sqrt v \<le> v \<and> v < (integer_sqrt v + 1) * (integer_sqrt v + 1)"
proof (cases "v = 0")
  case False
  have "div_ceil v 2 = (v + v div v) div 2" using False by (simp add: div_ceil_def)
  moreover have "v < (v + 1) ^ 2" by (simp add: power2_eq_square)
  ultimately show ?thesis
    using isqrt_loop_correct [of v v "div_ceil v 2"] False
    by (simp add: integer_sqrt_def power2_eq_square)
qed (simp add: integer_sqrt_def)

text \<open>Weighted round-robin: the winner is a valid index and the priorities keep their sum.\<close>

lemma argmax_loop_bound: "best < i \<Longrightarrow> argmax_loop i best p ps < i + length ps"
proof (induction ps arbitrary: i best p)
  case (Cons q ps)
  from Cons.IH [of i "Suc i" q] Cons.IH [of best "Suc i" p] Cons.prems show ?case by auto
qed simp

lemma argmax_bound: "ps \<noteq> [] \<Longrightarrow> argmax ps < length ps"
  using argmax_loop_bound [of 0 1 "hd ps" "tl ps"] by (cases ps) (auto simp: argmax_def)

lemma argmax_loop_max:
  assumes "best < i" "i + length ps = length qs" "drop i qs = ps" "qs ! best = m" "\<forall>j < i. qs ! j \<le> m"
  shows "\<forall>j < length qs. qs ! j \<le> qs ! argmax_loop i best m ps"
  using assms
proof (induction ps arbitrary: i best m)
  case (Cons p ps)
  have p: "qs ! i = p" "drop (Suc i) qs = ps"
    using Cons.prems(2,3) by (metis nth_via_drop, metis drop_Suc list.sel(3) tl_drop)
  show ?case
  proof (cases "p > m")
    case True
    with Cons.prems p have "\<forall>j < Suc i. qs ! j \<le> p" by (auto simp: less_Suc_eq)
    with Cons.IH [of i "Suc i" p] Cons.prems p True show ?thesis by simp
  next
    case False
    with Cons.prems p have "\<forall>j < Suc i. qs ! j \<le> m" by (auto simp: less_Suc_eq)
    with Cons.IH [of best "Suc i" m] Cons.prems p False show ?thesis by simp
  qed
qed auto

lemma argmax_max: "ps \<noteq> [] \<Longrightarrow> j < length ps \<Longrightarrow> ps ! j \<le> ps ! argmax ps"
  using argmax_loop_max [of 0 1 "tl ps" ps "hd ps"] by (cases ps) (auto simp: argmax_def)

lemma leader_rounds_bound:
  "length ps = length ws \<Longrightarrow> ws \<noteq> [] \<Longrightarrow> 0 < n \<or> idx < length ws \<Longrightarrow>
     leader_rounds n ws t ps idx < length ws"
proof (induction n arbitrary: ps idx)
  case (Suc n)
  have "map2 (+) ps ws \<noteq> []" using Suc.prems(1,2) by (cases ps; cases ws) auto
  from argmax_bound [OF this] Suc show ?case by (simp add: Let_def)
qed simp

lemma sum_list_map2_add:
  "length ps = length ws \<Longrightarrow> sum_list (map2 (+) ps ws) = sum_list ps + (sum_list ws :: int)"
  by (induction ps ws rule: list_induct2) auto

lemma sum_list_update_int: "i < length (xs :: int list) \<Longrightarrow> sum_list (xs[i := x]) = sum_list xs + x - xs ! i"
  by (induction xs arbitrary: i) (auto split: nat.splits)

lemma leader_round_conserves:
  assumes "length ps = length ws" "ws \<noteq> []"
  defines "qs \<equiv> map2 (+) ps ws"
  shows "sum_list (qs[argmax qs := qs ! argmax qs - sum_list ws]) = sum_list ps"
proof -
  have "qs \<noteq> []" using assms(1,2) unfolding qs_def by (cases ps; cases ws) auto
  from argmax_bound [OF this] show ?thesis
    by (simp add: sum_list_update_int) (simp add: qs_def sum_list_map2_add assms(1))
qed

lemma length_initial_priorities: "length (initial_priorities c seed t n) = n"
  by (simp add: initial_priorities_def)

lemma leader_weight_pos:
  "(\<And>w. sp_staking_v2_leader_weight pool (vi_pubkey v) = Some w \<Longrightarrow> 0 < w) \<Longrightarrow> 0 < leader_weight pool v"
  by (auto simp: leader_weight_def Let_def split: option.splits)

lemma sum_list_pos: "xs \<noteq> [] \<Longrightarrow> (\<And>x. x \<in> set xs \<Longrightarrow> 0 < x) \<Longrightarrow> 0 < sum_list (xs :: int list)"
  by (induction xs) (auto intro: add_pos_nonneg sum_list_nonneg order.strict_implies_order)

lemma set_sorted_validators [simp]: "set (vs_sorted_validators vs) = set (vs_validators vs)"
  by (simp add: vs_sorted_validators_def)

text \<open>
  C38: a selected leader is always an eligible validator of the set: it is not pending
  activation and either carries an epoch leader weight (Staking V2) or has at least the
  minimum stake. And a leader exists whenever an eligible validator does, so the chain has a
  proposer in every slot. The hypothesis is the part of the V2 state check that makes epoch
  leader weights positive.
\<close>

theorem leader_is_eligible:
  assumes "\<And>v w. sp_staking_v2_leader_weight pool v = Some w \<Longrightarrow> 0 < w"
  shows "(\<forall>l. select_leader_weighted c vs slot pool seed m = Some l \<longrightarrow>
      (\<exists>v. v \<in> set (vs_validators vs) \<and> vi_pubkey v = l \<and> leader_eligible pool m v)) \<and>
    (select_leader_weighted c vs slot pool seed m = None \<longleftrightarrow>
      (\<forall>v. v \<in> set (vs_validators vs) \<longrightarrow> \<not> leader_eligible pool m v))"
proof -
  let ?e = "filter (leader_eligible pool m) (vs_sorted_validators vs)"
  let ?w = "map (leader_weight pool) ?e"
  show ?thesis
  proof (cases "?e = []")
    case True
    then have none: "select_leader_weighted c vs slot pool seed m = None"
      by (simp add: select_leader_weighted_def Let_def)
    from True have "\<forall>v. v \<in> set (vs_validators vs) \<longrightarrow> \<not> leader_eligible pool m v"
      by (simp add: filter_empty_conv)
    with none show ?thesis by simp
  next
    case False
    have pos: "0 < sum_list ?w"
      using False assms by (intro sum_list_pos) (auto intro!: leader_weight_pos)
    obtain i where i: "i < length ?e"
      and sel: "select_leader_weighted c vs slot pool seed m = Some (vi_pubkey (?e ! i))"
    proof (cases "length ?e = 1")
      case True
      with False have "select_leader_weighted c vs slot pool seed m = Some (vi_pubkey (?e ! 0))"
        by (auto simp: select_leader_weighted_def Let_def vs_sorted_validators_def)
      with True show thesis by (intro that [of 0]) simp_all
    next
      case n: False
      let ?i = "leader_rounds (Suc (slot mod max (wrapping_mul64 (length ?e) 4) 1)) ?w (sum_list ?w)
          (initial_priorities c seed (sum_list ?w) (length ?e)) 0"
      have "?i < length ?w"
        using False by (intro leader_rounds_bound) (auto simp: length_initial_priorities)
      moreover have "select_leader_weighted c vs slot pool seed m = Some (vi_pubkey (?e ! ?i))"
        using False n pos by (auto simp: select_leader_weighted_def Let_def vs_sorted_validators_def
            simp del: leader_rounds.simps)
      ultimately show thesis by (intro that [of ?i]) simp_all
    qed
    have mem: "?e ! i \<in> set ?e" using i by (rule nth_mem)
    then have "?e ! i \<in> set (vs_validators vs)" "leader_eligible pool m (?e ! i)" by simp_all
    with sel show ?thesis by auto
  qed
qed

text \<open>Validator sets with equal stakes, on which results are evaluated.\<close>

definition demo_set :: "u8 list \<Rightarrow> validator_set" where
  "demo_set ks = \<lparr>vs_validators = map (\<lambda>k. vi_new (demo_pubkey k) 0) ks, vs_frozen_epoch = 0\<rparr>"

definition demo_pool :: "u8 list \<Rightarrow> stake_pool" where
  "demo_pool ks = sp_new\<lparr>
     sp_stakes := map (\<lambda>k. (demo_pubkey k, si_new (demo_pubkey k) BOOTSTRAP_GRANT_AMOUNT 0)) ks,
     sp_total_staked := length ks * BOOTSTRAP_GRANT_AMOUNT\<rparr>"

lemma demo_stake_total: "si_total_stake (si_new v BOOTSTRAP_GRANT_AMOUNT s) = BOOTSTRAP_GRANT_AMOUNT"
  by (simp add: si_total_stake_def si_new_def si_with_bootstrap_index_def Let_def saturating_add_def
      policy_constants u64_max_def)

theorem leader_is_eligible_witness:
  "\<exists>l. select_leader_weighted demo_crypto (demo_set [1, 2, 3]) 5 (demo_pool [1, 2, 3]) [7] MIN_VALIDATOR_STAKE
     = Some l"
proof -
  have v2: "sp_staking_v2_leader_weight (demo_pool [1, 2, 3]) v = None" for v
    by (simp add: sp_staking_v2_leader_weight_def demo_pool_def sp_new_def)
  have "leader_eligible (demo_pool [1, 2, 3]) MIN_VALIDATOR_STAKE (vi_new (demo_pubkey 1) 0)"
    by (simp add: leader_eligible_def demo_pool_def sp_new_def vi_new_def demo_stake_total)
      (simp add: policy_constants)
  then have "\<not> (\<forall>v. v \<in> set (vs_validators (demo_set [1, 2, 3])) \<longrightarrow>
      \<not> leader_eligible (demo_pool [1, 2, 3]) MIN_VALIDATOR_STAKE v)"
    by (auto simp: demo_set_def)
  with leader_is_eligible [of "demo_pool [1, 2, 3]" demo_crypto "demo_set [1, 2, 3]" 5 "[7]" MIN_VALIDATOR_STAKE] v2
  have "select_leader_weighted demo_crypto (demo_set [1, 2, 3]) 5 (demo_pool [1, 2, 3]) [7] MIN_VALIDATOR_STAKE
      \<noteq> None" by simp
  then show ?thesis by blast
qed

end
