(* ===== verification/Bft_Engine.thy ===== *)
theory Bft_Engine
  imports Bft_Types Validator_Set
begin

text \<open>
  The Tendermint-style consensus engine of \<open>validator/src/consensus.rs\<close>, handler by handler.
  The Rust engine is a pure state machine; each handler is a function from the engine to the
  engine and the action it returns. The arguments every handler takes from outside (the frozen
  validator set and stake pool, the cryptographic primitives and the wall clock, read once per
  handler call) are the record \<open>bft_env\<close>. Voting powers are \<open>u128\<close> sums of at most one \<open>u64\<close>
  per validator, which cannot overflow, and are kept as naturals; rounds are \<open>u32\<close> and
  \<open>round + 1\<close> wraps as in a release build.
\<close>

section \<open>State\<close>

abbreviation DEFAULT_BFT_PROPOSE_TIMEOUT_BASE_MS :: u64 where "DEFAULT_BFT_PROPOSE_TIMEOUT_BASE_MS \<equiv> 800"
abbreviation DEFAULT_BFT_PREVOTE_TIMEOUT_BASE_MS :: u64 where "DEFAULT_BFT_PREVOTE_TIMEOUT_BASE_MS \<equiv> 500"
abbreviation DEFAULT_BFT_PRECOMMIT_TIMEOUT_BASE_MS :: u64 where "DEFAULT_BFT_PRECOMMIT_TIMEOUT_BASE_MS \<equiv> 500"
abbreviation DEFAULT_BFT_MAX_PHASE_TIMEOUT_MS :: u64 where "DEFAULT_BFT_MAX_PHASE_TIMEOUT_MS \<equiv> 5000"
abbreviation FUTURE_MSG_BUFFER_HEIGHTS :: u64 where "FUTURE_MSG_BUFFER_HEIGHTS \<equiv> 10"
abbreviation LEADER_CACHE_MAX_ENTRIES :: nat where "LEADER_CACHE_MAX_ENTRIES \<equiv> 256"

record timeout_config =
  tc_propose_timeout_base_ms :: u64
  tc_prevote_timeout_base_ms :: u64
  tc_precommit_timeout_base_ms :: u64
  tc_max_phase_timeout_ms :: u64

definition timeout_config_default :: timeout_config where
  "timeout_config_default =
     \<lparr>tc_propose_timeout_base_ms = DEFAULT_BFT_PROPOSE_TIMEOUT_BASE_MS,
      tc_prevote_timeout_base_ms = DEFAULT_BFT_PREVOTE_TIMEOUT_BASE_MS,
      tc_precommit_timeout_base_ms = DEFAULT_BFT_PRECOMMIT_TIMEOUT_BASE_MS,
      tc_max_phase_timeout_ms = DEFAULT_BFT_MAX_PHASE_TIMEOUT_MS\<rparr>"

datatype consensus_action =
    NoAction
  | ScheduleTimeout round_step u64
  | BroadcastProposal proposal
  | BroadcastPrevote prevote
  | BroadcastPrecommit precommit
  | CommitBlock u64 u32 block hash
  | RequestBlockRange u64 u64 hash
  | Multiple "consensus_action list"
  | EquivocationDetected u64 u32 pubkey string "hash option" "hash option" slashing_offense

record power_snapshot =
  ps_eligible_power :: "(pubkey, u64) hmap"
  ps_total_eligible_stake :: u128

type_synonym vote_key = "u32 \<times> hash option"

record engine =
  en_keypair :: keypair
  en_validator_pubkey :: pubkey
  en_signing_chain_id :: string
  en_min_validator_stake :: u64
  en_timeouts :: timeout_config
  en_height :: u64
  en_round :: u32
  en_step :: round_step
  en_locked_round :: "u32 option"
  en_locked_value :: "hash option"
  en_valid_round :: "u32 option"
  en_valid_value :: "block option"
  en_proposals :: "(u32, proposal) hmap"
  en_prevotes :: "(vote_key, pubkey list) hmap"
  en_precommits :: "(vote_key, pubkey list) hmap"
  en_prevote_power :: "(vote_key, u128) hmap"
  en_precommit_power :: "(vote_key, u128) hmap"
  en_prevote_any_power :: "(u32, u128) hmap"
  en_precommit_any_power :: "(u32, u128) hmap"
  en_proposal_blocks :: "(hash, block) hmap"
  en_seen_prevotes :: "(u32 \<times> pubkey, hash option) hmap"
  en_seen_prevote_messages :: "(u32 \<times> pubkey, prevote) hmap"
  en_seen_precommits :: "(u32 \<times> pubkey, hash option) hmap"
  en_seen_precommit_messages :: "(u32 \<times> pubkey, precommit) hmap"
  en_precommit_sigs :: "(u32 \<times> pubkey, pq_signature \<times> u64) hmap"
  en_signed_prevote_rounds :: "(u32, hash option) hmap"
  en_signed_precommit_rounds :: "(u32, hash option) hmap"
  en_last_committed_block_timestamp :: "u64 option"
  en_future_prevotes :: "(u64, prevote list) hmap"
  en_future_precommits :: "(u64, precommit list) hmap"
  en_power_snapshot :: "power_snapshot option"
  en_leader_cache :: "(u64 \<times> u8 list, pubkey option) hmap"

record bft_env =
  env_crypto :: crypto
  env_now :: u64
  env_validator_set :: validator_set
  env_stake_pool :: stake_pool

section \<open>Voting power\<close>

text \<open>One iteration of the loop of \<open>ConsensusPowerSnapshot::build\<close>.\<close>

definition snapshot_add :: "stake_pool \<Rightarrow> u64 \<Rightarrow> power_snapshot \<Rightarrow> validator_info \<Rightarrow> power_snapshot" where
  "snapshot_add pool min_validator_stake s v =
     (if vi_pending_activation v then s
      else case sp_get_stake pool (vi_pubkey v) of
          None \<Rightarrow> s
        | Some info \<Rightarrow>
            let stake = si_total_stake info in
            if stake < min_validator_stake then s
            else \<lparr>ps_eligible_power = hm_insert (vi_pubkey v) stake (ps_eligible_power s),
                  ps_total_eligible_stake = saturating_add128 (ps_total_eligible_stake s) stake\<rparr>)"

definition snapshot_build :: "validator_set \<Rightarrow> stake_pool \<Rightarrow> u64 \<Rightarrow> power_snapshot" where
  "snapshot_build vs pool min_validator_stake =
     foldl (snapshot_add pool min_validator_stake)
       \<lparr>ps_eligible_power = [], ps_total_eligible_stake = 0\<rparr> (vs_sorted_validators vs)"

definition eligible_stake :: "bft_env \<Rightarrow> engine \<Rightarrow> pubkey \<Rightarrow> u64 option" where
  "eligible_stake env e validator =
     (case en_power_snapshot e of
        Some s \<Rightarrow> hm_get (ps_eligible_power s) validator
      | None \<Rightarrow>
          (case vs_get_validator (env_validator_set env) validator of
             None \<Rightarrow> None
           | Some info \<Rightarrow>
               if vi_pending_activation info then None
               else case sp_get_stake (env_stake_pool env) validator of
                   None \<Rightarrow> None
                 | Some si \<Rightarrow> if si_total_stake si < en_min_validator_stake e then None
                     else Some (si_total_stake si)))"

definition is_eligible_validator :: "bft_env \<Rightarrow> engine \<Rightarrow> pubkey \<Rightarrow> bool" where
  "is_eligible_validator env e validator \<longleftrightarrow> eligible_stake env e validator \<noteq> None"

definition voter_stake :: "bft_env \<Rightarrow> engine \<Rightarrow> pubkey list \<Rightarrow> u128" where
  "voter_stake env e voters = sum_list (List.map_filter (eligible_stake env e) voters)"

definition total_eligible_stake :: "bft_env \<Rightarrow> engine \<Rightarrow> u128" where
  "total_eligible_stake env e =
     (case en_power_snapshot e of
        Some s \<Rightarrow> ps_total_eligible_stake s
      | None \<Rightarrow> sum_list (List.map_filter (\<lambda>v. eligible_stake env e (vi_pubkey v))
                  (vs_sorted_validators (env_validator_set env))))"

definition has_supermajority_power :: "bft_env \<Rightarrow> engine \<Rightarrow> u128 \<Rightarrow> bool" where
  "has_supermajority_power env e vote_power \<longleftrightarrow>
     total_eligible_stake env e > 0 \<and> vote_power * 3 \<ge> total_eligible_stake env e * 2"

definition has_supermajority_voters :: "bft_env \<Rightarrow> engine \<Rightarrow> pubkey list \<Rightarrow> bool" where
  "has_supermajority_voters env e voters \<longleftrightarrow>
     (let vote_stake = voter_stake env e voters; all_stake = total_eligible_stake env e
      in if all_stake = 0 then False else vote_stake * 3 \<ge> all_stake * 2)"

definition has_polka_for :: "bft_env \<Rightarrow> engine \<Rightarrow> u32 \<Rightarrow> hash option \<Rightarrow> bool" where
  "has_polka_for env e round bh =
     (case hm_get (en_prevotes e) (round, bh) of
        Some voters \<Rightarrow> has_supermajority_voters env e voters
      | None \<Rightarrow> False)"

definition has_any_supermajority ::
  "bft_env \<Rightarrow> engine \<Rightarrow> (u32, u128) hmap \<Rightarrow> (u32 \<times> pubkey, hash option) hmap \<Rightarrow> u32 \<Rightarrow> bool" where
  "has_any_supermajority env e any_power seen round =
     (let all_stake = total_eligible_stake env e in
      if all_stake = 0 then False
      else case hm_get any_power round of
          Some vote_power \<Rightarrow> vote_power * 3 \<ge> all_stake * 2
        | None \<Rightarrow>
            voter_stake env e (map snd (filter (\<lambda>(r, _). r = round) (hm_keys seen))) * 3 \<ge> all_stake * 2)"

definition has_any_supermajority_prevotes :: "bft_env \<Rightarrow> engine \<Rightarrow> u32 \<Rightarrow> bool" where
  "has_any_supermajority_prevotes env e round =
     has_any_supermajority env e (en_prevote_any_power e) (en_seen_prevotes e) round"

definition has_any_supermajority_precommits :: "bft_env \<Rightarrow> engine \<Rightarrow> u32 \<Rightarrow> bool" where
  "has_any_supermajority_precommits env e round =
     has_any_supermajority env e (en_precommit_any_power e) (en_seen_precommits e) round"

definition add_prevote_power :: "u32 \<Rightarrow> hash option \<Rightarrow> u64 \<Rightarrow> engine \<Rightarrow> engine" where
  "add_prevote_power round bh voting_power e =
     e\<lparr>en_prevote_power := hm_add (round, bh) voting_power (en_prevote_power e),
       en_prevote_any_power := hm_add round voting_power (en_prevote_any_power e)\<rparr>"

definition add_precommit_power :: "u32 \<Rightarrow> hash option \<Rightarrow> u64 \<Rightarrow> engine \<Rightarrow> engine" where
  "add_precommit_power round bh voting_power e =
     e\<lparr>en_precommit_power := hm_add (round, bh) voting_power (en_precommit_power e),
       en_precommit_any_power := hm_add round voting_power (en_precommit_any_power e)\<rparr>"

text \<open>
  The power of a bucket: the cached tally, recomputed from the voters when it is missing
  (\<open>prevote_power.get(key).copied().unwrap_or_else(..)\<close>).
\<close>

definition bucket_power ::
  "bft_env \<Rightarrow> engine \<Rightarrow> (vote_key, u128) hmap \<Rightarrow> (vote_key, pubkey list) hmap \<Rightarrow> vote_key \<Rightarrow> u128" where
  "bucket_power env e tally votes key =
     (case hm_get tally key of
        Some p \<Rightarrow> p
      | None \<Rightarrow> (case hm_get votes key of Some voters \<Rightarrow> voter_stake env e voters | None \<Rightarrow> 0))"

abbreviation prevote_bucket_power :: "bft_env \<Rightarrow> engine \<Rightarrow> vote_key \<Rightarrow> u128" where
  "prevote_bucket_power env e \<equiv> bucket_power env e (en_prevote_power e) (en_prevotes e)"

abbreviation precommit_bucket_power :: "bft_env \<Rightarrow> engine \<Rightarrow> vote_key \<Rightarrow> u128" where
  "precommit_bucket_power env e \<equiv> bucket_power env e (en_precommit_power e) (en_precommits e)"

text \<open>The first bucket of a round, in iteration order, that is for a block and has a quorum.\<close>

definition find_quorum_hash ::
  "bft_env \<Rightarrow> engine \<Rightarrow> (vote_key, u128) hmap \<Rightarrow> (vote_key, pubkey list) hmap \<Rightarrow> u32 \<Rightarrow> hash option" where
  "find_quorum_hash env e tally votes round =
     (case List.find (\<lambda>key. fst key = round \<and> snd key \<noteq> None \<and>
             has_supermajority_power env e (bucket_power env e tally votes key)) (hm_keys votes) of
        Some key \<Rightarrow> snd key
      | None \<Rightarrow> None)"

section \<open>Timeouts\<close>

fun timeout_loop :: "nat \<Rightarrow> u64 \<Rightarrow> u64 \<Rightarrow> u64" where
  "timeout_loop 0 timeout max_timeout_ms = timeout"
| "timeout_loop (Suc n) timeout max_timeout_ms =
     timeout_loop n (min (wrapping_mul64 timeout 3 div 2) max_timeout_ms) max_timeout_ms"

definition exponential_timeout :: "u64 \<Rightarrow> u32 \<Rightarrow> u64 \<Rightarrow> u64" where
  "exponential_timeout base_ms round max_timeout_ms =
     min (timeout_loop (min round 20) base_ms max_timeout_ms) max_timeout_ms"

definition propose_timeout :: "engine \<Rightarrow> u64" where
  "propose_timeout e = exponential_timeout (tc_propose_timeout_base_ms (en_timeouts e)) (en_round e)
     (tc_max_phase_timeout_ms (en_timeouts e))"

definition prevote_timeout :: "engine \<Rightarrow> u64" where
  "prevote_timeout e = exponential_timeout (tc_prevote_timeout_base_ms (en_timeouts e)) (en_round e)
     (tc_max_phase_timeout_ms (en_timeouts e))"

definition precommit_timeout :: "engine \<Rightarrow> u64" where
  "precommit_timeout e = exponential_timeout (tc_precommit_timeout_base_ms (en_timeouts e)) (en_round e)
     (tc_max_phase_timeout_ms (en_timeouts e))"

section \<open>Construction and rounds\<close>

definition engine_new :: "keypair \<Rightarrow> pubkey \<Rightarrow> string \<Rightarrow> u64 \<Rightarrow> timeout_config \<Rightarrow> engine" where
  "engine_new kp pk chain_id min_stake timeouts =
     \<lparr>en_keypair = kp, en_validator_pubkey = pk, en_signing_chain_id = chain_id,
      en_min_validator_stake = min_stake, en_timeouts = timeouts,
      en_height = 0, en_round = 0, en_step = Commit,
      en_locked_round = None, en_locked_value = None, en_valid_round = None, en_valid_value = None,
      en_proposals = [], en_prevotes = [], en_precommits = [], en_prevote_power = [],
      en_precommit_power = [], en_prevote_any_power = [], en_precommit_any_power = [],
      en_proposal_blocks = [], en_seen_prevotes = [], en_seen_prevote_messages = [],
      en_seen_precommits = [], en_seen_precommit_messages = [], en_precommit_sigs = [],
      en_signed_prevote_rounds = [], en_signed_precommit_rounds = [],
      en_last_committed_block_timestamp = None, en_future_prevotes = [], en_future_precommits = [],
      en_power_snapshot = None, en_leader_cache = []\<rparr>"

definition start_height :: "u64 \<Rightarrow> engine \<Rightarrow> engine" where
  "start_height height e =
     e\<lparr>en_height := height, en_round := 0, en_step := Propose,
       en_locked_round := None, en_locked_value := None, en_valid_round := None, en_valid_value := None,
       en_proposals := [], en_prevotes := [], en_precommits := [], en_prevote_power := [],
       en_precommit_power := [], en_prevote_any_power := [], en_precommit_any_power := [],
       en_proposal_blocks := [], en_seen_prevotes := [], en_seen_prevote_messages := [],
       en_seen_precommits := [], en_seen_precommit_messages := [], en_precommit_sigs := [],
       en_signed_prevote_rounds := [], en_signed_precommit_rounds := [],
       en_power_snapshot := None, en_leader_cache := [],
       en_future_prevotes := hm_retain (\<lambda>h. h \<ge> height) (en_future_prevotes e),
       en_future_precommits := hm_retain (\<lambda>h. h \<ge> height) (en_future_precommits e)\<rparr>"

definition tally_votes :: "power_snapshot \<Rightarrow> (vote_key, pubkey list) hmap \<Rightarrow> (vote_key, u128) hmap" where
  "tally_votes s votes =
     foldl (\<lambda>m (key, voters). hm_insert key (sum_list (List.map_filter (hm_get (ps_eligible_power s)) voters)) m)
       [] votes"

definition tally_seen ::
  "power_snapshot \<Rightarrow> (u32 \<times> pubkey, hash option) hmap \<Rightarrow> (u32, u128) hmap" where
  "tally_seen s seen =
     foldl (\<lambda>m (round, pk). case hm_get (ps_eligible_power s) pk of
         Some p \<Rightarrow> hm_add round p m | None \<Rightarrow> m) [] (hm_keys seen)"

definition rebuild_vote_power_tallies :: "engine \<Rightarrow> engine" where
  "rebuild_vote_power_tallies e =
     (let e = e\<lparr>en_prevote_power := [], en_precommit_power := [], en_prevote_any_power := [],
                en_precommit_any_power := []\<rparr>
      in case en_power_snapshot e of
           None \<Rightarrow> e
         | Some s \<Rightarrow>
             e\<lparr>en_prevote_power := tally_votes s (en_prevotes e),
               en_prevote_any_power := tally_seen s (en_seen_prevotes e),
               en_precommit_power := tally_votes s (en_precommits e),
               en_precommit_any_power := tally_seen s (en_seen_precommits e)\<rparr>)"

definition rebuild_power_snapshot :: "bft_env \<Rightarrow> engine \<Rightarrow> engine" where
  "rebuild_power_snapshot env e =
     rebuild_vote_power_tallies (e\<lparr>en_leader_cache := [],
       en_power_snapshot := Some (snapshot_build (env_validator_set env) (env_stake_pool env)
         (en_min_validator_stake e))\<rparr>)"

definition leader_selection_slot :: "u64 \<Rightarrow> u32 \<Rightarrow> u64" where
  "leader_selection_slot height round = saturating_add height round"

definition expected_leader_cached :: "bft_env \<Rightarrow> u64 \<Rightarrow> hash \<Rightarrow> engine \<Rightarrow> engine \<times> pubkey option" where
  "expected_leader_cached env leader_slot parent_hash e =
     (let key = (leader_slot, hash_bytes parent_hash) in
      case hm_get (en_leader_cache e) key of
        Some leader \<Rightarrow> (e, leader)
      | None \<Rightarrow>
          let leader = select_leader_weighted (env_crypto env) (env_validator_set env) leader_slot
                (env_stake_pool env) (hash_bytes parent_hash) (en_min_validator_stake e);
              cache = (if length (en_leader_cache e) \<ge> LEADER_CACHE_MAX_ENTRIES then [] else en_leader_cache e)
          in (e\<lparr>en_leader_cache := hm_insert key leader cache\<rparr>, leader))"

definition start_round :: "u32 \<Rightarrow> engine \<Rightarrow> engine \<times> consensus_action" where
  "start_round round e =
     (let e = e\<lparr>en_round := round, en_step := Propose\<rparr>
      in (e, ScheduleTimeout Propose (propose_timeout e)))"

definition resume_at_round_if_higher :: "u32 \<Rightarrow> engine \<Rightarrow> engine" where
  "resume_at_round_if_higher target_round e =
     (if target_round \<le> en_round e then e else e\<lparr>en_round := target_round, en_step := Propose\<rparr>)"

definition resume_after_recovered_round :: "u32 \<Rightarrow> engine \<Rightarrow> engine" where
  "resume_after_recovered_round recovered_round e =
     resume_at_round_if_higher (saturating_add32 recovered_round 1) e"

definition valid_transition :: "round_step \<Rightarrow> round_step \<Rightarrow> bool" where
  "valid_transition old new \<longleftrightarrow>
     (old, new) \<in> {(Propose, Prevote), (Prevote, Precommit), (Precommit, Commit), (Propose, Commit),
       (Prevote, Commit), (Prevote, Prevote), (Precommit, Precommit)}"

definition transition_to :: "round_step \<Rightarrow> engine \<Rightarrow> engine" where
  "transition_to new_step e = (if valid_transition (en_step e) new_step then e\<lparr>en_step := new_step\<rparr> else e)"

end
