(* ===== verification/Bft_Handlers.thy ===== *)
theory Bft_Handlers
  imports Bft_Engine
begin

text \<open>
  The message, timeout and recovery handlers of the consensus engine
  (\<open>validator/src/consensus.rs\<close>), each translated whole, in the order in which they call each
  other: precommit, prevote, proposals, round skip, incoming votes, buffered votes, timeouts,
  and restoration from the write-ahead log.
\<close>

section \<open>Signing votes\<close>

definition collect_commit_signatures :: "bft_env \<Rightarrow> engine \<Rightarrow> u32 \<Rightarrow> hash \<Rightarrow> commit_signature list" where
  "collect_commit_signatures env e round bh =
     (case hm_get (en_precommits e) (round, Some bh) of
        None \<Rightarrow> []
      | Some voters \<Rightarrow>
          List.map_filter (\<lambda>pk. map_option
              (\<lambda>(sig, ts). \<lparr>cs_validator = pk, cs_signature = sig, cs_timestamp = ts\<rparr>)
              (hm_get (en_precommit_sigs e) (round, pk)))
            (filter (is_eligible_validator env e) voters))"

definition committed_block :: "bft_env \<Rightarrow> engine \<Rightarrow> u32 \<Rightarrow> hash \<Rightarrow> block \<Rightarrow> block" where
  "committed_block env e round bh blk =
     blk\<lparr>blk_commit_round := round, blk_commit_signatures := collect_commit_signatures env e round bh\<rparr>"

text \<open>The own precommit, signed and recorded; \<open>do_precommit\<close> then looks for a commit.\<close>

definition make_precommit :: "bft_env \<Rightarrow> hash option \<Rightarrow> engine \<Rightarrow> precommit" where
  "make_precommit env bh e =
     \<lparr>pc_height = en_height e, pc_round = en_round e, pc_block_hash = bh,
      pc_validator = en_validator_pubkey e,
      pc_signature = keypair_sign (env_crypto env) (en_keypair e)
        (precommit_signing_bytes_for_chain_id (en_signing_chain_id e) (en_height e) (en_round e) bh (env_now env)),
      pc_timestamp = env_now env\<rparr>"

definition record_own_precommit :: "bft_env \<Rightarrow> hash option \<Rightarrow> engine \<Rightarrow> engine" where
  "record_own_precommit env bh e =
     (let pc = make_precommit env bh e;
          round = en_round e; me = en_validator_pubkey e;
          e = e\<lparr>en_signed_precommit_rounds := hm_insert round bh (en_signed_precommit_rounds e),
                en_seen_precommits := hm_insert (round, me) bh (en_seen_precommits e),
                en_seen_precommit_messages := hm_insert (round, me) pc (en_seen_precommit_messages e),
                en_precommits := hm_push (round, bh) me (en_precommits e),
                en_precommit_sigs := hm_insert (round, me) (pc_signature pc, env_now env) (en_precommit_sigs e)\<rparr>
      in case eligible_stake env e me of
           Some voter_power \<Rightarrow> add_precommit_power round bh voter_power e
         | None \<Rightarrow> e)"

definition do_precommit :: "bft_env \<Rightarrow> hash option \<Rightarrow> engine \<Rightarrow> engine \<times> consensus_action" where
  "do_precommit env block_hash_opt e =
     (if hm_contains (en_signed_precommit_rounds e) (en_round e) then (e, NoAction)
      else
        let broadcast = BroadcastPrecommit (make_precommit env block_hash_opt e);
            e = record_own_precommit env block_hash_opt e;
            round = en_round e
        in case block_hash_opt of
             Some bh \<Rightarrow>
               (let has_commit = has_supermajority_power env e (precommit_bucket_power env e (round, Some bh));
                    block_clone = (if has_commit then hm_get (en_proposal_blocks e) bh else None)
                in case block_clone of
                     Some blk \<Rightarrow>
                       (let e = transition_to Commit e
                        in (e, Multiple [broadcast,
                              CommitBlock (en_height e) round (committed_block env e round bh blk) bh]))
                   | None \<Rightarrow> (e, broadcast))
           | None \<Rightarrow>
               if has_supermajority_power env e (precommit_bucket_power env e (round, None))
               then (case start_round (wrapping_add32 round 1) e of (e, advance) \<Rightarrow>
                       (e, Multiple [broadcast, advance]))
               else (e, broadcast))"

text \<open>Locking on a polka: valid value, lock, and the move to the precommit step.\<close>

definition lock_on :: "hash \<Rightarrow> u32 \<Rightarrow> engine \<Rightarrow> engine" where
  "lock_on bh round e =
     (let e = e\<lparr>en_valid_round := Some round\<rparr>;
          e = (case hm_get (en_proposal_blocks e) bh of
                 Some blk \<Rightarrow> e\<lparr>en_valid_value := Some blk\<rparr> | None \<Rightarrow> e)
      in transition_to Precommit (e\<lparr>en_locked_round := Some round, en_locked_value := Some bh\<rparr>))"

definition make_prevote :: "bft_env \<Rightarrow> hash option \<Rightarrow> engine \<Rightarrow> prevote" where
  "make_prevote env bh e =
     \<lparr>pv_height = en_height e, pv_round = en_round e, pv_block_hash = bh,
      pv_validator = en_validator_pubkey e,
      pv_signature = keypair_sign (env_crypto env) (en_keypair e)
        (prevote_signing_bytes_for_chain_id (en_signing_chain_id e) (en_height e) (en_round e) bh)\<rparr>"

definition record_own_prevote :: "bft_env \<Rightarrow> hash option \<Rightarrow> engine \<Rightarrow> engine" where
  "record_own_prevote env bh e =
     (let pv = make_prevote env bh e;
          round = en_round e; me = en_validator_pubkey e;
          e = e\<lparr>en_signed_prevote_rounds := hm_insert round bh (en_signed_prevote_rounds e),
                en_seen_prevotes := hm_insert (round, me) bh (en_seen_prevotes e),
                en_seen_prevote_messages := hm_insert (round, me) pv (en_seen_prevote_messages e),
                en_prevotes := hm_push (round, bh) me (en_prevotes e)\<rparr>
      in case eligible_stake env e me of
           Some voter_power \<Rightarrow> add_prevote_power round bh voter_power e
         | None \<Rightarrow> e)"

definition do_prevote :: "bft_env \<Rightarrow> hash option \<Rightarrow> engine \<Rightarrow> engine \<times> consensus_action" where
  "do_prevote env block_hash_opt e =
     (if hm_contains (en_signed_prevote_rounds e) (en_round e) then (e, NoAction)
      else
        let e = transition_to Prevote e;
            broadcast = BroadcastPrevote (make_prevote env block_hash_opt e);
            e = record_own_prevote env block_hash_opt e;
            round = en_round e
        in if has_supermajority_power env e (prevote_bucket_power env e (round, block_hash_opt))
           then (let e = (case block_hash_opt of
                       Some bh \<Rightarrow> lock_on bh round e
                     | None \<Rightarrow> transition_to Precommit e)
                 in case do_precommit env block_hash_opt e of (e, precommit_action) \<Rightarrow>
                      (e, Multiple [broadcast, precommit_action]))
           else (e, broadcast))"

section \<open>Proposals\<close>

definition should_prevote_proposal_block :: "bft_env \<Rightarrow> engine \<Rightarrow> proposal \<Rightarrow> hash \<Rightarrow> bool" where
  "should_prevote_proposal_block env e p bh =
     (if en_locked_round e = None \<or> en_locked_value e = Some bh then True
      else if prop_valid_round p \<ge> 0 then
        (let vr = i32_as_u32 (prop_valid_round p) in
         case en_locked_round e of
           Some lr \<Rightarrow> vr > lr \<and> has_polka_for env e vr (Some bh)
         | None \<Rightarrow> has_polka_for env e vr (Some bh))
      else False)"

definition prevote_for_current_round_proposal ::
  "bft_env \<Rightarrow> proposal \<Rightarrow> engine \<Rightarrow> engine \<times> consensus_action" where
  "prevote_for_current_round_proposal env p e =
     (if prop_height p \<noteq> en_height e \<or> prop_round p \<noteq> en_round e \<or> en_step e \<noteq> Propose then (e, NoAction)
      else
        let bh = block_hash (env_crypto env) (prop_block p)
        in if should_prevote_proposal_block env e p bh then do_prevote env (Some bh) e
           else do_prevote env None e)"

definition process_current_round_proposal_if_present :: "bft_env \<Rightarrow> engine \<Rightarrow> engine \<times> consensus_action" where
  "process_current_round_proposal_if_present env e =
     (if en_step e \<noteq> Propose then (e, NoAction)
      else case hm_get (en_proposals e) (en_round e) of
          None \<Rightarrow> (e, NoAction)
        | Some p \<Rightarrow> prevote_for_current_round_proposal env p e)"

text \<open>The value to propose: the locked block, else the valid one, else the fresh one.\<close>

definition proposal_value :: "bft_env \<Rightarrow> block \<Rightarrow> engine \<Rightarrow> (block \<times> int) option" where
  "proposal_value env fresh_block e =
     (case en_locked_value e of
        Some locked_hash \<Rightarrow>
          (case (case en_valid_value e of
                   Some vb \<Rightarrow> if block_hash (env_crypto env) vb = locked_hash then Some vb
                     else hm_get (en_proposal_blocks e) locked_hash
                 | None \<Rightarrow> hm_get (en_proposal_blocks e) locked_hash) of
             None \<Rightarrow> None
           | Some blk \<Rightarrow> Some (blk, case en_locked_round e of Some r \<Rightarrow> u32_as_i32 r | None \<Rightarrow> - 1))
      | None \<Rightarrow>
          (case en_valid_value e of
             Some vb \<Rightarrow> Some (vb, case en_valid_round e of Some r \<Rightarrow> u32_as_i32 r | None \<Rightarrow> - 1)
           | None \<Rightarrow> Some (fresh_block, - 1)))"

definition create_proposal :: "bft_env \<Rightarrow> block \<Rightarrow> engine \<Rightarrow> engine \<times> consensus_action" where
  "create_proposal env fresh_block e =
     (if en_step e \<noteq> Propose then (e, NoAction)
      else case proposal_value env fresh_block e of
          None \<Rightarrow> (e, ScheduleTimeout Propose (propose_timeout e))
        | Some (blk, valid_round) \<Rightarrow>
            let bh = block_hash (env_crypto env) blk;
                p = \<lparr>prop_height = en_height e, prop_round = en_round e, prop_block = blk,
                     prop_valid_round = valid_round, prop_proposer = en_validator_pubkey e,
                     prop_signature = keypair_sign (env_crypto env) (en_keypair e)
                       (proposal_signing_bytes_static_for_chain_id (en_signing_chain_id e) (en_height e)
                          (en_round e) bh valid_round)\<rparr>;
                e = e\<lparr>en_proposal_blocks := hm_insert bh blk (en_proposal_blocks e),
                      en_proposals := hm_insert (en_round e) p (en_proposals e)\<rparr>
            in case do_prevote env (Some bh) e of (e, prevote_action) \<Rightarrow>
                 (e, Multiple [BroadcastProposal p, prevote_action]))"

definition on_proposal :: "bft_env \<Rightarrow> proposal \<Rightarrow> engine \<Rightarrow> engine \<times> consensus_action" where
  "on_proposal env p e =
     (if prop_height p > en_height e then (e, NoAction)
      else if prop_height p < en_height e then (e, NoAction)
      else if prop_round p < en_round e then (e, NoAction)
      else if \<not> proposal_verify_signature_with_chain_id (env_crypto env) (en_signing_chain_id e) p
      then (e, NoAction)
      else
        case expected_leader_cached env (leader_selection_slot (en_height e) (prop_round p))
               (hdr_parent_hash (blk_header (prop_block p))) e of
          (e, expected_leader) \<Rightarrow>
            if expected_leader \<noteq> Some (prop_proposer p) then (e, NoAction)
            else if \<not> block_verify_signature_with_chain_id (env_crypto env) (en_signing_chain_id e) (prop_block p)
            then (e, NoAction)
            else
              let proposed_ts = hdr_timestamp (blk_header (prop_block p)) in
              if (case en_last_committed_block_timestamp e of
                    Some parent_ts \<Rightarrow> proposed_ts < parent_ts | None \<Rightarrow> False)
              then (e, NoAction)
              else if proposed_ts > wrapping_add64 (env_now env) 30 then (e, NoAction)
              else
                let bh = block_hash (env_crypto env) (prop_block p);
                    e = e\<lparr>en_proposal_blocks := hm_insert bh (prop_block p) (en_proposal_blocks e),
                          en_proposals := hm_insert (prop_round p) p (en_proposals e)\<rparr>
                in if prop_round p > en_round e then (e, NoAction)
                   else if en_step e \<noteq> Propose then (e, NoAction)
                   else prevote_for_current_round_proposal env p e)"

section \<open>Round skip\<close>

text \<open>
  The catch-up loop \<open>for _ in 0..100\<close>: the first argument counts the iterations left. It
  returns the actions pushed.
\<close>

fun catch_up :: "nat \<Rightarrow> bft_env \<Rightarrow> engine \<Rightarrow> engine \<times> consensus_action list" where
  "catch_up 0 env e = (e, [])"
| "catch_up (Suc n) env e =
     (let round = en_round e in
      case hm_get (en_proposals e) round of
        Some p \<Rightarrow> (case prevote_for_current_round_proposal env p e of (e, a) \<Rightarrow> (e, [a]))
      | None \<Rightarrow>
          (case do_prevote env None e of (e, a) \<Rightarrow>
             if en_round e > round
             then (case catch_up n env e of (e, as) \<Rightarrow> (e, a # as))
             else (e, [a])))"

definition future_vote_keys :: "engine \<Rightarrow> (u32 \<times> pubkey) list" where
  "future_vote_keys e =
     filter (\<lambda>(r, _). r > en_round e) (hm_keys (en_seen_prevotes e) @ hm_keys (en_seen_precommits e))"

definition check_round_skip :: "bft_env \<Rightarrow> engine \<Rightarrow> engine \<times> consensus_action" where
  "check_round_skip env e =
     (let all_stake = total_eligible_stake env e in
      if all_stake = 0 then (e, NoAction)
      else
        let future = future_vote_keys e;
            future_voters = remdups (map snd future);
            max_round = foldl max (en_round e) (map fst future)
        in if max_round = en_round e then (e, NoAction)
           else if voter_stake env e future_voters * 3 > all_stake then
             (case start_round max_round e of (e, skip_action) \<Rightarrow>
               (case catch_up 100 env e of (e, as) \<Rightarrow>
                 (e, (case as of [] \<Rightarrow> skip_action | _ \<Rightarrow> Multiple (skip_action # as)))))
           else (e, NoAction))"

text \<open>The end of a vote handler: no action, the only one, or all of them in order.\<close>

definition pack_actions :: "consensus_action list \<Rightarrow> consensus_action" where
  "pack_actions as = (case as of [] \<Rightarrow> NoAction | [a] \<Rightarrow> a | _ \<Rightarrow> Multiple as)"

definition run_skip :: "bft_env \<Rightarrow> u32 \<Rightarrow> engine \<times> consensus_action list \<Rightarrow> engine \<times> consensus_action" where
  "run_skip env round x =
     (case x of (e, as) \<Rightarrow>
        if round > en_round e
        then (case check_round_skip env e of (e, skip) \<Rightarrow>
                (e, pack_actions (if skip \<noteq> NoAction then as @ [skip] else as)))
        else (e, pack_actions as))"

section \<open>Incoming prevotes\<close>

definition record_prevote :: "prevote \<Rightarrow> u64 \<Rightarrow> engine \<Rightarrow> engine" where
  "record_prevote v voter_power e =
     add_prevote_power (pv_round v) (pv_block_hash v) voter_power
       (e\<lparr>en_seen_prevotes := hm_insert (pv_round v, pv_validator v) (pv_block_hash v) (en_seen_prevotes e),
          en_seen_prevote_messages := hm_insert (pv_round v, pv_validator v) v (en_seen_prevote_messages e),
          en_prevotes := hm_push (pv_round v, pv_block_hash v) (pv_validator v) (en_prevotes e)\<rparr>)"

text \<open>The three rules of \<open>on_prevote\<close>, each returning the actions it pushes.\<close>

definition prevote_rule_polka :: "bft_env \<Rightarrow> u32 \<Rightarrow> engine \<Rightarrow> engine \<times> consensus_action list" where
  "prevote_rule_polka env round e =
     (if round = en_round e \<and> en_step e = Prevote then
        (case find_quorum_hash env e (en_prevote_power e) (en_prevotes e) round of
           Some bh \<Rightarrow> (case do_precommit env (Some bh) (lock_on bh round e) of (e, a) \<Rightarrow> (e, [a]))
         | None \<Rightarrow> (e, []))
      else (e, []))"

definition prevote_rule_nil :: "bft_env \<Rightarrow> u32 \<Rightarrow> engine \<Rightarrow> engine \<times> consensus_action list" where
  "prevote_rule_nil env round e =
     (if round = en_round e \<and> en_step e = Prevote \<and>
         has_supermajority_power env e (prevote_bucket_power env e (round, None))
      then (case do_precommit env None (transition_to Precommit e) of (e, a) \<Rightarrow> (e, [a]))
      else (e, []))"

definition prevote_rule_any :: "bft_env \<Rightarrow> u32 \<Rightarrow> engine \<Rightarrow> consensus_action list" where
  "prevote_rule_any env round e =
     (if round = en_round e \<and> en_step e = Prevote \<and> has_any_supermajority_prevotes env e round
      then [ScheduleTimeout Prevote (prevote_timeout e)] else [])"

definition prevote_rules :: "bft_env \<Rightarrow> u32 \<Rightarrow> engine \<Rightarrow> engine \<times> consensus_action list" where
  "prevote_rules env round e =
     (case prevote_rule_polka env round e of (e, as1) \<Rightarrow>
        (case prevote_rule_nil env round e of (e, as2) \<Rightarrow>
           (e, as1 @ as2 @ prevote_rule_any env round e)))"

definition on_prevote :: "bft_env \<Rightarrow> prevote \<Rightarrow> engine \<Rightarrow> engine \<times> consensus_action" where
  "on_prevote env v e =
     (if pv_height v > en_height e then
        (if pv_height v \<le> wrapping_add64 (en_height e) FUTURE_MSG_BUFFER_HEIGHTS
         then (e\<lparr>en_future_prevotes := hm_push (pv_height v) v (en_future_prevotes e)\<rparr>, NoAction)
         else (e, NoAction))
      else if pv_height v < en_height e then (e, NoAction)
      else if \<not> prevote_verify_signature_with_chain_id (env_crypto env) (en_signing_chain_id e) v then (e, NoAction)
      else case eligible_stake env e (pv_validator v) of
          None \<Rightarrow> (e, NoAction)
        | Some voter_power \<Rightarrow>
            (case hm_get (en_seen_prevotes e) (pv_round v, pv_validator v) of
               Some existing_hash \<Rightarrow>
                 if existing_hash \<noteq> pv_block_hash v then
                   (case hm_get (en_seen_prevote_messages e) (pv_round v, pv_validator v) of
                      None \<Rightarrow> (e, NoAction)
                    | Some existing_vote \<Rightarrow>
                        (e, EquivocationDetected (en_height e) (pv_round v) (pv_validator v) ''prevote''
                              existing_hash (pv_block_hash v) (DoublePrevoteV2 existing_vote v)))
                 else (e, NoAction)
             | None \<Rightarrow>
                 run_skip env (pv_round v) (prevote_rules env (pv_round v) (record_prevote v voter_power e))))"

section \<open>Incoming precommits\<close>

definition record_precommit :: "precommit \<Rightarrow> u64 \<Rightarrow> engine \<Rightarrow> engine" where
  "record_precommit v voter_power e =
     (let e = add_precommit_power (pc_round v) (pc_block_hash v) voter_power
           (e\<lparr>en_seen_precommits := hm_insert (pc_round v, pc_validator v) (pc_block_hash v) (en_seen_precommits e),
              en_seen_precommit_messages := hm_insert (pc_round v, pc_validator v) v (en_seen_precommit_messages e),
              en_precommits := hm_push (pc_round v, pc_block_hash v) (pc_validator v) (en_precommits e)\<rparr>)
      in e\<lparr>en_precommit_sigs :=
             hm_insert (pc_round v, pc_validator v) (pc_signature v, pc_timestamp v) (en_precommit_sigs e)\<rparr>)"

text \<open>Rules 2 and 3 of \<open>on_precommit\<close> and the round skip, after the search for a commit.\<close>

definition precommit_rules ::
  "bft_env \<Rightarrow> u32 \<Rightarrow> consensus_action list \<Rightarrow> engine \<Rightarrow> engine \<times> consensus_action" where
  "precommit_rules env round as e =
     (if round = en_round e \<and> has_supermajority_power env e (precommit_bucket_power env e (round, None))
      then start_round (wrapping_add32 round 1) e
      else
        run_skip env round (e, as @
          (if round = en_round e \<and> en_step e = Precommit \<and> has_any_supermajority_precommits env e round
           then [ScheduleTimeout Precommit (precommit_timeout e)] else [])))"

definition precommit_commit_rule :: "bft_env \<Rightarrow> u32 \<Rightarrow> engine \<Rightarrow> engine \<times> consensus_action" where
  "precommit_commit_rule env round e =
     (case find_quorum_hash env e (en_precommit_power e) (en_precommits e) round of
        Some bh \<Rightarrow>
          (case hm_get (en_proposal_blocks e) bh of
             Some blk \<Rightarrow>
               (let e = (transition_to Commit e)\<lparr>en_last_committed_block_timestamp :=
                      Some (hdr_timestamp (blk_header blk))\<rparr>
                in (e, CommitBlock (en_height e) round (committed_block env e round bh blk) bh))
           | None \<Rightarrow> precommit_rules env round [RequestBlockRange (en_height e) (en_height e) bh] e)
      | None \<Rightarrow> precommit_rules env round [] e)"

definition on_precommit :: "bft_env \<Rightarrow> precommit \<Rightarrow> engine \<Rightarrow> engine \<times> consensus_action" where
  "on_precommit env v e =
     (if pc_height v > en_height e then
        (if pc_height v \<le> wrapping_add64 (en_height e) FUTURE_MSG_BUFFER_HEIGHTS
         then (e\<lparr>en_future_precommits := hm_push (pc_height v) v (en_future_precommits e)\<rparr>, NoAction)
         else (e, NoAction))
      else if pc_height v < en_height e then (e, NoAction)
      else if \<not> precommit_verify_signature_with_chain_id (env_crypto env) (en_signing_chain_id e) v
      then (e, NoAction)
      else case eligible_stake env e (pc_validator v) of
          None \<Rightarrow> (e, NoAction)
        | Some voter_power \<Rightarrow>
            (case hm_get (en_seen_precommits e) (pc_round v, pc_validator v) of
               Some existing_hash \<Rightarrow>
                 if existing_hash \<noteq> pc_block_hash v then
                   (case hm_get (en_seen_precommit_messages e) (pc_round v, pc_validator v) of
                      None \<Rightarrow> (e, NoAction)
                    | Some existing_vote \<Rightarrow>
                        (e, EquivocationDetected (en_height e) (pc_round v) (pc_validator v) ''precommit''
                              existing_hash (pc_block_hash v) (DoublePrecommitV2 existing_vote v)))
                 else (e, NoAction)
             | None \<Rightarrow>
                 if en_step e = Commit then (e, NoAction)
                 else precommit_commit_rule env (pc_round v) (record_precommit v voter_power e)))"

section \<open>Buffered votes and timeouts\<close>

fun replay :: "('v \<Rightarrow> engine \<Rightarrow> engine \<times> consensus_action) \<Rightarrow> 'v list \<Rightarrow> engine \<Rightarrow> engine \<times> consensus_action list" where
  "replay handler [] e = (e, [])"
| "replay handler (v # vs) e =
     (case handler v e of (e, a) \<Rightarrow>
        (case replay handler vs e of (e, as) \<Rightarrow> (e, (if a \<noteq> NoAction then a # as else as))))"

definition drain_prevotes :: "bft_env \<Rightarrow> engine \<Rightarrow> engine \<times> consensus_action list" where
  "drain_prevotes env e =
     (case hm_get (en_future_prevotes e) (en_height e) of
        None \<Rightarrow> (e, [])
      | Some vs \<Rightarrow> replay (on_prevote env) (sort_key (\<lambda>v. - int (pv_round v)) vs)
          (e\<lparr>en_future_prevotes := hm_remove (en_height e) (en_future_prevotes e)\<rparr>))"

definition drain_precommits :: "bft_env \<Rightarrow> u64 \<Rightarrow> engine \<Rightarrow> engine \<times> consensus_action list" where
  "drain_precommits env height e =
     (case hm_get (en_future_precommits e) height of
        None \<Rightarrow> (e, [])
      | Some vs \<Rightarrow> replay (on_precommit env) (sort_key (\<lambda>v. - int (pc_round v)) vs)
          (e\<lparr>en_future_precommits := hm_remove height (en_future_precommits e)\<rparr>))"

definition drain_future_messages :: "bft_env \<Rightarrow> engine \<Rightarrow> engine \<times> consensus_action" where
  "drain_future_messages env e =
     (let height = en_height e in
      case drain_prevotes env e of (e, as1) \<Rightarrow>
        (case drain_precommits env height e of (e, as2) \<Rightarrow> (e, pack_actions (as1 @ as2))))"

definition on_timeout :: "bft_env \<Rightarrow> round_step \<Rightarrow> u32 \<Rightarrow> engine \<Rightarrow> engine \<times> consensus_action" where
  "on_timeout env step timeout_round e =
     (if timeout_round \<noteq> en_round e then (e, NoAction)
      else case step of
          Propose \<Rightarrow> if en_step e = Propose then do_prevote env None e else (e, NoAction)
        | Prevote \<Rightarrow> if en_step e = Prevote then do_precommit env None (transition_to Precommit e)
            else (e, NoAction)
        | Precommit \<Rightarrow> if en_step e = Precommit then start_round (wrapping_add32 (en_round e) 1) e
            else (e, NoAction)
        | Commit \<Rightarrow> (e, NoAction))"

definition is_proposer :: "bft_env \<Rightarrow> hash \<Rightarrow> engine \<Rightarrow> engine \<times> bool" where
  "is_proposer env parent_hash e =
     (case expected_leader_cached env (leader_selection_slot (en_height e) (en_round e)) parent_hash e of
        (e', leader) \<Rightarrow> (e', leader = Some (en_validator_pubkey e')))"

section \<open>Recovery from the write-ahead log\<close>

definition restore_lock :: "u64 \<Rightarrow> u32 \<Rightarrow> hash \<Rightarrow> engine \<Rightarrow> engine" where
  "restore_lock height round bh e =
     (if height = en_height e then e\<lparr>en_locked_round := Some round, en_locked_value := Some bh\<rparr> else e)"

definition restore_proposal_block :: "crypto \<Rightarrow> u64 \<Rightarrow> u32 \<Rightarrow> block \<Rightarrow> engine \<Rightarrow> engine" where
  "restore_proposal_block c height round blk e =
     (if height \<noteq> en_height e then e
      else
        let bh = block_hash c blk;
            e = e\<lparr>en_proposal_blocks := hm_insert bh blk (en_proposal_blocks e)\<rparr>
        in if en_locked_value e = Some bh
           then e\<lparr>en_valid_round := Some round, en_valid_value := Some blk\<rparr> else e)"

definition release_unrecoverable_lock_without_value :: "crypto \<Rightarrow> u64 \<Rightarrow> hash \<Rightarrow> engine \<Rightarrow> engine \<times> bool" where
  "release_unrecoverable_lock_without_value c height bh e =
     (if height \<noteq> en_height e \<or> en_locked_value e \<noteq> Some bh then (e, False)
      else if hm_contains (en_proposal_blocks e) bh then (e, False)
      else
        let e = e\<lparr>en_locked_round := None, en_locked_value := None\<rparr>
        in ((case en_valid_value e of
               Some blk \<Rightarrow> if block_hash c blk = bh then e\<lparr>en_valid_value := None, en_valid_round := None\<rparr> else e
             | None \<Rightarrow> e), True))"

definition snapshot_power :: "engine \<Rightarrow> pubkey \<Rightarrow> u64 option" where
  "snapshot_power e pk =
     (case en_power_snapshot e of Some s \<Rightarrow> hm_get (ps_eligible_power s) pk | None \<Rightarrow> None)"

definition restore_signed_prevote ::
  "crypto \<Rightarrow> u64 \<Rightarrow> u32 \<Rightarrow> hash option \<Rightarrow> pq_signature \<Rightarrow> engine \<Rightarrow> err + engine" where
  "restore_signed_prevote c height round bh signature e =
     (if height \<noteq> en_height e then Inr e
      else case hm_get (en_signed_prevote_rounds e) round of
          Some existing \<Rightarrow> if existing \<noteq> bh then Inl ''conflicting recovered prevote'' else Inr e
        | None \<Rightarrow>
            if \<not> keypair_verify c (en_validator_pubkey e)
                 (prevote_signing_bytes_for_chain_id (en_signing_chain_id e) height round bh) signature
            then Inl ''invalid recovered prevote signature''
            else
              let me = en_validator_pubkey e;
                  voters = hm_get_or [] (en_prevotes e) (round, bh);
                  e = e\<lparr>en_signed_prevote_rounds := hm_insert round bh (en_signed_prevote_rounds e),
                        en_seen_prevotes := hm_insert (round, me) bh (en_seen_prevotes e),
                        en_seen_prevote_messages := hm_insert (round, me)
                          \<lparr>pv_height = height, pv_round = round, pv_block_hash = bh, pv_validator = me,
                           pv_signature = signature\<rparr> (en_seen_prevote_messages e)\<rparr>
              in if me \<in> set voters
                 then Inr (e\<lparr>en_prevotes := hm_insert (round, bh) voters (en_prevotes e)\<rparr>)
                 else
                   let e = e\<lparr>en_prevotes := hm_push (round, bh) me (en_prevotes e)\<rparr>
                   in Inr (case snapshot_power e me of Some p \<Rightarrow> add_prevote_power round bh p e | None \<Rightarrow> e))"

definition restore_signed_precommit ::
  "crypto \<Rightarrow> u64 \<Rightarrow> u32 \<Rightarrow> hash option \<Rightarrow> pq_signature \<Rightarrow> u64 \<Rightarrow> engine \<Rightarrow> err + engine" where
  "restore_signed_precommit c height round bh signature timestamp e =
     (if height \<noteq> en_height e then Inr e
      else case hm_get (en_signed_precommit_rounds e) round of
          Some existing \<Rightarrow> if existing \<noteq> bh then Inl ''conflicting recovered precommit'' else Inr e
        | None \<Rightarrow>
            if \<not> keypair_verify c (en_validator_pubkey e)
                 (precommit_signing_bytes_for_chain_id (en_signing_chain_id e) height round bh timestamp) signature
            then Inl ''invalid recovered precommit signature''
            else
              let me = en_validator_pubkey e;
                  voters = hm_get_or [] (en_precommits e) (round, bh);
                  e = e\<lparr>en_signed_precommit_rounds := hm_insert round bh (en_signed_precommit_rounds e),
                        en_seen_precommits := hm_insert (round, me) bh (en_seen_precommits e),
                        en_seen_precommit_messages := hm_insert (round, me)
                          \<lparr>pc_height = height, pc_round = round, pc_block_hash = bh, pc_validator = me,
                           pc_signature = signature, pc_timestamp = timestamp\<rparr> (en_seen_precommit_messages e)\<rparr>;
                  e = (if me \<in> set voters
                       then e\<lparr>en_precommits := hm_insert (round, bh) voters (en_precommits e)\<rparr>
                       else
                         let e = e\<lparr>en_precommits := hm_push (round, bh) me (en_precommits e)\<rparr>
                         in (case snapshot_power e me of
                               Some p \<Rightarrow> add_precommit_power round bh p e | None \<Rightarrow> e));
                  e = e\<lparr>en_precommit_sigs := hm_insert (round, me) (signature, timestamp) (en_precommit_sigs e)\<rparr>
              in Inr (case bh of
                   Some h \<Rightarrow>
                     if (case en_locked_round e of None \<Rightarrow> True | Some lr \<Rightarrow> round \<ge> lr)
                     then e\<lparr>en_locked_round := Some round, en_locked_value := Some h\<rparr> else e
                 | None \<Rightarrow> e))"

definition locked_state :: "engine \<Rightarrow> (u32 \<times> hash) option" where
  "locked_state e =
     (case (en_locked_round e, en_locked_value e) of (Some r, Some h) \<Rightarrow> Some (r, h) | _ \<Rightarrow> None)"

end
