(* ===== verification/Quorum.thy ===== *)
theory Quorum
  imports Main
begin

text \<open>
  The weighted-quorum interface. Every two-thirds test of the program (the engine's polka and
  commit tests, the verification of a block's commit certificate) weighs a set of validators
  against the total power of a validator set. A provider supplies the power of each member and
  the total it compares with, and promises only that the total is not below the sum of the
  powers; the intersection lemmas that BFT safety rests on follow.
\<close>

locale weighted_quorum =
  fixes members :: "'s \<Rightarrow> 'v set"
    and weight :: "'s \<Rightarrow> 'v \<Rightarrow> nat"
    and full :: "'s \<Rightarrow> nat"
    and ok :: "'s \<Rightarrow> bool"
  assumes members_finite: "ok s \<Longrightarrow> finite (members s)"
    and full_covers: "ok s \<Longrightarrow> sum (weight s) (members s) \<le> full s"
begin

definition power_of :: "'s \<Rightarrow> 'v set \<Rightarrow> nat" where
  "power_of s A = sum (weight s) (A \<inter> members s)"

definition quorum :: "'s \<Rightarrow> 'v set \<Rightarrow> bool" where
  "quorum s A \<longleftrightarrow> 0 < full s \<and> 2 * full s \<le> 3 * power_of s A"

lemma power_of_mono: "ok s \<Longrightarrow> A \<subseteq> B \<Longrightarrow> power_of s A \<le> power_of s B"
  unfolding power_of_def by (rule sum_mono2) (use members_finite in auto)

lemma quorum_mono: "ok s \<Longrightarrow> quorum s A \<Longrightarrow> A \<subseteq> B \<Longrightarrow> quorum s B"
  using power_of_mono [of s A B] by (simp add: quorum_def)

lemma power_of_Un_Int:
  assumes "ok s"
  shows "power_of s A + power_of s B = power_of s (A \<union> B) + power_of s (A \<inter> B)"
proof -
  let ?a = "A \<inter> members s" and ?b = "B \<inter> members s"
  from members_finite [OF assms] have "finite ?a" "finite ?b" by auto
  from sum.union_inter [OF this, of "weight s"]
  have "sum (weight s) ?a + sum (weight s) ?b = sum (weight s) (?a \<union> ?b) + sum (weight s) (?a \<inter> ?b)"
    by simp
  moreover have "?a \<union> ?b = (A \<union> B) \<inter> members s" "?a \<inter> ?b = (A \<inter> B) \<inter> members s" by auto
  ultimately show ?thesis by (simp add: power_of_def)
qed

lemma power_of_le_full: "ok s \<Longrightarrow> power_of s A \<le> full s"
  using power_of_mono [of s A UNIV] full_covers [of s] by (simp add: power_of_def)

lemma quorum_intersection:
  assumes "ok s" "quorum s A" "quorum s B"
  shows "full s \<le> 3 * power_of s (A \<inter> B)"
  using assms(2,3) power_of_Un_Int [OF assms(1), of A B] power_of_le_full [OF assms(1), of "A \<union> B"]
  by (simp add: quorum_def)

text \<open>When the faulty validators hold less than a third, two quorums share an honest member.\<close>

lemma quorum_honest:
  assumes "ok s" "quorum s A" "quorum s B" "3 * power_of s (- H) < full s"
  shows "\<exists>v \<in> members s. v \<in> A \<and> v \<in> B \<and> v \<in> H"
proof (rule ccontr)
  assume "\<not> ?thesis"
  then have "(A \<inter> B) \<inter> members s \<subseteq> (- H) \<inter> members s" by auto
  then have "power_of s (A \<inter> B) \<le> power_of s (- H)"
    unfolding power_of_def by (rule sum_mono2 [rotated]) (use members_finite [OF assms(1)] in auto)
  with quorum_intersection [OF assms(1-3)] assms(4) show False by simp
qed

text \<open>A single quorum is met with itself.\<close>

lemma quorum_has_honest:
  assumes "ok s" "quorum s A" "3 * power_of s (- H) < full s"
  shows "\<exists>v \<in> members s. v \<in> A \<and> v \<in> H"
  using quorum_honest [OF assms(1,2,2,3)] by blast

end

end
