(* ===== verification/Tendermint_Spec.thy ===== *)
theory Tendermint_Spec
  imports Signing Quorum
begin

text \<open>
  The abstract specification the consensus engine implements: one height of Tendermint as seen
  by one honest validator, reduced to its round, its lock, the votes it has signed and the votes
  it has seen. The steps are those the safety argument speaks of. Agreement is proved here, for
  any system of such nodes whose votes are authentic, and is carried over to the engine by the
  refinement in \<open>Bft_Refinement\<close>.
\<close>

record node =
  nd_round :: nat
  nd_lock :: "(nat \<times> hash) option"
  nd_pv :: "nat \<rightharpoonup> hash option"
  nd_pc :: "nat \<rightharpoonup> hash option"
  nd_pv_seen :: "nat \<times> pubkey \<rightharpoonup> hash option"
  nd_pc_seen :: "nat \<times> pubkey \<rightharpoonup> hash option"

definition prevoters :: "node \<Rightarrow> nat \<Rightarrow> hash \<Rightarrow> pubkey set" where
  "prevoters n r b = {v. nd_pv_seen n (r, v) = Some (Some b)}"

definition precommitters :: "node \<Rightarrow> nat \<Rightarrow> hash \<Rightarrow> pubkey set" where
  "precommitters n r b = {v. nd_pc_seen n (r, v) = Some (Some b)}"

text \<open>
  The prevote rule: nil always; a block (never the all-zero hash) when not locked, locked on it,
  or shown a polka for it from a round after the lock.
\<close>

definition may_prevote :: "(pubkey set \<Rightarrow> bool) \<Rightarrow> node \<Rightarrow> hash option \<Rightarrow> bool" where
  "may_prevote Q n bh =
     (case bh of None \<Rightarrow> True
      | Some b \<Rightarrow> b \<noteq> hash_default \<and>
          (case nd_lock n of None \<Rightarrow> True
           | Some (lr, lb) \<Rightarrow> lb = b \<or> (\<exists>vr > lr. Q (prevoters n vr b))))"

inductive local_step :: "(pubkey set \<Rightarrow> bool) \<Rightarrow> pubkey \<Rightarrow> node \<Rightarrow> node \<Rightarrow> bool"
  for Q me where
  advance: "nd_round n \<le> r \<Longrightarrow> local_step Q me n (n\<lparr>nd_round := r\<rparr>)"
| prevote: "nd_pv n (nd_round n) = None \<Longrightarrow> may_prevote Q n bh \<Longrightarrow>
    local_step Q me n (n\<lparr>nd_pv := (nd_pv n)(nd_round n \<mapsto> bh),
      nd_pv_seen := (nd_pv_seen n)((nd_round n, me) \<mapsto> bh)\<rparr>)"
| lock: "Q (prevoters n (nd_round n) b) \<Longrightarrow> local_step Q me n (n\<lparr>nd_lock := Some (nd_round n, b)\<rparr>)"
| precommit: "nd_pc n (nd_round n) = None \<Longrightarrow>
    bh = None \<or> (\<exists>b. bh = Some b \<and> nd_lock n = Some (nd_round n, b)) \<Longrightarrow>
    local_step Q me n (n\<lparr>nd_pc := (nd_pc n)(nd_round n \<mapsto> bh),
      nd_pc_seen := (nd_pc_seen n)((nd_round n, me) \<mapsto> bh)\<rparr>)"

definition see_prevote :: "nat \<Rightarrow> pubkey \<Rightarrow> hash option \<Rightarrow> node \<Rightarrow> node" where
  "see_prevote r v bh n = n\<lparr>nd_pv_seen := (nd_pv_seen n)((r, v) \<mapsto> bh)\<rparr>"

definition see_precommit :: "nat \<Rightarrow> pubkey \<Rightarrow> hash option \<Rightarrow> node \<Rightarrow> node" where
  "see_precommit r v bh n = n\<lparr>nd_pc_seen := (nd_pc_seen n)((r, v) \<mapsto> bh)\<rparr>"

definition node_init :: node where
  "node_init = \<lparr>nd_round = 0, nd_lock = None, nd_pv = Map.empty, nd_pc = Map.empty,
     nd_pv_seen = Map.empty, nd_pc_seen = Map.empty\<rparr>"

section \<open>Systems of nodes\<close>

text \<open>
  A vote is authentic when its named sender has signed the same bytes. The bytes of a nil vote
  are those of a vote for the all-zero hash, so an authentic vote may differ from the signed one
  in exactly that way.
\<close>

definition authentic :: "(nat \<rightharpoonup> hash option) \<Rightarrow> nat \<Rightarrow> hash option \<Rightarrow> bool" where
  "authentic sg r bh \<longleftrightarrow> (\<exists>bh'. sg r = Some bh' \<and> vote_hash_bytes bh' = vote_hash_bytes bh)"

inductive sys_step :: "(pubkey set \<Rightarrow> bool) \<Rightarrow> pubkey set \<Rightarrow> (pubkey \<Rightarrow> node) \<Rightarrow> (pubkey \<Rightarrow> node) \<Rightarrow> bool"
  for Q H where
  local: "v \<in> H \<Longrightarrow> local_step Q v (N v) n \<Longrightarrow> sys_step Q H N (N(v := n))"
| recv_prevote: "v \<in> H \<Longrightarrow> nd_pv_seen (N v) (r, u) = None \<Longrightarrow>
    (u \<in> H \<Longrightarrow> authentic (nd_pv (N u)) r bh) \<Longrightarrow>
    sys_step Q H N (N(v := see_prevote r u bh (N v)))"
| recv_precommit: "v \<in> H \<Longrightarrow> nd_pc_seen (N v) (r, u) = None \<Longrightarrow>
    (u \<in> H \<Longrightarrow> authentic (nd_pc (N u)) r bh) \<Longrightarrow>
    sys_step Q H N (N(v := see_precommit r u bh (N v)))"

lemma vote_hash_bytes_block:
  "vote_hash_bytes x = vote_hash_bytes (Some b) \<Longrightarrow> b \<noteq> hash_default \<Longrightarrow> x = Some b"
  using hash_default_iff [of b] by (cases x) (auto simp: vote_hash_bytes_def intro: hash.expand)

lemma authentic_block: "authentic sg r (Some b) \<Longrightarrow> b \<noteq> hash_default \<Longrightarrow> sg r = Some (Some b)"
  by (auto simp: authentic_def dest: vote_hash_bytes_block)

lemma authentic_mono: "authentic sg r bh \<Longrightarrow> sg \<subseteq>\<^sub>m sg' \<Longrightarrow> authentic sg' r bh"
  by (auto simp: authentic_def map_le_def dom_def)

section \<open>Node invariant\<close>

definition node_inv :: "(pubkey set \<Rightarrow> bool) \<Rightarrow> pubkey \<Rightarrow> node \<Rightarrow> bool" where
  "node_inv Q me n \<longleftrightarrow>
     (\<forall>r b. nd_pc n r = Some (Some b) \<longrightarrow>
        Q (prevoters n r b) \<and> (\<exists>lr lb. nd_lock n = Some (lr, lb) \<and> r \<le> lr)) \<and>
     (\<forall>lr lb. nd_lock n = Some (lr, lb) \<longrightarrow> lr \<le> nd_round n \<and> Q (prevoters n lr lb)) \<and>
     (\<forall>r. nd_pv n r \<noteq> None \<longrightarrow> r \<le> nd_round n) \<and>
     (\<forall>r. nd_pc n r \<noteq> None \<longrightarrow> r \<le> nd_round n) \<and>
     (\<forall>r. nd_pv_seen n (r, me) = nd_pv n r) \<and>
     (\<forall>r. nd_pc_seen n (r, me) = nd_pc n r)"

text \<open>What every step keeps: votes once signed or seen stay, and rounds do not go back.\<close>

definition node_le :: "node \<Rightarrow> node \<Rightarrow> bool" where
  "node_le n n' \<longleftrightarrow> nd_round n \<le> nd_round n' \<and> nd_pv n \<subseteq>\<^sub>m nd_pv n' \<and> nd_pc n \<subseteq>\<^sub>m nd_pc n' \<and>
     nd_pv_seen n \<subseteq>\<^sub>m nd_pv_seen n' \<and> nd_pc_seen n \<subseteq>\<^sub>m nd_pc_seen n' \<and>
     (\<forall>r < nd_round n. nd_pc n' r = nd_pc n r)"

lemma map_le_upd_new: "m k = None \<Longrightarrow> m \<subseteq>\<^sub>m m(k \<mapsto> v)"
  by (auto simp: map_le_def dom_def)

lemma prevoters_mono: "nd_pv_seen n \<subseteq>\<^sub>m nd_pv_seen n' \<Longrightarrow> prevoters n r b \<subseteq> prevoters n' r b"
  by (auto simp: prevoters_def map_le_def dom_def)

lemma precommitters_mono: "nd_pc_seen n \<subseteq>\<^sub>m nd_pc_seen n' \<Longrightarrow> precommitters n r b \<subseteq> precommitters n' r b"
  by (auto simp: precommitters_def map_le_def dom_def)

lemma node_le_refl [simp]: "node_le n n"
  by (simp add: node_le_def)

lemma local_step_le: "local_step Q me n n' \<Longrightarrow> node_inv Q me n \<Longrightarrow> node_le n n'"
  by (induction rule: local_step.induct)
    (auto simp: node_le_def node_inv_def intro!: map_le_upd_new)

lemma see_prevote_le: "nd_pv_seen n (r, u) = None \<Longrightarrow> node_le n (see_prevote r u bh n)"
  by (simp add: node_le_def see_prevote_def map_le_upd_new)

lemma see_precommit_le: "nd_pc_seen n (r, u) = None \<Longrightarrow> node_le n (see_precommit r u bh n)"
  by (simp add: node_le_def see_precommit_def map_le_upd_new)

definition up_closed :: "(pubkey set \<Rightarrow> bool) \<Rightarrow> bool" where
  "up_closed Q \<longleftrightarrow> (\<forall>A B. Q A \<longrightarrow> A \<subseteq> B \<longrightarrow> Q B)"

lemma up_closedD: "up_closed Q \<Longrightarrow> Q A \<Longrightarrow> A \<subseteq> B \<Longrightarrow> Q B"
  by (auto simp: up_closed_def)

lemma prevoters_frame [simp]:
  "prevoters (n\<lparr>nd_round := r'\<rparr>) r b = prevoters n r b"
  "prevoters (n\<lparr>nd_lock := l\<rparr>) r b = prevoters n r b"
  "prevoters (n\<lparr>nd_pc := x\<rparr>) r b = prevoters n r b"
  "prevoters (n\<lparr>nd_pc_seen := y\<rparr>) r b = prevoters n r b"
  by (simp_all add: prevoters_def)

lemma local_step_inv:
  assumes "local_step Q me n n'" "node_inv Q me n" "up_closed Q"
  shows "node_inv Q me n'"
  using assms
proof (induction rule: local_step.induct)
  case (advance n r)
  then show ?case unfolding node_inv_def by (auto intro: order_trans)
next
  case (prevote n bh)
  let ?n = "n\<lparr>nd_pv := (nd_pv n)(nd_round n \<mapsto> bh), nd_pv_seen := (nd_pv_seen n)((nd_round n, me) \<mapsto> bh)\<rparr>"
  from prevote.hyps prevote.prems have "nd_pv_seen n \<subseteq>\<^sub>m nd_pv_seen ?n"
    by (simp add: node_inv_def map_le_upd_new)
  then have Q: "Q (prevoters n r b) \<Longrightarrow> Q (prevoters ?n r b)" for r b
    using up_closedD [OF prevote.prems(2) _ prevoters_mono] by blast
  show ?case using prevote.prems(1) Q unfolding node_inv_def by simp
next
  case (lock n b)
  then show ?case unfolding node_inv_def by (auto intro: order_trans)
next
  case (precommit n bh)
  then show ?case unfolding node_inv_def by auto
qed

lemma see_prevote_inv:
  assumes "node_inv Q me n" "up_closed Q" "nd_pv_seen n (r, u) = None" "u \<noteq> me"
  shows "node_inv Q me (see_prevote r u bh n)"
proof -
  have "Q (prevoters n r' b) \<Longrightarrow> Q (prevoters (see_prevote r u bh n) r' b)" for r' b
    using up_closedD [OF assms(2) _ prevoters_mono] see_prevote_le [OF assms(3)]
    unfolding node_le_def by blast
  with assms(1,4) show ?thesis unfolding node_inv_def see_prevote_def by simp
qed

lemma see_precommit_inv:
  assumes "node_inv Q me n" "u \<noteq> me"
  shows "node_inv Q me (see_precommit r u bh n)"
  using assms unfolding node_inv_def see_precommit_def by simp

section \<open>System invariant\<close>

definition votes_authentic :: "pubkey set \<Rightarrow> (pubkey \<Rightarrow> node) \<Rightarrow> bool" where
  "votes_authentic H N \<longleftrightarrow>
     (\<forall>v \<in> H. \<forall>u \<in> H. \<forall>r bh.
        (nd_pv_seen (N v) (r, u) = Some bh \<longrightarrow> authentic (nd_pv (N u)) r bh) \<and>
        (nd_pc_seen (N v) (r, u) = Some bh \<longrightarrow> authentic (nd_pc (N u)) r bh))"

definition sys_inv :: "(pubkey set \<Rightarrow> bool) \<Rightarrow> pubkey set \<Rightarrow> (pubkey \<Rightarrow> node) \<Rightarrow> bool" where
  "sys_inv Q H N \<longleftrightarrow> (\<forall>v \<in> H. node_inv Q v (N v)) \<and> votes_authentic H N"

definition sys_le :: "(pubkey \<Rightarrow> node) \<Rightarrow> (pubkey \<Rightarrow> node) \<Rightarrow> bool" where
  "sys_le N N' \<longleftrightarrow> (\<forall>v. node_le (N v) (N' v))"

lemma own_vote_seen:
  assumes "sys_inv Q H N" "v \<in> H"
  shows "authentic (nd_pv (N v)) r bh \<Longrightarrow> nd_pv_seen (N v) (r, v) \<noteq> None"
    and "authentic (nd_pc (N v)) r bh \<Longrightarrow> nd_pc_seen (N v) (r, v) \<noteq> None"
  using assms by (auto simp: sys_inv_def node_inv_def authentic_def)

lemma votes_authentic_upd:
  assumes "votes_authentic H N" "node_le (N v) n"
    and "\<And>u r bh. u \<in> H \<Longrightarrow> nd_pv_seen n (r, u) = Some bh \<Longrightarrow> nd_pv_seen (N v) (r, u) = Some bh \<or>
           authentic (nd_pv ((N(v := n)) u)) r bh"
    and "\<And>u r bh. u \<in> H \<Longrightarrow> nd_pc_seen n (r, u) = Some bh \<Longrightarrow> nd_pc_seen (N v) (r, u) = Some bh \<or>
           authentic (nd_pc ((N(v := n)) u)) r bh"
  shows "votes_authentic H (N(v := n))"
proof -
  have "authentic (nd_pv (N u)) r bh \<Longrightarrow> authentic (nd_pv ((N(v := n)) u)) r bh"
    "authentic (nd_pc (N u)) r bh \<Longrightarrow> authentic (nd_pc ((N(v := n)) u)) r bh" for u r bh
    using assms(2) by (auto simp: node_le_def intro: authentic_mono)
  with assms(1,3,4) show ?thesis
    unfolding votes_authentic_def by (metis fun_upd_apply)
qed

lemma local_step_seen:
  assumes "local_step Q me n n'"
  shows "nd_pv_seen n' (r, u) = Some bh \<Longrightarrow> nd_pv_seen n (r, u) = Some bh \<or> (u = me \<and> nd_pv n' r = Some bh)"
    and "nd_pc_seen n' (r, u) = Some bh \<Longrightarrow> nd_pc_seen n (r, u) = Some bh \<or> (u = me \<and> nd_pc n' r = Some bh)"
  using assms by (induction rule: local_step.induct) (auto split: if_splits)

lemma sys_step_inv:
  assumes "sys_step Q H N N'" "sys_inv Q H N" "up_closed Q"
  shows "sys_inv Q H N' \<and> sys_le N N'"
  using assms
proof (induction rule: sys_step.induct)
  case (local v N n)
  then have ni: "node_inv Q v (N v)" and va: "votes_authentic H N" by (auto simp: sys_inv_def)
  have n: "node_inv Q v n" "node_le (N v) n"
    using local_step_inv [OF local.hyps(2) ni local.prems(2)] local_step_le [OF local.hyps(2) ni] by auto
  have "votes_authentic H (N(v := n))"
    by (rule votes_authentic_upd [OF va n(2)])
      (auto simp: authentic_def dest: local_step_seen [OF local.hyps(2)])
  with local n show ?case unfolding sys_inv_def sys_le_def by auto
next
  case (recv_prevote v N r u bh)
  then have ni: "node_inv Q v (N v)" and va: "votes_authentic H N" by (auto simp: sys_inv_def)
  from recv_prevote own_vote_seen(1) have ne: "u \<noteq> v" by blast
  have le: "node_le (N v) (see_prevote r u bh (N v))" by (rule see_prevote_le) (rule recv_prevote)
  have "votes_authentic H (N(v := see_prevote r u bh (N v)))"
    by (rule votes_authentic_upd [OF va le]) (use recv_prevote.hyps(3) ne in \<open>auto simp: see_prevote_def split: if_splits\<close>)
  with recv_prevote le ne see_prevote_inv [OF ni _ _ ne] show ?case unfolding sys_inv_def sys_le_def by auto
next
  case (recv_precommit v N r u bh)
  then have ni: "node_inv Q v (N v)" and va: "votes_authentic H N" by (auto simp: sys_inv_def)
  from recv_precommit own_vote_seen(2) have ne: "u \<noteq> v" by blast
  have le: "node_le (N v) (see_precommit r u bh (N v))" by (rule see_precommit_le) (rule recv_precommit)
  have "votes_authentic H (N(v := see_precommit r u bh (N v)))"
    by (rule votes_authentic_upd [OF va le]) (use recv_precommit.hyps(3) ne in \<open>auto simp: see_precommit_def split: if_splits\<close>)
  with recv_precommit le ne see_precommit_inv [OF ni ne] show ?case unfolding sys_inv_def sys_le_def by auto
qed

lemma sys_inv_init: "sys_inv Q H (\<lambda>_. node_init)"
  by (simp add: sys_inv_def node_inv_def votes_authentic_def node_init_def)

section \<open>Agreement\<close>

text \<open>
  For a round \<open>r\<close>, a block \<open>b\<close> and a set \<open>S\<close> of validators that, with the faulty ones, form a
  quorum: either some member of \<open>S\<close> can no longer precommit \<open>b\<close> in round \<open>r\<close>, or no member of
  \<open>S\<close> ever prevotes another block in a later round.
\<close>

definition missed :: "nat \<Rightarrow> hash \<Rightarrow> node \<Rightarrow> bool" where
  "missed r b n \<longleftrightarrow> nd_pc n r \<noteq> Some (Some b) \<and> (nd_pc n r \<noteq> None \<or> r < nd_round n)"

definition faithful :: "nat \<Rightarrow> hash \<Rightarrow> node \<Rightarrow> bool" where
  "faithful r b n \<longleftrightarrow> (\<forall>r' > r. \<forall>b'. nd_pv n r' = Some (Some b') \<longrightarrow> b' = b)"

definition locked_in :: "pubkey set \<Rightarrow> nat \<Rightarrow> hash \<Rightarrow> (pubkey \<Rightarrow> node) \<Rightarrow> bool" where
  "locked_in S r b N \<longleftrightarrow> (\<exists>v \<in> S. missed r b (N v)) \<or> (\<forall>v \<in> S. faithful r b (N v))"

definition honest_quorums :: "(pubkey set \<Rightarrow> bool) \<Rightarrow> pubkey set \<Rightarrow> bool" where
  "honest_quorums Q H \<longleftrightarrow> up_closed Q \<and> (\<forall>A B. Q A \<longrightarrow> Q B \<longrightarrow> (\<exists>v. v \<in> A \<and> v \<in> B \<and> v \<in> H))"

lemma honest_quorumsD:
  "honest_quorums Q H \<Longrightarrow> Q A \<Longrightarrow> Q B \<Longrightarrow> \<exists>v. v \<in> A \<and> v \<in> B \<and> v \<in> H"
  by (auto simp: honest_quorums_def)

lemma missed_stable: "missed r b n \<Longrightarrow> node_le n n' \<Longrightarrow> missed r b n'"
  unfolding missed_def node_le_def map_le_def dom_def
  by (metis (mono_tags, lifting) mem_Collect_eq order_less_le_trans)

lemma polka_member_of_S:
  assumes "sys_inv Q H N" "honest_quorums Q H" "Q (S \<union> - H)" "v \<in> H"
    and "Q (prevoters (N v) r b)" "b \<noteq> hash_default"
  shows "\<exists>u \<in> S. nd_pv (N u) r = Some (Some b)"
proof -
  from honest_quorumsD [OF assms(2,5,3)] obtain u where u: "u \<in> prevoters (N v) r b" "u \<in> S" "u \<in> H"
    by blast
  with assms(1,4) have "authentic (nd_pv (N u)) r (Some b)"
    by (auto simp: sys_inv_def votes_authentic_def prevoters_def)
  from authentic_block [OF this assms(6)] u show ?thesis by blast
qed

lemma polka_unique:
  assumes "honest_quorums Q H" "Q (prevoters n r b)" "Q (prevoters n r b')"
  shows "b = b'"
  using honest_quorumsD [OF assms] by (auto simp: prevoters_def)

lemma faithful_prevote:
  assumes inv: "sys_inv Q H N" and hq: "honest_quorums Q H" and S: "Q (S \<union> - H)"
    and f: "\<forall>u \<in> S. faithful r b (N u)"
    and v: "v \<in> H" "nd_pc (N v) r = Some (Some b)"
    and may: "may_prevote Q (N v) (Some b')"
  shows "b' = b"
proof -
  from inv v(1) have ni: "node_inv Q v (N v)" by (simp add: sys_inv_def)
  with v(2) obtain lr lb where lk: "nd_lock (N v) = Some (lr, lb)" "r \<le> lr" and own: "Q (prevoters (N v) r b)"
    unfolding node_inv_def by blast
  from ni lk have lq: "Q (prevoters (N v) lr lb)" unfolding node_inv_def by blast
  from may lk have nz: "b' \<noteq> hash_default" and cs: "lb = b' \<or> (\<exists>vr > lr. Q (prevoters (N v) vr b'))"
    by (simp_all add: may_prevote_def)
  have late: "b' = b" if "r < r'" "Q (prevoters (N v) r' b')" for r'
    using polka_member_of_S [OF inv hq S v(1) that(2) nz] f that(1) by (auto simp: faithful_def)
  from cs show ?thesis
  proof
    assume "lb = b'"
    with lk lq own late [of lr] show ?thesis
      by (cases "lr = r") (auto dest: polka_unique [OF hq])
  next
    assume "\<exists>vr > lr. Q (prevoters (N v) vr b')"
    then show ?thesis using late lk(2) by (meson order_le_less_trans)
  qed
qed

lemma locked_in_local:
  assumes inv: "sys_inv Q H N" and hq: "honest_quorums Q H" and S: "Q (S \<union> - H)" "S \<subseteq> H"
    and f: "\<forall>u \<in> S. faithful r b (N u)" "\<not> (\<exists>u \<in> S. missed r b (N u))"
    and st: "v \<in> H" "local_step Q v (N v) n"
  shows "\<forall>u \<in> S. faithful r b ((N(v := n)) u)"
proof (cases "v \<in> S")
  case False
  with f show ?thesis by auto
next
  case True
  from f True have fv: "faithful r b (N v)" and nm: "\<not> missed r b (N v)" by auto
  have "faithful r b n"
    using st(2)
  proof (cases rule: local_step.cases)
    case (prevote bh)
    have "b' = b" if "bh = Some b'" "r < nd_round (N v)" for b'
      using faithful_prevote [OF inv hq S(1) f(1) st(1)] prevote(3) nm that by (auto simp: missed_def)
    with prevote(1) fv show ?thesis by (auto simp: faithful_def)
  qed (use fv in \<open>auto simp: faithful_def\<close>)
  with f show ?thesis by auto
qed

lemma locked_in_step:
  assumes st: "sys_step Q H N N'" and inv: "sys_inv Q H N" and hq: "honest_quorums Q H"
    and S: "Q (S \<union> - H)" "S \<subseteq> H" and l: "locked_in S r b N"
  shows "locked_in S r b N'"
proof (cases "\<exists>v \<in> S. missed r b (N v)")
  case True
  from sys_step_inv [OF st inv] hq have "sys_le N N'" by (simp add: honest_quorums_def)
  with True show ?thesis by (auto simp: locked_in_def sys_le_def dest: missed_stable)
next
  case False
  with l have f: "\<forall>v \<in> S. faithful r b (N v)" by (simp add: locked_in_def)
  from st have "\<forall>v \<in> S. faithful r b (N' v)"
  proof (cases rule: sys_step.cases)
    case (local v n)
    then show ?thesis using locked_in_local [OF inv hq S f False] by simp
  next
    case recv_prevote
    with f show ?thesis by (auto simp: faithful_def see_prevote_def)
  next
    case recv_precommit
    with f show ?thesis by (auto simp: faithful_def see_precommit_def)
  qed
  then show ?thesis by (simp add: locked_in_def)
qed

lemma locked_in_init: "locked_in S r b (\<lambda>_. node_init)"
  by (simp add: locked_in_def faithful_def node_init_def)

text \<open>The invariant of runs: nodes, authenticity, and the locking condition for every \<open>S\<close>.\<close>

definition run_inv :: "(pubkey set \<Rightarrow> bool) \<Rightarrow> pubkey set \<Rightarrow> (pubkey \<Rightarrow> node) \<Rightarrow> bool" where
  "run_inv Q H N \<longleftrightarrow> sys_inv Q H N \<and> (\<forall>S r b. S \<subseteq> H \<longrightarrow> Q (S \<union> - H) \<longrightarrow> locked_in S r b N)"

lemma run_inv_init: "run_inv Q H (\<lambda>_. node_init)"
  by (simp add: run_inv_def sys_inv_init locked_in_init)

lemma run_inv_step: "sys_step Q H N N' \<Longrightarrow> run_inv Q H N \<Longrightarrow> honest_quorums Q H \<Longrightarrow> run_inv Q H N'"
  unfolding run_inv_def by (blast intro: locked_in_step dest: sys_step_inv honest_quorums_def [THEN iffD1])

lemma run_inv_steps: "(sys_step Q H)\<^sup>*\<^sup>* N N' \<Longrightarrow> run_inv Q H N \<Longrightarrow> honest_quorums Q H \<Longrightarrow> run_inv Q H N'"
  by (induction rule: rtranclp_induct) (auto intro: run_inv_step)

lemma precommit_quorum_set:
  assumes inv: "sys_inv Q H N" and hq: "honest_quorums Q H" and v: "v \<in> H"
    and q: "Q (precommitters (N v) r b)" and nz: "b \<noteq> hash_default"
  shows "Q ({u \<in> H. nd_pc (N u) r = Some (Some b)} \<union> - H)"
proof -
  have "precommitters (N v) r b \<subseteq> {u \<in> H. nd_pc (N u) r = Some (Some b)} \<union> - H"
    using inv v by (auto simp: sys_inv_def votes_authentic_def precommitters_def intro: authentic_block [OF _ nz])
  with hq q show ?thesis by (auto simp: honest_quorums_def dest: up_closedD)
qed

text \<open>Two nodes that see a quorum of precommits see it for the same block.\<close>

lemma spec_agreement_le:
  assumes inv: "run_inv Q H N" and hq: "honest_quorums Q H" and v: "v1 \<in> H" "v2 \<in> H"
    and q1: "Q (precommitters (N v1) r1 b1)" "b1 \<noteq> hash_default"
    and q2: "Q (precommitters (N v2) r2 b2)" "b2 \<noteq> hash_default"
    and le: "r1 \<le> r2"
  shows "b1 = b2"
proof -
  from inv have si: "sys_inv Q H N" by (simp add: run_inv_def)
  let ?S = "{u \<in> H. nd_pc (N u) r1 = Some (Some b1)}"
  have S: "Q (?S \<union> - H)" by (rule precommit_quorum_set [OF si hq v(1) q1])
  have T: "Q ({u \<in> H. nd_pc (N u) r2 = Some (Some b2)} \<union> - H)"
    by (rule precommit_quorum_set [OF si hq v(2) q2])
  show ?thesis
  proof (cases "r1 = r2")
    case True
    from honest_quorumsD [OF hq S T] True show ?thesis by auto
  next
    case False
    from honest_quorumsD [OF hq T T] obtain u where u: "u \<in> H" "nd_pc (N u) r2 = Some (Some b2)" by auto
    with si have "Q (prevoters (N u) r2 b2)" by (auto simp: sys_inv_def node_inv_def)
    from polka_member_of_S [OF si hq S u(1) this q2(2)]
    obtain w where w: "w \<in> ?S" "nd_pv (N w) r2 = Some (Some b2)" by blast
    from inv S have "locked_in ?S r1 b1 N" by (auto simp: run_inv_def)
    then have "faithful r1 b1 (N w)" using w(1) by (auto simp: locked_in_def missed_def)
    moreover from False le have "r1 < r2" by simp
    ultimately show ?thesis using w(2) by (auto simp: faithful_def)
  qed
qed

lemma spec_agreement:
  assumes "run_inv Q H N" "honest_quorums Q H" "v1 \<in> H" "v2 \<in> H"
    and "Q (precommitters (N v1) r1 b1)" "b1 \<noteq> hash_default"
    and "Q (precommitters (N v2) r2 b2)" "b2 \<noteq> hash_default"
  shows "b1 = b2"
  using spec_agreement_le [OF assms] spec_agreement_le [OF assms(1,2,4,3,7,8,5,6)]
  by (cases "r1 \<le> r2") auto

end
