(* ===== verification/Bft_Invariant.thy ===== *)
theory Bft_Invariant
  imports Bft_Handlers Tendermint_Spec
begin

text \<open>
  The representation invariant of the consensus engine. Its vote books (the buckets of voters,
  the cached tallies and the maps of seen votes) agree with each other, so every test the engine
  makes on a cached tally is a quorum test on the set of validators seen to have voted; the
  retained messages and signatures verify; its own seen votes are the signed ones. The handlers
  are built from a few primitive updates, \<open>eng_step\<close>, which preserve the invariant.
\<close>

section \<open>The frozen power snapshot as a quorum system\<close>

definition snapshot_ok :: "power_snapshot \<Rightarrow> bool" where
  "snapshot_ok s \<longleftrightarrow> distinct (hm_keys (ps_eligible_power s)) \<and>
     hm_sum id (ps_eligible_power s) \<le> ps_total_eligible_stake s"

lemma sum_keys_hm_sum: "distinct (map fst m) \<Longrightarrow> sum (hm_get_or 0 m) (fst ` set m) = hm_sum id m"
proof (induction m)
  case (Cons p m)
  obtain k v where p: "p = (k, v)" by force
  from Cons.prems p have k: "k \<notin> fst ` set m" by simp
  have "sum (hm_get_or 0 (p # m)) (fst ` set m) = sum (hm_get_or 0 m) (fst ` set m)"
    by (rule sum.cong) (use k p in \<open>auto simp: hm_get_or_def\<close>)
  with Cons p k show ?case by (simp add: hm_get_or_def)
qed simp

interpretation snap: weighted_quorum "\<lambda>s. fst ` set (ps_eligible_power s)"
  "\<lambda>s. hm_get_or 0 (ps_eligible_power s)" ps_total_eligible_stake snapshot_ok
  by unfold_locales (auto simp: snapshot_ok_def sum_keys_hm_sum)

lemma power_of_insert:
  assumes "snapshot_ok s" "pk \<notin> A"
  shows "snap.power_of s (insert pk A) = snap.power_of s A + hm_get_or 0 (ps_eligible_power s) pk"
proof (cases "pk \<in> fst ` set (ps_eligible_power s)")
  case True
  with assms(2) show ?thesis
    by (simp add: snap.power_of_def add.commute)
next
  case False
  then have "hm_get (ps_eligible_power s) pk = None" by (simp add: map_of_eq_None_iff)
  then have "hm_get_or 0 (ps_eligible_power s) pk = 0" by (simp add: hm_get_or_def)
  with False show ?thesis by (simp add: snap.power_of_def)
qed

lemma power_of_empty [simp]: "snap.power_of s {} = 0"
  by (simp add: snap.power_of_def)

lemma voter_stake_power:
  assumes "snapshot_ok s" "en_power_snapshot e = Some s"
  shows "distinct voters \<Longrightarrow> voter_stake env e voters = snap.power_of s (set voters)"
proof (induction voters)
  case Nil
  then show ?case by (simp add: voter_stake_def map_filter_simps)
next
  case (Cons pk voters)
  have "voter_stake env e (pk # voters) =
      hm_get_or 0 (ps_eligible_power s) pk + voter_stake env e voters"
    using assms(2)
    by (simp add: voter_stake_def map_filter_simps eligible_stake_def hm_get_or_def split: option.splits)
  with Cons power_of_insert [OF assms(1), of pk "set voters"] show ?case by simp
qed

lemma supermajority_quorum:
  assumes "en_power_snapshot e = Some s"
  shows "has_supermajority_power env e (snap.power_of s A) \<longleftrightarrow> snap.quorum s A"
  using assms by (auto simp: has_supermajority_power_def total_eligible_stake_def snap.quorum_def)

text \<open>A snapshot built from the validator set and stake pool is such a system.\<close>

lemma snapshot_add_ok:
  assumes "distinct (hm_keys (ps_eligible_power s))"
    and "hm_sum id (ps_eligible_power s) \<le> ps_total_eligible_stake s"
    and "ps_total_eligible_stake s \<le> n * u64_max" "(n + 1) * u64_max \<le> u128_max"
  shows "snapshot_ok (snapshot_add pool ms s v) \<and>
    ps_total_eligible_stake (snapshot_add pool ms s v) \<le> (n + 1) * u64_max"
proof (cases "snapshot_add pool ms s v = s")
  case True
  with assms show ?thesis by (auto simp: snapshot_ok_def)
next
  case False
  then obtain info where info: "sp_get_stake pool (vi_pubkey v) = Some info"
    by (auto simp: snapshot_add_def split: if_splits option.splits)
  let ?p = "si_total_stake info"
  from False info have new: "snapshot_add pool ms s v =
      \<lparr>ps_eligible_power = hm_insert (vi_pubkey v) ?p (ps_eligible_power s),
       ps_total_eligible_stake = saturating_add128 (ps_total_eligible_stake s) ?p\<rparr>"
    by (auto simp: snapshot_add_def Let_def split: if_splits)
  have p: "?p \<le> u64_max" by (simp add: si_total_stake_def)
  have sum: "hm_sum id (hm_insert (vi_pubkey v) ?p (ps_eligible_power s)) \<le> hm_sum id (ps_eligible_power s) + ?p"
    by (cases "hm_get (ps_eligible_power s) (vi_pubkey v)")
      (auto simp: hm_sum_insert_new dest: hm_sum_insert_old [where f = id and v = "?p"])
  from p assms(3,4) have "ps_total_eligible_stake s + ?p \<le> (n + 1) * u64_max" by (simp add: algebra_simps)
  with new sum assms show ?thesis by (simp add: snapshot_ok_def saturating_add128_def)
qed

lemma snapshot_fold_ok:
  assumes "snapshot_ok s" "ps_total_eligible_stake s \<le> n * u64_max" "(n + length vs) * u64_max \<le> u128_max"
  shows "snapshot_ok (foldl (snapshot_add pool ms) s vs)"
  using assms
proof (induction vs arbitrary: s n)
  case (Cons v vs)
  have "(n + 1) * u64_max \<le> (n + length (v # vs)) * u64_max" by (rule mult_le_mono1) simp
  with Cons.prems have "(n + 1) * u64_max \<le> u128_max" by linarith
  with snapshot_add_ok [of s n pool ms v] Cons.prems(1,2)
  have "snapshot_ok (snapshot_add pool ms s v)"
    "ps_total_eligible_stake (snapshot_add pool ms s v) \<le> (n + 1) * u64_max"
    by (auto simp: snapshot_ok_def)
  with Cons.IH [of "snapshot_add pool ms s v" "n + 1"] Cons.prems(3) show ?case by simp
qed simp

lemma snapshot_build_ok:
  assumes "length (vs_sorted_validators vs) \<le> 2 ^ 64"
  shows "snapshot_ok (snapshot_build vs pool ms)"
proof -
  have "length (vs_sorted_validators vs) * u64_max \<le> 2 ^ 64 * u64_max" using assms by (rule mult_le_mono1)
  also have "\<dots> \<le> u128_max" by (simp add: u64_max_def u128_max_def)
  finally show ?thesis
    unfolding snapshot_build_def by (intro snapshot_fold_ok [where n = 0]) (auto simp: snapshot_ok_def)
qed

section \<open>Vote books\<close>

definition voters_for :: "(u32 \<times> pubkey, hash option) hmap \<Rightarrow> u32 \<Rightarrow> hash option \<Rightarrow> pubkey set" where
  "voters_for seen r bh = {pk. hm_get seen (r, pk) = Some bh}"

definition books_ok ::
  "power_snapshot \<Rightarrow> (vote_key, pubkey list) hmap \<Rightarrow> (vote_key, u128) hmap \<Rightarrow>
   (u32 \<times> pubkey, hash option) hmap \<Rightarrow> bool" where
  "books_ok s votes tally seen \<longleftrightarrow>
     (\<forall>r bh. distinct (hm_get_or [] votes (r, bh)) \<and>
        set (hm_get_or [] votes (r, bh)) = voters_for seen r bh \<and>
        hm_get_or 0 tally (r, bh) = snap.power_of s (voters_for seen r bh))"

lemma books_ok_empty: "books_ok s [] [] []"
  by (simp add: books_ok_def voters_for_def)

lemma voters_for_insert:
  "hm_get seen (r, pk) = None \<Longrightarrow> voters_for (hm_insert (r, pk) bh seen) r' bh' =
     (if r' = r \<and> bh' = bh then insert pk (voters_for seen r bh) else voters_for seen r' bh')"
  by (auto simp: voters_for_def)

definition tally_add :: "power_snapshot \<Rightarrow> pubkey \<Rightarrow> vote_key \<Rightarrow> (vote_key, u128) hmap \<Rightarrow> (vote_key, u128) hmap" where
  "tally_add s pk key tally =
     (case hm_get (ps_eligible_power s) pk of Some p \<Rightarrow> hm_add key p tally | None \<Rightarrow> tally)"

lemma books_ok_record:
  assumes "books_ok s votes tally seen" "hm_get seen (r, pk) = None" "snapshot_ok s"
  shows "books_ok s (hm_push (r, bh) pk votes) (tally_add s pk (r, bh) tally) (hm_insert (r, pk) bh seen)"
proof -
  have new: "pk \<notin> voters_for seen r bh" using assms(2) by (simp add: voters_for_def)
  have t: "hm_get_or 0 (tally_add s pk (r, bh) tally) k =
      (if k = (r, bh) then hm_get_or 0 tally k + hm_get_or 0 (ps_eligible_power s) pk else hm_get_or 0 tally k)" for k
    by (simp add: tally_add_def hm_get_or_def [of 0 "ps_eligible_power s"] split: option.splits)
  show ?thesis
    using assms(1) new unfolding books_ok_def
    by (auto simp: voters_for_insert [OF assms(2)] t power_of_insert [OF assms(3) new])
qed

lemma bucket_power_books:
  assumes "books_ok s votes tally seen" "snapshot_ok s" "en_power_snapshot e = Some s"
  shows "bucket_power env e tally votes (r, bh) = snap.power_of s (voters_for seen r bh)"
proof -
  have b: "distinct (hm_get_or [] votes (r, bh))" "set (hm_get_or [] votes (r, bh)) = voters_for seen r bh"
    "hm_get_or 0 tally (r, bh) = snap.power_of s (voters_for seen r bh)"
    using assms(1) by (auto simp: books_ok_def)
  show ?thesis
    using b voter_stake_power [OF assms(2,3) b(1), of env]
    by (auto simp: bucket_power_def hm_get_or_def split: option.splits)
qed

lemma bucket_quorum:
  assumes "books_ok s votes tally seen" "snapshot_ok s" "en_power_snapshot e = Some s"
  shows "has_supermajority_power env e (bucket_power env e tally votes (r, bh)) \<longleftrightarrow>
    snap.quorum s (voters_for seen r bh)"
  by (simp add: bucket_power_books [OF assms] supermajority_quorum [OF assms(3)])

lemma polka_quorum:
  assumes "books_ok s (en_prevotes e) tally seen" "snapshot_ok s" "en_power_snapshot e = Some s"
    and "has_polka_for env e r bh"
  shows "snap.quorum s (voters_for seen r bh)"
proof -
  from assms(4) obtain voters where v: "hm_get (en_prevotes e) (r, bh) = Some voters"
    and sm: "has_supermajority_voters env e voters"
    by (auto simp: has_polka_for_def split: option.splits)
  from assms(1) v have "distinct voters" "set voters = voters_for seen r bh"
    unfolding books_ok_def by (metis hm_get_or_def option.simps(5))+
  with voter_stake_power [OF assms(2,3), of voters env] sm assms(3) show ?thesis
    by (auto simp: has_supermajority_voters_def Let_def snap.quorum_def total_eligible_stake_def split: if_splits)
qed

lemma find_quorum_hash_quorum:
  assumes "books_ok s votes tally seen" "snapshot_ok s" "en_power_snapshot e = Some s"
    and "find_quorum_hash env e tally votes r = Some bh"
  shows "snap.quorum s (voters_for seen r (Some bh))"
proof -
  let ?P = "\<lambda>key. fst key = r \<and> snd key \<noteq> None \<and>
    has_supermajority_power env e (bucket_power env e tally votes key)"
  from assms(4) obtain key where k: "List.find ?P (hm_keys votes) = Some key" "snd key = Some bh"
    by (auto simp: find_quorum_hash_def split: option.splits)
  from k(1) have "?P key" by (auto simp only: find_Some_iff)
  with k(2) have "fst key = r" "snd key = Some bh"
    "has_supermajority_power env e (bucket_power env e tally votes key)" by auto
  then show ?thesis using bucket_quorum [OF assms(1-3), of env r "Some bh"] by (cases key) simp
qed

end
