(* ===== verification/Bft_Refinement.thy ===== *)
theory Bft_Refinement
  imports Bft_Invariant
begin

text \<open>
  The consensus engine implements the abstract Tendermint node. The handlers are sequences of
  the primitive updates \<open>eng_step\<close>; each of these preserves the engine invariant and is a
  sequence of local steps of the node the engine abstracts to.
\<close>

section \<open>Effect of recording votes\<close>

lemma record_own_prevote_sel:
  "en_keypair (record_own_prevote env bh e) = en_keypair e"
  "en_validator_pubkey (record_own_prevote env bh e) = en_validator_pubkey e"
  "en_signing_chain_id (record_own_prevote env bh e) = en_signing_chain_id e"
  "en_height (record_own_prevote env bh e) = en_height e"
  "en_round (record_own_prevote env bh e) = en_round e"
  "en_step (record_own_prevote env bh e) = en_step e"
  "en_locked_round (record_own_prevote env bh e) = en_locked_round e"
  "en_locked_value (record_own_prevote env bh e) = en_locked_value e"
  "en_valid_value (record_own_prevote env bh e) = en_valid_value e"
  "en_proposals (record_own_prevote env bh e) = en_proposals e"
  "en_proposal_blocks (record_own_prevote env bh e) = en_proposal_blocks e"
  "en_precommits (record_own_prevote env bh e) = en_precommits e"
  "en_precommit_power (record_own_prevote env bh e) = en_precommit_power e"
  "en_seen_precommits (record_own_prevote env bh e) = en_seen_precommits e"
  "en_seen_precommit_messages (record_own_prevote env bh e) = en_seen_precommit_messages e"
  "en_precommit_sigs (record_own_prevote env bh e) = en_precommit_sigs e"
  "en_signed_precommit_rounds (record_own_prevote env bh e) = en_signed_precommit_rounds e"
  "en_power_snapshot (record_own_prevote env bh e) = en_power_snapshot e"
  "en_signed_prevote_rounds (record_own_prevote env bh e) =
     hm_insert (en_round e) bh (en_signed_prevote_rounds e)"
  "en_seen_prevotes (record_own_prevote env bh e) =
     hm_insert (en_round e, en_validator_pubkey e) bh (en_seen_prevotes e)"
  "en_seen_prevote_messages (record_own_prevote env bh e) =
     hm_insert (en_round e, en_validator_pubkey e) (make_prevote env bh e) (en_seen_prevote_messages e)"
  "en_prevotes (record_own_prevote env bh e) = hm_push (en_round e, bh) (en_validator_pubkey e) (en_prevotes e)"
  "en_power_snapshot e = Some s \<Longrightarrow> en_prevote_power (record_own_prevote env bh e) =
     tally_add s (en_validator_pubkey e) (en_round e, bh) (en_prevote_power e)"
  by (auto simp: record_own_prevote_def Let_def add_prevote_power_def tally_add_def eligible_stake_def
      split: option.splits)

lemma record_own_precommit_sel:
  "en_keypair (record_own_precommit env bh e) = en_keypair e"
  "en_validator_pubkey (record_own_precommit env bh e) = en_validator_pubkey e"
  "en_signing_chain_id (record_own_precommit env bh e) = en_signing_chain_id e"
  "en_height (record_own_precommit env bh e) = en_height e"
  "en_round (record_own_precommit env bh e) = en_round e"
  "en_step (record_own_precommit env bh e) = en_step e"
  "en_locked_round (record_own_precommit env bh e) = en_locked_round e"
  "en_locked_value (record_own_precommit env bh e) = en_locked_value e"
  "en_valid_value (record_own_precommit env bh e) = en_valid_value e"
  "en_proposals (record_own_precommit env bh e) = en_proposals e"
  "en_proposal_blocks (record_own_precommit env bh e) = en_proposal_blocks e"
  "en_prevotes (record_own_precommit env bh e) = en_prevotes e"
  "en_prevote_power (record_own_precommit env bh e) = en_prevote_power e"
  "en_seen_prevotes (record_own_precommit env bh e) = en_seen_prevotes e"
  "en_seen_prevote_messages (record_own_precommit env bh e) = en_seen_prevote_messages e"
  "en_signed_prevote_rounds (record_own_precommit env bh e) = en_signed_prevote_rounds e"
  "en_power_snapshot (record_own_precommit env bh e) = en_power_snapshot e"
  "en_signed_precommit_rounds (record_own_precommit env bh e) =
     hm_insert (en_round e) bh (en_signed_precommit_rounds e)"
  "en_seen_precommits (record_own_precommit env bh e) =
     hm_insert (en_round e, en_validator_pubkey e) bh (en_seen_precommits e)"
  "en_seen_precommit_messages (record_own_precommit env bh e) =
     hm_insert (en_round e, en_validator_pubkey e) (make_precommit env bh e) (en_seen_precommit_messages e)"
  "en_precommit_sigs (record_own_precommit env bh e) =
     hm_insert (en_round e, en_validator_pubkey e) (pc_signature (make_precommit env bh e), env_now env)
       (en_precommit_sigs e)"
  "en_precommits (record_own_precommit env bh e) = hm_push (en_round e, bh) (en_validator_pubkey e) (en_precommits e)"
  "en_power_snapshot e = Some s \<Longrightarrow> en_precommit_power (record_own_precommit env bh e) =
     tally_add s (en_validator_pubkey e) (en_round e, bh) (en_precommit_power e)"
  by (auto simp: record_own_precommit_def Let_def add_precommit_power_def tally_add_def eligible_stake_def
      split: option.splits)

lemmas record_own_sels [simp] = record_own_prevote_sel(1-22) record_own_precommit_sel(1-22)

section \<open>Engine invariant\<close>

text \<open>
  The retained messages: every seen vote has its signed message (and, for a precommit, its
  signature and timestamp for the commit certificate), which verifies.
\<close>

definition messages_ok :: "crypto \<Rightarrow> engine \<Rightarrow> bool" where
  "messages_ok c e \<longleftrightarrow>
     (\<forall>r pk bh. hm_get (en_seen_prevotes e) (r, pk) = Some bh \<longrightarrow>
        (\<exists>m. hm_get (en_seen_prevote_messages e) (r, pk) = Some m \<and> pv_height m = en_height e \<and>
           pv_round m = r \<and> pv_validator m = pk \<and> pv_block_hash m = bh \<and>
           prevote_verify_signature_with_chain_id c (en_signing_chain_id e) m)) \<and>
     (\<forall>r pk bh. hm_get (en_seen_precommits e) (r, pk) = Some bh \<longrightarrow>
        (\<exists>m. hm_get (en_seen_precommit_messages e) (r, pk) = Some m \<and> pc_height m = en_height e \<and>
           pc_round m = r \<and> pc_validator m = pk \<and> pc_block_hash m = bh \<and>
           hm_get (en_precommit_sigs e) (r, pk) = Some (pc_signature m, pc_timestamp m) \<and>
           precommit_verify_signature_with_chain_id c (en_signing_chain_id e) m))"

text \<open>Known blocks are stored under their hash, and none hashes to all zeros.\<close>

definition blocks_ok :: "crypto \<Rightarrow> engine \<Rightarrow> bool" where
  "blocks_ok c e \<longleftrightarrow>
     (\<forall>bh blk. hm_get (en_proposal_blocks e) bh = Some blk \<longrightarrow> block_hash c blk = bh \<and> bh \<noteq> hash_default) \<and>
     (\<forall>blk. en_valid_value e = Some blk \<longrightarrow> block_hash c blk \<noteq> hash_default) \<and>
     (\<forall>r p. hm_get (en_proposals e) r = Some p \<longrightarrow> block_hash c (prop_block p) \<noteq> hash_default)"

definition own_votes_ok :: "engine \<Rightarrow> bool" where
  "own_votes_ok e \<longleftrightarrow>
     (\<forall>r. hm_get (en_seen_prevotes e) (r, en_validator_pubkey e) = hm_get (en_signed_prevote_rounds e) r) \<and>
     (\<forall>r. hm_get (en_seen_precommits e) (r, en_validator_pubkey e) = hm_get (en_signed_precommit_rounds e) r)"

definition engine_inv :: "crypto \<Rightarrow> power_snapshot \<Rightarrow> engine \<Rightarrow> bool" where
  "engine_inv c s e \<longleftrightarrow>
     en_power_snapshot e = Some s \<and> snapshot_ok s \<and> crypto_laws c \<and>
     keypair_pubkey c (en_keypair e) = en_validator_pubkey e \<and>
     books_ok s (en_prevotes e) (en_prevote_power e) (en_seen_prevotes e) \<and>
     books_ok s (en_precommits e) (en_precommit_power e) (en_seen_precommits e) \<and>
     (en_locked_round e = None \<longleftrightarrow> en_locked_value e = None) \<and>
     own_votes_ok e \<and> blocks_ok c e \<and> messages_ok c e"

lemma engine_invD:
  assumes "engine_inv c s e"
  shows "en_power_snapshot e = Some s" "snapshot_ok s" "crypto_laws c"
    "keypair_pubkey c (en_keypair e) = en_validator_pubkey e"
    "books_ok s (en_prevotes e) (en_prevote_power e) (en_seen_prevotes e)"
    "books_ok s (en_precommits e) (en_precommit_power e) (en_seen_precommits e)"
    "en_locked_round e = None \<longleftrightarrow> en_locked_value e = None"
    "own_votes_ok e" "blocks_ok c e" "messages_ok c e"
  using assms by (auto simp: engine_inv_def)

section \<open>Primitive updates\<close>

definition engine_may_prevote :: "bft_env \<Rightarrow> engine \<Rightarrow> hash option \<Rightarrow> bool" where
  "engine_may_prevote env e bh =
     (case bh of None \<Rightarrow> True
      | Some b \<Rightarrow> b \<noteq> hash_default \<and>
          (case en_locked_round e of None \<Rightarrow> True
           | Some lr \<Rightarrow> en_locked_value e = Some b \<or> (\<exists>vr > lr. has_polka_for env e vr (Some b))))"

inductive eng_step :: "bft_env \<Rightarrow> engine \<Rightarrow> engine \<Rightarrow> bool" for env where
  set_step: "eng_step env e (e\<lparr>en_step := st\<rparr>)"
| set_cache: "eng_step env e (e\<lparr>en_leader_cache := lc\<rparr>)"
| set_buffers: "eng_step env e (e\<lparr>en_future_prevotes := fp\<rparr>)"
| set_buffers': "eng_step env e (e\<lparr>en_future_precommits := fc\<rparr>)"
| set_timestamp: "eng_step env e (e\<lparr>en_last_committed_block_timestamp := ts\<rparr>)"
| set_valid_round: "eng_step env e (e\<lparr>en_valid_round := vr\<rparr>)"
| set_valid_value: "block_hash (env_crypto env) blk \<noteq> hash_default \<Longrightarrow>
    eng_step env e (e\<lparr>en_valid_value := Some blk\<rparr>)"
| store_proposal: "bh = block_hash (env_crypto env) (prop_block p) \<Longrightarrow> bh \<noteq> hash_default \<Longrightarrow>
    eng_step env e (e\<lparr>en_proposal_blocks := hm_insert bh (prop_block p) (en_proposal_blocks e),
      en_proposals := hm_insert r p (en_proposals e)\<rparr>)"
| new_round: "en_round e \<le> r \<Longrightarrow> eng_step env e (e\<lparr>en_round := r, en_step := Propose\<rparr>)"
| sign_prevote: "hm_get (en_signed_prevote_rounds e) (en_round e) = None \<Longrightarrow> engine_may_prevote env e bh \<Longrightarrow>
    eng_step env e (record_own_prevote env bh e)"
| set_lock: "has_supermajority_power env e (prevote_bucket_power env e (en_round e, Some bh)) \<Longrightarrow>
    eng_step env e (e\<lparr>en_locked_round := Some (en_round e), en_locked_value := Some bh\<rparr>)"
| sign_precommit: "hm_get (en_signed_precommit_rounds e) (en_round e) = None \<Longrightarrow>
    bh = None \<or> (\<exists>b. bh = Some b \<and> locked_state e = Some (en_round e, b)) \<Longrightarrow>
    eng_step env e (record_own_precommit env bh e)"

abbreviation eng_steps :: "bft_env \<Rightarrow> engine \<Rightarrow> engine \<Rightarrow> bool" where
  "eng_steps env \<equiv> (eng_step env)\<^sup>*\<^sup>*"

definition engine_static :: "engine \<Rightarrow> keypair \<times> pubkey \<times> string \<times> u64 \<times> power_snapshot option" where
  "engine_static e = (en_keypair e, en_validator_pubkey e, en_signing_chain_id e, en_height e, en_power_snapshot e)"

lemma eng_step_static: "eng_step env e e' \<Longrightarrow> engine_static e' = engine_static e"
  by (induction rule: eng_step.induct) (simp_all add: engine_static_def)

lemma eng_steps_static: "eng_steps env e e' \<Longrightarrow> engine_static e' = engine_static e"
  by (induction rule: rtranclp_induct) (auto dest: eng_step_static)

lemma engine_inv_frame:
  assumes "engine_inv c s e"
  shows "engine_inv c s (e\<lparr>en_step := st\<rparr>)" "engine_inv c s (e\<lparr>en_leader_cache := lc\<rparr>)"
    "engine_inv c s (e\<lparr>en_future_prevotes := fp\<rparr>)" "engine_inv c s (e\<lparr>en_future_precommits := fc\<rparr>)"
    "engine_inv c s (e\<lparr>en_last_committed_block_timestamp := ts\<rparr>)" "engine_inv c s (e\<lparr>en_valid_round := vr\<rparr>)"
    "engine_inv c s (e\<lparr>en_round := r, en_step := st\<rparr>)"
    "engine_inv c s (e\<lparr>en_locked_round := Some lr, en_locked_value := Some lb\<rparr>)"
  using assms by (simp_all add: engine_inv_def own_votes_ok_def blocks_ok_def messages_ok_def)

lemma prevote_made_verifies:
  assumes "engine_inv c s e" "env_crypto env = c"
  shows "prevote_verify_signature_with_chain_id c (en_signing_chain_id e) (make_prevote env bh e)"
    and "precommit_verify_signature_with_chain_id c (en_signing_chain_id e) (make_precommit env bh e)"
  using engine_invD(3,4) [OF assms(1)] assms(2)
  by (auto simp: prevote_verify_signature_with_chain_id_def precommit_verify_signature_with_chain_id_def
      make_prevote_def make_precommit_def dest: sym)

lemma make_sel [simp]:
  "pv_height (make_prevote env bh e) = en_height e" "pv_round (make_prevote env bh e) = en_round e"
  "pv_validator (make_prevote env bh e) = en_validator_pubkey e" "pv_block_hash (make_prevote env bh e) = bh"
  "pc_height (make_precommit env bh e) = en_height e" "pc_round (make_precommit env bh e) = en_round e"
  "pc_validator (make_precommit env bh e) = en_validator_pubkey e"
  "pc_block_hash (make_precommit env bh e) = bh" "pc_timestamp (make_precommit env bh e) = env_now env"
  by (simp_all add: make_prevote_def make_precommit_def)

lemma engine_inv_own_prevote:
  assumes inv: "engine_inv c s e" and env: "env_crypto env = c"
    and un: "hm_get (en_signed_prevote_rounds e) (en_round e) = None"
  shows "engine_inv c s (record_own_prevote env bh e)"
proof -
  note d = engine_invD [OF inv]
  from d(8) un have unseen: "hm_get (en_seen_prevotes e) (en_round e, en_validator_pubkey e) = None"
    by (simp add: own_votes_ok_def)
  have "messages_ok c (record_own_prevote env bh e)"
    using d(10) prevote_made_verifies(1) [OF inv env, of bh] by (simp add: messages_ok_def)
  with d books_ok_record [OF d(5) unseen d(2), of bh] show ?thesis
    by (simp add: engine_inv_def record_own_prevote_sel(23) [OF d(1)] own_votes_ok_def blocks_ok_def)
qed

lemma engine_inv_own_precommit:
  assumes inv: "engine_inv c s e" and env: "env_crypto env = c"
    and un: "hm_get (en_signed_precommit_rounds e) (en_round e) = None"
  shows "engine_inv c s (record_own_precommit env bh e)"
proof -
  note d = engine_invD [OF inv]
  from d(8) un have unseen: "hm_get (en_seen_precommits e) (en_round e, en_validator_pubkey e) = None"
    by (simp add: own_votes_ok_def)
  have "messages_ok c (record_own_precommit env bh e)"
    using d(10) prevote_made_verifies(2) [OF inv env, of bh] by (simp add: messages_ok_def)
  with d books_ok_record [OF d(6) unseen d(2), of bh] show ?thesis
    by (simp add: engine_inv_def record_own_precommit_sel(23) [OF d(1)] own_votes_ok_def blocks_ok_def)
qed

lemma eng_step_inv:
  assumes "eng_step env e e'" "engine_inv (env_crypto env) s e"
  shows "engine_inv (env_crypto env) s e'"
  using assms
proof (induction rule: eng_step.induct)
  case (store_proposal bh p e r)
  then show ?case by (simp add: engine_inv_def own_votes_ok_def blocks_ok_def messages_ok_def)
next
  case (set_valid_value blk e)
  then show ?case by (simp add: engine_inv_def own_votes_ok_def blocks_ok_def messages_ok_def)
qed (simp_all add: engine_inv_frame engine_inv_own_prevote engine_inv_own_precommit)

lemma eng_steps_inv:
  "eng_steps env e e' \<Longrightarrow> engine_inv (env_crypto env) s e \<Longrightarrow> engine_inv (env_crypto env) s e'"
  by (induction rule: rtranclp_induct) (auto intro: eng_step_inv)

section \<open>Refinement of the abstract node\<close>

definition abs_node :: "engine \<Rightarrow> node" where
  "abs_node e = \<lparr>nd_round = en_round e, nd_lock = locked_state e,
     nd_pv = hm_get (en_signed_prevote_rounds e), nd_pc = hm_get (en_signed_precommit_rounds e),
     nd_pv_seen = hm_get (en_seen_prevotes e), nd_pc_seen = hm_get (en_seen_precommits e)\<rparr>"

lemma prevoters_abs: "prevoters (abs_node e) r b = voters_for (en_seen_prevotes e) r (Some b)"
  by (simp add: prevoters_def abs_node_def voters_for_def)

lemma precommitters_abs: "precommitters (abs_node e) r b = voters_for (en_seen_precommits e) r (Some b)"
  by (simp add: precommitters_def abs_node_def voters_for_def)

lemma may_prevote_abs:
  assumes "engine_inv c s e" "engine_may_prevote env e bh"
  shows "may_prevote (snap.quorum s) (abs_node e) bh"
proof -
  note d = engine_invD [OF assms(1)]
  have "has_polka_for env e r (Some b) \<Longrightarrow> snap.quorum s (prevoters (abs_node e) r b)" for r b
    using polka_quorum [OF d(5,2,1)] by (simp add: prevoters_abs)
  with assms(2) d(7) show ?thesis
    by (auto simp: engine_may_prevote_def may_prevote_def abs_node_def locked_state_def split: option.splits)
qed

lemma abs_frame:
  "abs_node (e\<lparr>en_step := st\<rparr>) = abs_node e" "abs_node (e\<lparr>en_leader_cache := lc\<rparr>) = abs_node e"
  "abs_node (e\<lparr>en_future_prevotes := fp\<rparr>) = abs_node e" "abs_node (e\<lparr>en_future_precommits := fc\<rparr>) = abs_node e"
  "abs_node (e\<lparr>en_last_committed_block_timestamp := ts\<rparr>) = abs_node e"
  "abs_node (e\<lparr>en_valid_round := vr\<rparr>) = abs_node e" "abs_node (e\<lparr>en_valid_value := vv\<rparr>) = abs_node e"
  "abs_node (e\<lparr>en_proposal_blocks := pb, en_proposals := ps\<rparr>) = abs_node e"
  "abs_node (e\<lparr>en_round := r\<rparr>) = (abs_node e)\<lparr>nd_round := r\<rparr>"
  "abs_node (e\<lparr>en_locked_round := Some lr, en_locked_value := Some lb\<rparr>) = (abs_node e)\<lparr>nd_lock := Some (lr, lb)\<rparr>"
  by (simp_all add: abs_node_def locked_state_def)

lemma abs_own_prevote:
  "abs_node (record_own_prevote env bh e) =
     (abs_node e)\<lparr>nd_pv := (nd_pv (abs_node e))(nd_round (abs_node e) \<mapsto> bh),
       nd_pv_seen := (nd_pv_seen (abs_node e))((nd_round (abs_node e), en_validator_pubkey e) \<mapsto> bh)\<rparr>"
  by (auto simp: abs_node_def locked_state_def fun_eq_iff)

lemma abs_own_precommit:
  "abs_node (record_own_precommit env bh e) =
     (abs_node e)\<lparr>nd_pc := (nd_pc (abs_node e))(nd_round (abs_node e) \<mapsto> bh),
       nd_pc_seen := (nd_pc_seen (abs_node e))((nd_round (abs_node e), en_validator_pubkey e) \<mapsto> bh)\<rparr>"
  by (auto simp: abs_node_def locked_state_def fun_eq_iff)

lemma eng_step_refines:
  assumes "eng_step env e e'" "engine_inv (env_crypto env) s e"
  shows "(local_step (snap.quorum s) (en_validator_pubkey e))\<^sup>*\<^sup>* (abs_node e) (abs_node e')"
  using assms
proof (induction rule: eng_step.induct)
  case (new_round e r)
  then show ?case
    unfolding abs_frame by (intro r_into_rtranclp local_step.advance) (simp add: abs_node_def)
next
  case (sign_prevote e bh)
  then show ?case
    unfolding abs_own_prevote
    by (intro r_into_rtranclp local_step.prevote may_prevote_abs) (auto simp: abs_node_def)
next
  case (set_lock e bh)
  note d = engine_invD [OF set_lock.prems]
  have "snap.quorum s (prevoters (abs_node e) (nd_round (abs_node e)) bh)"
    using set_lock.hyps bucket_quorum [OF d(5,2,1)] by (simp add: prevoters_abs) (simp add: abs_node_def)
  then show ?case
    unfolding abs_frame using local_step.lock [of "snap.quorum s" "abs_node e" bh]
    by (auto simp: abs_node_def)
next
  case (sign_precommit e bh)
  then show ?case
    unfolding abs_own_precommit
    by (intro r_into_rtranclp local_step.precommit) (auto simp: abs_node_def)
qed (simp_all add: abs_frame)

lemma eng_steps_refine:
  assumes "eng_steps env e e'" "engine_inv (env_crypto env) s e"
  shows "(local_step (snap.quorum s) (en_validator_pubkey e))\<^sup>*\<^sup>* (abs_node e) (abs_node e')"
  using assms
proof (induction rule: rtranclp_induct)
  case (step y z)
  have "en_validator_pubkey y = en_validator_pubkey e"
    using eng_steps_static [OF step.hyps(1)] by (simp add: engine_static_def)
  with step eng_step_refines [OF step.hyps(2) eng_steps_inv [OF step.hyps(1) step.prems]] show ?case
    by (simp add: rtranclp_trans)
qed simp

end
