(* ===== verification/Bft_Steps.thy ===== *)
theory Bft_Steps
  imports Bft_Refinement
begin

text \<open>
  Every handler of the engine is a sequence of primitive updates (after recording at most one
  received vote), and every block it hands over for commit carries a valid certificate: a quorum
  of distinct validators whose precommit signatures for this height, round and block verify.
\<close>

section \<open>Commits among the actions\<close>

fun commits_of :: "consensus_action \<Rightarrow> (u64 \<times> u32 \<times> block \<times> hash) list" where
  "commits_of (CommitBlock h r blk bh) = [(h, r, blk, bh)]"
| "commits_of (Multiple as) = concat (map commits_of as)"
| "commits_of _ = []"

definition certificate_ok :: "crypto \<Rightarrow> string \<Rightarrow> power_snapshot \<Rightarrow> u64 \<Rightarrow> u32 \<Rightarrow> hash \<Rightarrow> commit_signature list \<Rightarrow> bool" where
  "certificate_ok c chain_id s h r bh sigs \<longleftrightarrow>
     distinct (map cs_validator sigs) \<and> snap.quorum s (set (map cs_validator sigs)) \<and>
     (\<forall>sig \<in> set sigs. keypair_verify c (cs_validator sig)
        (precommit_signing_bytes_for_chain_id chain_id h r (Some bh) (cs_timestamp sig)) (cs_signature sig))"

definition commit_ok :: "crypto \<Rightarrow> power_snapshot \<Rightarrow> engine \<Rightarrow> u64 \<times> u32 \<times> block \<times> hash \<Rightarrow> bool" where
  "commit_ok c s e x = (case x of (h, r, blk, bh) \<Rightarrow>
     h = en_height e \<and> bh \<noteq> hash_default \<and> block_hash c blk = bh \<and> blk_commit_round blk = r \<and>
     snap.quorum s (voters_for (en_seen_precommits e) r (Some bh)) \<and>
     certificate_ok c (en_signing_chain_id e) s h r bh (blk_commit_signatures blk))"

lemma quorum_members: "snap.quorum s (A \<inter> fst ` set (ps_eligible_power s)) = snap.quorum s A"
  by (simp add: snap.quorum_def snap.power_of_def Int_assoc)

lemma pv_quorum_iff:
  "engine_inv c s e \<Longrightarrow> has_supermajority_power env e (prevote_bucket_power env e (r, bh)) \<longleftrightarrow>
     snap.quorum s (voters_for (en_seen_prevotes e) r bh)"
  by (rule bucket_quorum) (auto dest: engine_invD)

lemma pc_quorum_iff:
  "engine_inv c s e \<Longrightarrow> has_supermajority_power env e (precommit_bucket_power env e (r, bh)) \<longleftrightarrow>
     snap.quorum s (voters_for (en_seen_precommits e) r bh)"
  by (rule bucket_quorum) (auto dest: engine_invD)

lemma bucket_voters:
  assumes "engine_inv c s e" "hm_get (en_precommits e) (r, bh) = Some voters"
  shows "distinct voters" "set voters = voters_for (en_seen_precommits e) r bh"
proof -
  from assms(2) have v: "hm_get_or [] (en_precommits e) (r, bh) = voters" by (simp add: hm_get_or_def)
  from engine_invD(6) [OF assms(1)] show "distinct voters" "set voters = voters_for (en_seen_precommits e) r bh"
    unfolding books_ok_def v [symmetric] by blast+
qed

lemma seen_precommit_sig:
  assumes "engine_inv c s e" "hm_get (en_seen_precommits e) (r, pk) = Some bh"
  shows "\<exists>sig ts. hm_get (en_precommit_sigs e) (r, pk) = Some (sig, ts) \<and>
    keypair_verify c pk (precommit_signing_bytes_for_chain_id (en_signing_chain_id e) (en_height e) r bh ts) sig"
proof -
  from engine_invD(10) [OF assms(1)] assms(2) obtain m where
    "pc_height m = en_height e" "pc_round m = r" "pc_validator m = pk" "pc_block_hash m = bh"
    "hm_get (en_precommit_sigs e) (r, pk) = Some (pc_signature m, pc_timestamp m)"
    "precommit_verify_signature_with_chain_id c (en_signing_chain_id e) m"
    unfolding messages_ok_def by blast
  then show ?thesis by (auto simp: precommit_verify_signature_with_chain_id_def)
qed

lemma collect_validators:
  assumes "engine_inv c s e"
  shows "map cs_validator (collect_commit_signatures env e r bh) =
    filter (is_eligible_validator env e) (hm_get_or [] (en_precommits e) (r, Some bh))"
proof (cases "hm_get (en_precommits e) (r, Some bh)")
  case None
  then show ?thesis by (simp add: collect_commit_signatures_def hm_get_or_def)
next
  case (Some voters)
  have sig: "hm_get (en_precommit_sigs e) (r, pk) \<noteq> None" if "pk \<in> set voters" for pk
    using that seen_precommit_sig [OF assms, of r pk] bucket_voters(2) [OF assms Some]
    by (auto simp: voters_for_def)
  have "map cs_validator (List.map_filter (\<lambda>pk. map_option
      (\<lambda>(sig, ts). \<lparr>cs_validator = pk, cs_signature = sig, cs_timestamp = ts\<rparr>)
      (hm_get (en_precommit_sigs e) (r, pk))) vs) = vs" if "set vs \<subseteq> set voters" for vs
    using that sig by (induction vs) (auto simp: map_filter_simps split: option.splits)
  then show ?thesis
    using Some by (simp add: collect_commit_signatures_def hm_get_or_def)
qed

lemma collect_verifies:
  assumes "engine_inv c s e" "sig \<in> set (collect_commit_signatures env e r bh)"
  shows "keypair_verify c (cs_validator sig)
    (precommit_signing_bytes_for_chain_id (en_signing_chain_id e) (en_height e) r (Some bh) (cs_timestamp sig))
    (cs_signature sig)"
proof -
  from assms(2) obtain voters where v: "hm_get (en_precommits e) (r, Some bh) = Some voters"
    and mf: "sig \<in> set (List.map_filter (\<lambda>pk. map_option
      (\<lambda>(sig, ts). \<lparr>cs_validator = pk, cs_signature = sig, cs_timestamp = ts\<rparr>)
      (hm_get (en_precommit_sigs e) (r, pk))) (filter (is_eligible_validator env e) voters))"
    unfolding collect_commit_signatures_def by (cases "hm_get (en_precommits e) (r, Some bh)") auto
  then obtain pk sg ts where pk: "pk \<in> set voters" "hm_get (en_precommit_sigs e) (r, pk) = Some (sg, ts)"
    "sig = \<lparr>cs_validator = pk, cs_signature = sg, cs_timestamp = ts\<rparr>"
    by (fastforce simp: List.map_filter_def)
  with seen_precommit_sig [OF assms(1), of r pk "Some bh"] bucket_voters(2) [OF assms(1) v] show ?thesis
    by (auto simp: voters_for_def)
qed

lemma commit_ok_committed:
  assumes inv: "engine_inv c s e" and q: "snap.quorum s (voters_for (en_seen_precommits e) r (Some bh))"
    and blk: "hm_get (en_proposal_blocks e) bh = Some blk"
  shows "commit_ok c s e (en_height e, r, committed_block env e r bh blk, bh)"
proof -
  note d = engine_invD [OF inv]
  let ?sigs = "collect_commit_signatures env e r bh"
  let ?voters = "hm_get_or [] (en_precommits e) (r, Some bh)"
  have b: "distinct ?voters" "set ?voters = voters_for (en_seen_precommits e) r (Some bh)"
    using d(6) by (auto simp: books_ok_def)
  have el: "is_eligible_validator env e pk \<longleftrightarrow> pk \<in> fst ` set (ps_eligible_power s)" for pk
    using d(1) by (simp add: is_eligible_validator_def eligible_stake_def map_of_eq_None_iff)
  have "set (filter (is_eligible_validator env e) ?voters) =
      voters_for (en_seen_precommits e) r (Some bh) \<inter> fst ` set (ps_eligible_power s)"
    by (auto simp: el b(2) simp del: set_map)
  then have "snap.quorum s (set (filter (is_eligible_validator env e) ?voters))"
    using q by (simp only: quorum_members)
  then have "certificate_ok c (en_signing_chain_id e) s (en_height e) r bh ?sigs"
    using b(1) collect_verifies [OF inv, of _ env r bh]
    unfolding certificate_ok_def collect_validators [OF inv] by simp
  moreover have "block_hash c blk = bh" "bh \<noteq> hash_default" using d(9) blk by (auto simp: blocks_ok_def)
  ultimately show ?thesis
    using q by (simp add: commit_ok_def committed_block_def block_hash_def)
qed

section \<open>Monotonicity\<close>

lemma eng_step_mono:
  assumes "eng_step env e e'" "engine_inv (env_crypto env) s e"
  shows "en_round e \<le> en_round e' \<and> hm_get (en_seen_precommits e) \<subseteq>\<^sub>m hm_get (en_seen_precommits e')"
  using assms
proof (induction rule: eng_step.induct)
  case (sign_precommit e bh)
  then have "hm_get (en_seen_precommits e) (en_round e, en_validator_pubkey e) = None"
    by (simp add: engine_inv_def own_votes_ok_def)
  then show ?case by (auto simp: map_le_def)
qed auto

lemma eng_steps_mono:
  assumes "eng_steps env e e'" "engine_inv (env_crypto env) s e"
  shows "en_round e \<le> en_round e' \<and> hm_get (en_seen_precommits e) \<subseteq>\<^sub>m hm_get (en_seen_precommits e')"
  using assms
proof (induction rule: rtranclp_induct)
  case (step y z)
  with eng_step_mono [OF step.hyps(2) eng_steps_inv [OF step.hyps(1) step.prems]] show ?case
    by (auto intro: order_trans map_le_trans)
qed simp

lemma voters_for_mono: "hm_get m \<subseteq>\<^sub>m hm_get m' \<Longrightarrow> voters_for m r bh \<subseteq> voters_for m' r bh"
  by (auto simp: voters_for_def map_le_def dom_def)

lemma commit_ok_mono:
  assumes "commit_ok (env_crypto env) s e x" "eng_steps env e e'" "engine_inv (env_crypto env) s e"
  shows "commit_ok (env_crypto env) s e' x"
proof -
  have "en_height e' = en_height e" "en_signing_chain_id e' = en_signing_chain_id e"
    using eng_steps_static [OF assms(2)] by (simp_all add: engine_static_def)
  moreover have "snap.quorum s (voters_for (en_seen_precommits e) r bh) \<Longrightarrow>
      snap.quorum s (voters_for (en_seen_precommits e') r bh)" for r bh
    using snap.quorum_mono engine_invD(2) [OF assms(3)] voters_for_mono
      eng_steps_mono [OF assms(2,3)] by blast
  ultimately show ?thesis using assms(1) by (auto simp: commit_ok_def)
qed

text \<open>What a handler may do from an engine satisfying the invariant.\<close>

definition handles :: "bft_env \<Rightarrow> power_snapshot \<Rightarrow> engine \<Rightarrow> engine \<times> consensus_action \<Rightarrow> bool" where
  "handles env s e x \<longleftrightarrow> eng_steps env e (fst x) \<and>
     (\<forall>y \<in> set (commits_of (snd x)). commit_ok (env_crypto env) s (fst x) y)"

lemma handles_skip [simp]: "commits_of a = [] \<Longrightarrow> handles env s e (e, a)"
  by (simp add: handles_def)

lemma handles_step: "eng_steps env e e1 \<Longrightarrow> handles env s e1 x \<Longrightarrow> handles env s e x"
  by (auto simp: handles_def intro: rtranclp_trans)

lemma handles_quiet: "eng_steps env e e' \<Longrightarrow> commits_of a = [] \<Longrightarrow> handles env s e (e', a)"
  by (simp add: handles_def)

lemma handles_inv:
  "handles env s e x \<Longrightarrow> engine_inv (env_crypto env) s e \<Longrightarrow> engine_inv (env_crypto env) s (fst x)"
  by (auto simp: handles_def intro: eng_steps_inv)

text \<open>A sequence of handlers whose actions are collected.\<close>

lemma handles_seq:
  assumes "handles env s e (e1, a)" "handles env s e1 (e2, b)" "engine_inv (env_crypto env) s e"
    and "set (commits_of c) \<subseteq> set (commits_of a) \<union> set (commits_of b)"
  shows "handles env s e (e2, c)"
  using assms commit_ok_mono [of env s e1 _ e2] handles_inv [OF assms(1,3)]
  by (auto simp: handles_def intro: rtranclp_trans)

section \<open>Step changes, rounds and locks\<close>

lemma transition_to_sel [simp]:
  "en_round (transition_to st e) = en_round e" "en_height (transition_to st e) = en_height e"
  "en_power_snapshot (transition_to st e) = en_power_snapshot e"
  "en_proposal_blocks (transition_to st e) = en_proposal_blocks e"
  "en_seen_prevotes (transition_to st e) = en_seen_prevotes e"
  "en_seen_precommits (transition_to st e) = en_seen_precommits e"
  "en_signed_prevote_rounds (transition_to st e) = en_signed_prevote_rounds e"
  "en_signed_precommit_rounds (transition_to st e) = en_signed_precommit_rounds e"
  "locked_state (transition_to st e) = locked_state e"
  "en_validator_pubkey (transition_to st e) = en_validator_pubkey e"
  "en_locked_round (transition_to st e) = en_locked_round e"
  "en_locked_value (transition_to st e) = en_locked_value e"
  "en_prevotes (transition_to st e) = en_prevotes e"
  "en_min_validator_stake (transition_to st e) = en_min_validator_stake e"
  by (auto simp: transition_to_def locked_state_def split: option.splits)

lemma transition_to_steps [simp, intro]: "eng_steps env e (transition_to st e)"
  by (auto simp: transition_to_def intro: eng_step.set_step)

lemma transition_to_may_prevote [simp]:
  "engine_may_prevote env (transition_to st e) bh = engine_may_prevote env e bh"
proof -
  have "eligible_stake env (transition_to st e) = eligible_stake env e"
    by (rule ext) (auto simp: eligible_stake_def split: option.splits)
  then have "has_polka_for env (transition_to st e) r b = has_polka_for env e r b" for r b
    by (simp add: has_polka_for_def has_supermajority_voters_def voter_stake_def total_eligible_stake_def
        split: option.splits)
  then show ?thesis by (auto simp: engine_may_prevote_def split: option.splits)
qed

lemma start_round_handles:
  "en_round e \<le> r \<Longrightarrow> handles env s e (start_round r e)"
  by (auto simp: start_round_def Let_def intro!: handles_quiet eng_step.new_round)

lemma start_round_round [simp]: "en_round (fst (start_round r e)) = r"
  by (simp add: start_round_def Let_def)

lemma lock_on_sel [simp]:
  "en_round (lock_on bh r e) = en_round e" "en_height (lock_on bh r e) = en_height e"
  "en_signed_precommit_rounds (lock_on bh r e) = en_signed_precommit_rounds e"
  "locked_state (lock_on bh r e) = Some (r, bh)"
  by (simp_all add: lock_on_def Let_def locked_state_def transition_to_def split: option.splits)

lemma lock_on_steps:
  assumes inv: "engine_inv (env_crypto env) s e"
    and q: "snap.quorum s (voters_for (en_seen_prevotes e) (en_round e) (Some bh))"
  shows "eng_steps env e (lock_on bh (en_round e) e)"
proof -
  let ?e1 = "e\<lparr>en_valid_round := Some (en_round e)\<rparr>"
  define e2 where "e2 = (case hm_get (en_proposal_blocks ?e1) bh of
      Some blk \<Rightarrow> ?e1\<lparr>en_valid_value := Some blk\<rparr> | None \<Rightarrow> ?e1)"
  have s1: "eng_steps env e ?e1" by (auto intro: eng_step.set_valid_round)
  have s2: "eng_steps env ?e1 e2"
    using engine_invD(9) [OF inv]
    by (auto simp: e2_def blocks_ok_def split: option.splits intro!: r_into_rtranclp eng_step.set_valid_value)
  have inv2: "engine_inv (env_crypto env) s e2"
    using eng_steps_inv [OF s2 eng_steps_inv [OF s1 inv]] .
  have same: "en_round e2 = en_round e" "en_seen_prevotes e2 = en_seen_prevotes e"
    by (simp_all add: e2_def split: option.splits)
  let ?e3 = "e2\<lparr>en_locked_round := Some (en_round e), en_locked_value := Some bh\<rparr>"
  have "eng_step env e2 ?e3"
    using eng_step.set_lock [of env e2 bh] q same by (simp add: pv_quorum_iff [OF inv2])
  then have s3: "eng_steps env e2 (transition_to Precommit ?e3)"
    using transition_to_steps [of env ?e3 Precommit] by (rule converse_rtranclp_into_rtranclp)
  have "lock_on bh (en_round e) e = transition_to Precommit ?e3"
    by (simp add: lock_on_def Let_def e2_def)
  with s1 s2 s3 show ?thesis by (auto intro: rtranclp_trans)
qed

section \<open>Own votes\<close>

lemma wrapping_add32_Suc: "r + 1 < 2 ^ 32 \<Longrightarrow> wrapping_add32 r (Suc 0) = Suc r"
  by (simp add: wrapping_add32_def)

lemma do_precommit_handles:
  assumes inv: "engine_inv (env_crypto env) s e" and room: "en_round e + 1 < 2 ^ 32"
    and lk: "bh = None \<or> (\<exists>b. bh = Some b \<and> locked_state e = Some (en_round e, b))"
  shows "handles env s e (do_precommit env bh e) \<and> en_round (fst (do_precommit env bh e)) \<le> en_round e + 1"
proof (cases "hm_get (en_signed_precommit_rounds e) (en_round e)")
  case (Some x)
  then show ?thesis by (simp add: do_precommit_def hm_contains_def del: hm_contains_iff)
next
  case None
  let ?e1 = "record_own_precommit env bh e" and ?m = "BroadcastPrecommit (make_precommit env bh e)"
  have s1: "eng_steps env e ?e1" using eng_step.sign_precommit [OF None lk] by blast
  have i1: "engine_inv (env_crypto env) s ?e1" by (rule eng_steps_inv [OF s1 inv])
  show ?thesis
  proof (cases bh)
    case nil: None
    let ?x = "start_round (wrapping_add32 (en_round e) 1) ?e1"
    have x: "handles env s ?e1 ?x" by (rule start_round_handles) (use room in \<open>simp add: wrapping_add32_Suc\<close>)
    have "do_precommit env bh e = (if has_supermajority_power env ?e1 (precommit_bucket_power env ?e1 (en_round e, None))
        then (fst ?x, Multiple [?m, snd ?x]) else (?e1, ?m))"
      using None nil
      by (simp add: do_precommit_def hm_contains_def Let_def case_prod_unfold del: hm_contains_iff)
    moreover have "handles env s ?e1 (fst ?x, Multiple [?m, snd ?x])"
      using x by (simp add: handles_def)
    ultimately show ?thesis
      using s1 room by (auto intro: handles_step handles_quiet simp: wrapping_add32_Suc)
  next
    case (Some b)
    let ?e2 = "transition_to Commit ?e1"
    have i2: "engine_inv (env_crypto env) s ?e2" by (rule eng_steps_inv [OF _ i1]) simp
    show ?thesis
    proof (cases "has_supermajority_power env ?e1 (precommit_bucket_power env ?e1 (en_round e, Some b)) \<and>
        hm_get (en_proposal_blocks e) b \<noteq> None")
      case True
      then obtain blk where blk: "hm_get (en_proposal_blocks e) b = Some blk"
        and q: "snap.quorum s (voters_for (en_seen_precommits ?e1) (en_round e) (Some b))"
        unfolding pc_quorum_iff [OF i1] by auto
      let ?cb = "CommitBlock (en_height ?e2) (en_round e) (committed_block env ?e2 (en_round e) b blk) b"
      have "do_precommit env bh e = (?e2, Multiple [?m, ?cb])"
        using None Some True blk by (simp add: do_precommit_def hm_contains_def Let_def del: hm_contains_iff)
      moreover have "handles env s ?e1 (?e2, Multiple [?m, ?cb])"
        unfolding handles_def using commit_ok_committed [OF i2, of "en_round e" b blk env] q blk by simp
      ultimately show ?thesis using s1 by (auto intro: handles_step)
    next
      case False
      then have "do_precommit env bh e = (?e1, ?m)"
        using None Some
        by (auto simp: do_precommit_def hm_contains_def Let_def split: option.splits simp del: hm_contains_iff)
      then show ?thesis using s1 by (auto intro: handles_quiet)
    qed
  qed
qed

lemma do_prevote_handles:
  assumes inv: "engine_inv (env_crypto env) s e" and room: "en_round e + 1 < 2 ^ 32"
    and may: "engine_may_prevote env e bh"
  shows "handles env s e (do_prevote env bh e) \<and> en_round (fst (do_prevote env bh e)) \<le> en_round e + 1"
proof (cases "hm_get (en_signed_prevote_rounds e) (en_round e)")
  case (Some x)
  then show ?thesis by (simp add: do_prevote_def hm_contains_def del: hm_contains_iff)
next
  case None
  let ?e1 = "transition_to Prevote e"
  let ?e2 = "record_own_prevote env bh ?e1" and ?m = "BroadcastPrevote (make_prevote env bh ?e1)"
  define e3 where "e3 = (case bh of Some b \<Rightarrow> lock_on b (en_round e) ?e2 | None \<Rightarrow> transition_to Precommit ?e2)"
  have "eng_step env ?e1 ?e2" by (rule eng_step.sign_prevote) (use None may in simp_all)
  then have s2: "eng_steps env e ?e2" using rtranclp.rtrancl_into_rtrancl [OF transition_to_steps] by simp
  have i2: "engine_inv (env_crypto env) s ?e2" by (rule eng_steps_inv [OF s2 inv])
  let ?q = "has_supermajority_power env ?e2 (prevote_bucket_power env ?e2 (en_round e, bh))"
  have eq: "do_prevote env bh e = (if ?q then (fst (do_precommit env bh e3), Multiple [?m, snd (do_precommit env bh e3)])
      else (?e2, ?m))"
    using None
    by (cases bh)
      (simp_all add: do_prevote_def hm_contains_def Let_def case_prod_unfold e3_def del: hm_contains_iff)
  show ?thesis
  proof (cases ?q)
    case False
    with eq s2 show ?thesis by (auto intro: handles_quiet)
  next
    case True
    have r3: "en_round e3 = en_round e" by (simp add: e3_def split: option.splits)
    have q: "snap.quorum s (voters_for (en_seen_prevotes ?e2) (en_round ?e2) bh)"
      using True unfolding pv_quorum_iff [OF i2] by simp
    have s3: "eng_steps env ?e2 e3"
    proof (cases bh)
      case (Some b)
      with lock_on_steps [OF i2, of b] q show ?thesis by (simp add: e3_def)
    qed (simp add: e3_def)
    have "handles env s e3 (do_precommit env bh e3) \<and>
        en_round (fst (do_precommit env bh e3)) \<le> en_round e3 + 1"
      by (rule do_precommit_handles [OF eng_steps_inv [OF s3 i2]])
        (use room in \<open>auto simp: r3 e3_def split: option.splits\<close>)
    then show ?thesis
      using eq True s2 s3 r3 by (auto simp: handles_def intro: rtranclp_trans)
  qed
qed

end
