(* ===== verification/Bft_Events.thy ===== *)
theory Bft_Events
  imports Bft_Steps
begin

text \<open>
  The proposal, vote, timeout and round-skip handlers as sequences of primitive updates. Round
  numbers are \<open>u32\<close> and wrap; \<open>round_room\<close> says that the engine and the votes it has seen are
  far enough from the end of the range that one handler call cannot wrap.
\<close>

definition round_room :: "engine \<Rightarrow> bool" where
  "round_room e \<longleftrightarrow> en_round e + 101 < 2 ^ 32 \<and>
     (\<forall>k \<in> set (hm_keys (en_seen_prevotes e) @ hm_keys (en_seen_precommits e)). fst k + 101 < 2 ^ 32)"

lemma round_roomD: "round_room e \<Longrightarrow> en_round e + 1 < 2 ^ 32" "round_room e \<Longrightarrow> en_round e + 101 < 2 ^ 32"
  by (simp_all add: round_room_def)

section \<open>Proposals\<close>

lemma should_prevote_may:
  assumes "should_prevote_proposal_block env e p bh" "bh \<noteq> hash_default"
  shows "engine_may_prevote env e (Some bh)"
  using assms by (auto simp: should_prevote_proposal_block_def engine_may_prevote_def Let_def
      split: option.splits if_splits)

lemma may_prevote_nil [simp]: "engine_may_prevote env e None"
  by (simp add: engine_may_prevote_def)

lemma prevote_for_proposal_handles:
  assumes "engine_inv (env_crypto env) s e" "en_round e + 1 < 2 ^ 32"
    and "block_hash (env_crypto env) (prop_block p) \<noteq> hash_default"
  shows "handles env s e (prevote_for_current_round_proposal env p e) \<and>
    en_round (fst (prevote_for_current_round_proposal env p e)) \<le> en_round e + 1"
  using do_prevote_handles [OF assms(1,2)] should_prevote_may [OF _ assms(3)]
  by (auto simp: prevote_for_current_round_proposal_def Let_def)

lemma stored_proposal_hash:
  "engine_inv c s e \<Longrightarrow> hm_get (en_proposals e) r = Some p \<Longrightarrow> block_hash c (prop_block p) \<noteq> hash_default"
  by (auto simp: engine_inv_def blocks_ok_def)

lemma process_proposal_handles:
  assumes "engine_inv (env_crypto env) s e" "en_round e + 1 < 2 ^ 32"
  shows "handles env s e (process_current_round_proposal_if_present env e)"
  using prevote_for_proposal_handles [OF assms] stored_proposal_hash [OF assms(1)]
  by (auto simp: process_current_round_proposal_if_present_def split: option.splits)

lemma proposal_value_ok:
  assumes inv: "engine_inv (env_crypto env) s e"
    and fresh: "block_hash (env_crypto env) fresh \<noteq> hash_default"
    and pv: "proposal_value env fresh e = Some (blk, vr)"
  shows "block_hash (env_crypto env) blk \<noteq> hash_default \<and>
    (en_locked_round e = None \<or> en_locked_value e = Some (block_hash (env_crypto env) blk))"
proof -
  note b = engine_invD(9) [OF inv, unfolded blocks_ok_def] and lk = engine_invD(7) [OF inv]
  show ?thesis
  proof (cases "en_locked_value e")
    case None
    with pv lk b fresh show ?thesis by (auto simp: proposal_value_def split: option.splits)
  next
    case (Some lh)
    with pv b show ?thesis
      by (auto simp: proposal_value_def split: option.splits if_splits)
  qed
qed

lemma store_proposal_may:
  assumes "en_locked_round e = None \<or> en_locked_value e = Some bh" "bh \<noteq> hash_default"
  shows "engine_may_prevote env (e\<lparr>en_proposal_blocks := pb, en_proposals := ps\<rparr>) (Some bh)"
  using assms by (auto simp: engine_may_prevote_def split: option.splits)

lemma create_proposal_handles:
  assumes inv: "engine_inv (env_crypto env) s e" and room: "en_round e + 1 < 2 ^ 32"
    and fresh: "block_hash (env_crypto env) fresh \<noteq> hash_default"
  shows "handles env s e (create_proposal env fresh e)"
proof (cases "en_step e = Propose \<and> proposal_value env fresh e \<noteq> None")
  case False
  then show ?thesis by (auto simp: create_proposal_def split: option.splits)
next
  case True
  then obtain blk vr where pv: "proposal_value env fresh e = Some (blk, vr)" by auto
  let ?bh = "block_hash (env_crypto env) blk"
  define p where "p = \<lparr>prop_height = en_height e, prop_round = en_round e, prop_block = blk,
      prop_valid_round = vr, prop_proposer = en_validator_pubkey e,
      prop_signature = keypair_sign (env_crypto env) (en_keypair e)
        (proposal_signing_bytes_static_for_chain_id (en_signing_chain_id e) (en_height e) (en_round e) ?bh vr)\<rparr>"
  define e1 where "e1 = e\<lparr>en_proposal_blocks := hm_insert ?bh (prop_block p) (en_proposal_blocks e),
      en_proposals := hm_insert (en_round e) p (en_proposals e)\<rparr>"
  note ok = proposal_value_ok [OF inv fresh pv]
  have s1: "eng_steps env e e1"
    unfolding e1_def by (rule r_into_rtranclp, rule eng_step.store_proposal) (use ok in \<open>simp_all add: p_def\<close>)
  have "handles env s e1 (do_prevote env (Some ?bh) e1)"
    using do_prevote_handles [OF eng_steps_inv [OF s1 inv], of "Some ?bh"] ok room
    by (simp add: e1_def store_proposal_may)
  moreover have "create_proposal env fresh e =
      (fst (do_prevote env (Some ?bh) e1), Multiple [BroadcastProposal p, snd (do_prevote env (Some ?bh) e1)])"
    using True pv by (simp add: create_proposal_def Let_def case_prod_unfold e1_def p_def)
  ultimately have "handles env s e1 (create_proposal env fresh e)" by (simp add: handles_def)
  then show ?thesis by (rule handles_step [OF s1])
qed

lemma expected_leader_steps: "eng_steps env e (fst (expected_leader_cached env slot ph e))"
  by (auto simp: expected_leader_cached_def Let_def split: option.splits intro: eng_step.set_cache)

lemma expected_leader_sel [simp]:
  "en_round (fst (expected_leader_cached env slot ph e)) = en_round e"
  by (auto simp: expected_leader_cached_def Let_def split: option.splits)

lemma on_proposal_handles:
  assumes inv: "engine_inv (env_crypto env) s e" and room: "en_round e + 1 < 2 ^ 32"
    and nz: "block_hash (env_crypto env) (prop_block p) \<noteq> hash_default"
  shows "handles env s e (on_proposal env p e)"
proof -
  define x where "x = expected_leader_cached env (leader_selection_slot (en_height e) (prop_round p))
      (hdr_parent_hash (blk_header (prop_block p))) e"
  let ?e1 = "fst x"
  let ?e2 = "?e1\<lparr>en_proposal_blocks := hm_insert (block_hash (env_crypto env) (prop_block p)) (prop_block p)
        (en_proposal_blocks ?e1),
      en_proposals := hm_insert (prop_round p) p (en_proposals ?e1)\<rparr>"
  have s1: "eng_steps env e ?e1" unfolding x_def by (rule expected_leader_steps)
  have s2: "eng_steps env ?e1 ?e2"
    by (rule r_into_rtranclp, rule eng_step.store_proposal) (use nz in simp_all)
  have r2: "en_round ?e2 = en_round e" by (simp add: x_def)
  have "handles env s ?e2 (prevote_for_current_round_proposal env p ?e2)"
    using prevote_for_proposal_handles [OF eng_steps_inv [OF s2 eng_steps_inv [OF s1 inv]] _ nz] room r2 by simp
  with s1 s2 have h3: "handles env s e (prevote_for_current_round_proposal env p ?e2)"
    by (blast intro: handles_step rtranclp_trans)
  have h: "handles env s e (e, NoAction)" "handles env s e (?e1, NoAction)" "handles env s e (?e2, NoAction)"
    using s1 s2 by (auto intro: handles_quiet rtranclp_trans)
  have "on_proposal env p e \<in> {(e, NoAction), (?e1, NoAction), (?e2, NoAction),
      prevote_for_current_round_proposal env p ?e2}"
    unfolding on_proposal_def x_def [symmetric] Let_def case_prod_unfold by (simp split del: if_split split: if_splits)
  with h h3 show ?thesis by auto
qed

section \<open>Round skip\<close>

lemma catch_up_handles:
  assumes "engine_inv (env_crypto env) s e" "en_round e + n < 2 ^ 32"
  shows "eng_steps env e (fst (catch_up n env e)) \<and>
    (\<forall>a \<in> set (snd (catch_up n env e)). \<forall>y \<in> set (commits_of a). commit_ok (env_crypto env) s (fst (catch_up n env e)) y)"
  using assms
proof (induction n arbitrary: e)
  case (Suc n)
  then have room: "en_round e + 1 < 2 ^ 32" by simp
  show ?case
  proof (cases "hm_get (en_proposals e) (en_round e)")
    case (Some p)
    with prevote_for_proposal_handles [OF Suc.prems(1) room stored_proposal_hash [OF Suc.prems(1) Some]]
    show ?thesis by (simp add: Let_def case_prod_unfold handles_def)
  next
    case None
    let ?x = "do_prevote env None e"
    have h: "handles env s e ?x" "en_round (fst ?x) \<le> en_round e + 1"
      using do_prevote_handles [OF Suc.prems(1) room may_prevote_nil] by auto
    show ?thesis
    proof (cases "en_round (fst ?x) > en_round e")
      case False
      with None h show ?thesis by (simp add: Let_def case_prod_unfold handles_def)
    next
      case True
      have i: "engine_inv (env_crypto env) s (fst ?x)" by (rule handles_inv [OF h(1) Suc.prems(1)])
      note IH = Suc.IH [OF i]
      let ?y = "catch_up n env (fst ?x)"
      have st: "eng_steps env (fst ?x) (fst ?y)" using IH h(2) Suc.prems(2) by simp
      have eq: "catch_up (Suc n) env e = (fst ?y, snd ?x # snd ?y)"
        using None True by (simp add: Let_def case_prod_unfold)
      have "\<forall>y \<in> set (commits_of (snd ?x)). commit_ok (env_crypto env) s (fst ?y) y"
        using h(1) commit_ok_mono [OF _ st i] by (auto simp: handles_def)
      with IH h st Suc.prems(2) show ?thesis
        unfolding eq by (auto simp: handles_def intro: rtranclp_trans)
    qed
  qed
qed simp

lemma foldl_max_bound:
  "foldl max a xs = (a :: nat) \<or> foldl max a xs \<in> set xs" "a \<le> foldl max a xs"
  by (induction xs arbitrary: a) (auto simp: max_def, metis max.cobounded1 order_trans max_def)

lemma check_round_skip_handles:
  assumes inv: "engine_inv (env_crypto env) s e" and room: "round_room e"
  shows "handles env s e (check_round_skip env e)"
proof -
  let ?m = "foldl max (en_round e) (map fst (future_vote_keys e))"
  let ?e1 = "fst (start_round ?m e)"
  have m: "en_round e \<le> ?m" by (rule foldl_max_bound)
  have "\<forall>r \<in> set (map fst (future_vote_keys e)). r + 101 < 2 ^ 32"
    using room by (auto simp: round_room_def future_vote_keys_def)
  then have b: "?m + 101 < 2 ^ 32"
    using foldl_max_bound(1) [of "en_round e" "map fst (future_vote_keys e)"] round_roomD(2) [OF room] by metis
  have s1: "eng_steps env e ?e1" using start_round_handles [OF m] by (simp add: handles_def)
  let ?x = "catch_up 100 env ?e1"
  have c: "eng_steps env ?e1 (fst ?x)"
    "\<forall>a \<in> set (snd ?x). \<forall>y \<in> set (commits_of a). commit_ok (env_crypto env) s (fst ?x) y"
    using catch_up_handles [OF eng_steps_inv [OF s1 inv], of 100] b by auto
  have quiet: "commits_of (snd (start_round ?m e)) = []" by (simp add: start_round_def Let_def)
  let ?r = "(fst ?x, case snd ?x of [] \<Rightarrow> snd (start_round ?m e) | _ \<Rightarrow> Multiple (snd (start_round ?m e) # snd ?x))"
  have "handles env s ?e1 ?r"
    using c quiet by (auto simp: handles_def split: list.splits)
  then have "handles env s e ?r" by (rule handles_step [OF s1])
  moreover have "check_round_skip env e \<in> {(e, NoAction), ?r}"
    unfolding check_round_skip_def Let_def case_prod_unfold by simp
  ultimately show ?thesis by auto
qed

section \<open>Received votes\<close>

lemma record_prevote_sel [simp]:
  "en_keypair (record_prevote v p e) = en_keypair e"
  "en_validator_pubkey (record_prevote v p e) = en_validator_pubkey e"
  "en_signing_chain_id (record_prevote v p e) = en_signing_chain_id e"
  "en_height (record_prevote v p e) = en_height e" "en_round (record_prevote v p e) = en_round e"
  "en_step (record_prevote v p e) = en_step e"
  "en_locked_round (record_prevote v p e) = en_locked_round e"
  "en_locked_value (record_prevote v p e) = en_locked_value e"
  "en_valid_value (record_prevote v p e) = en_valid_value e" "en_proposals (record_prevote v p e) = en_proposals e"
  "en_proposal_blocks (record_prevote v p e) = en_proposal_blocks e"
  "en_precommits (record_prevote v p e) = en_precommits e"
  "en_precommit_power (record_prevote v p e) = en_precommit_power e"
  "en_seen_precommits (record_prevote v p e) = en_seen_precommits e"
  "en_seen_precommit_messages (record_prevote v p e) = en_seen_precommit_messages e"
  "en_precommit_sigs (record_prevote v p e) = en_precommit_sigs e"
  "en_signed_prevote_rounds (record_prevote v p e) = en_signed_prevote_rounds e"
  "en_signed_precommit_rounds (record_prevote v p e) = en_signed_precommit_rounds e"
  "en_power_snapshot (record_prevote v p e) = en_power_snapshot e"
  "en_seen_prevotes (record_prevote v p e) = hm_insert (pv_round v, pv_validator v) (pv_block_hash v) (en_seen_prevotes e)"
  "en_seen_prevote_messages (record_prevote v p e) = hm_insert (pv_round v, pv_validator v) v (en_seen_prevote_messages e)"
  "en_prevotes (record_prevote v p e) = hm_push (pv_round v, pv_block_hash v) (pv_validator v) (en_prevotes e)"
  "en_prevote_power (record_prevote v p e) = hm_add (pv_round v, pv_block_hash v) p (en_prevote_power e)"
  by (simp_all add: record_prevote_def add_prevote_power_def)

lemma record_precommit_sel [simp]:
  "en_keypair (record_precommit v p e) = en_keypair e"
  "en_validator_pubkey (record_precommit v p e) = en_validator_pubkey e"
  "en_signing_chain_id (record_precommit v p e) = en_signing_chain_id e"
  "en_height (record_precommit v p e) = en_height e" "en_round (record_precommit v p e) = en_round e"
  "en_step (record_precommit v p e) = en_step e"
  "en_locked_round (record_precommit v p e) = en_locked_round e"
  "en_locked_value (record_precommit v p e) = en_locked_value e"
  "en_valid_value (record_precommit v p e) = en_valid_value e" "en_proposals (record_precommit v p e) = en_proposals e"
  "en_proposal_blocks (record_precommit v p e) = en_proposal_blocks e"
  "en_prevotes (record_precommit v p e) = en_prevotes e"
  "en_prevote_power (record_precommit v p e) = en_prevote_power e"
  "en_seen_prevotes (record_precommit v p e) = en_seen_prevotes e"
  "en_seen_prevote_messages (record_precommit v p e) = en_seen_prevote_messages e"
  "en_signed_prevote_rounds (record_precommit v p e) = en_signed_prevote_rounds e"
  "en_signed_precommit_rounds (record_precommit v p e) = en_signed_precommit_rounds e"
  "en_power_snapshot (record_precommit v p e) = en_power_snapshot e"
  "en_seen_precommits (record_precommit v p e) =
     hm_insert (pc_round v, pc_validator v) (pc_block_hash v) (en_seen_precommits e)"
  "en_seen_precommit_messages (record_precommit v p e) =
     hm_insert (pc_round v, pc_validator v) v (en_seen_precommit_messages e)"
  "en_precommit_sigs (record_precommit v p e) =
     hm_insert (pc_round v, pc_validator v) (pc_signature v, pc_timestamp v) (en_precommit_sigs e)"
  "en_precommits (record_precommit v p e) = hm_push (pc_round v, pc_block_hash v) (pc_validator v) (en_precommits e)"
  "en_precommit_power (record_precommit v p e) = hm_add (pc_round v, pc_block_hash v) p (en_precommit_power e)"
  by (simp_all add: record_precommit_def add_precommit_power_def Let_def)

text \<open>A vote the engine records: for this height, validly signed, from an eligible validator not seen yet.\<close>

definition accepts_prevote :: "bft_env \<Rightarrow> engine \<Rightarrow> prevote \<Rightarrow> bool" where
  "accepts_prevote env e v \<longleftrightarrow> pv_height v = en_height e \<and>
     prevote_verify_signature_with_chain_id (env_crypto env) (en_signing_chain_id e) v \<and>
     eligible_stake env e (pv_validator v) \<noteq> None \<and>
     hm_get (en_seen_prevotes e) (pv_round v, pv_validator v) = None"

definition accepts_precommit :: "bft_env \<Rightarrow> engine \<Rightarrow> precommit \<Rightarrow> bool" where
  "accepts_precommit env e v \<longleftrightarrow> pc_height v = en_height e \<and>
     precommit_verify_signature_with_chain_id (env_crypto env) (en_signing_chain_id e) v \<and>
     eligible_stake env e (pc_validator v) \<noteq> None \<and>
     hm_get (en_seen_precommits e) (pc_round v, pc_validator v) = None \<and> en_step e \<noteq> Commit"

lemma engine_inv_record_prevote:
  assumes inv: "engine_inv (env_crypto env) s e" and acc: "accepts_prevote env e v"
    and p: "eligible_stake env e (pv_validator v) = Some p" and ne: "pv_validator v \<noteq> en_validator_pubkey e"
  shows "engine_inv (env_crypto env) s (record_prevote v p e)"
proof -
  note d = engine_invD [OF inv]
  have t: "hm_add k p (en_prevote_power e) = tally_add s (pv_validator v) k (en_prevote_power e)" for k
    using p d(1) by (simp add: tally_add_def eligible_stake_def)
  have "messages_ok (env_crypto env) (record_prevote v p e)"
    using d(10) acc by (simp add: messages_ok_def accepts_prevote_def)
  with d books_ok_record [OF d(5) _ d(2), of "pv_round v" "pv_validator v" "pv_block_hash v"] acc ne show ?thesis
    by (simp add: engine_inv_def own_votes_ok_def blocks_ok_def t accepts_prevote_def)
qed

lemma engine_inv_record_precommit:
  assumes inv: "engine_inv (env_crypto env) s e" and acc: "accepts_precommit env e v"
    and p: "eligible_stake env e (pc_validator v) = Some p" and ne: "pc_validator v \<noteq> en_validator_pubkey e"
  shows "engine_inv (env_crypto env) s (record_precommit v p e)"
proof -
  note d = engine_invD [OF inv]
  have t: "hm_add k p (en_precommit_power e) = tally_add s (pc_validator v) k (en_precommit_power e)" for k
    using p d(1) by (simp add: tally_add_def eligible_stake_def)
  have "messages_ok (env_crypto env) (record_precommit v p e)"
    using d(10) acc by (simp add: messages_ok_def accepts_precommit_def)
  with d books_ok_record [OF d(6) _ d(2), of "pc_round v" "pc_validator v" "pc_block_hash v"] acc ne show ?thesis
    by (simp add: engine_inv_def own_votes_ok_def blocks_ok_def t accepts_precommit_def)
qed

lemma abs_record_prevote:
  "abs_node (record_prevote v p e) = see_prevote (pv_round v) (pv_validator v) (pv_block_hash v) (abs_node e)"
  by (auto simp: abs_node_def see_prevote_def locked_state_def fun_eq_iff)

lemma abs_record_precommit:
  "abs_node (record_precommit v p e) = see_precommit (pc_round v) (pc_validator v) (pc_block_hash v) (abs_node e)"
  by (auto simp: abs_node_def see_precommit_def locked_state_def fun_eq_iff)

lemma pack_actions_commits: "set (commits_of (pack_actions as)) = (\<Union>a \<in> set as. set (commits_of a))"
  by (auto simp: pack_actions_def split: list.splits)

lemma run_skip_handles:
  assumes inv: "engine_inv (env_crypto env) s e" and room: "r > en_round e \<Longrightarrow> round_room e"
    and as: "\<forall>a \<in> set as. \<forall>y \<in> set (commits_of a). commit_ok (env_crypto env) s e y"
  shows "handles env s e (run_skip env r (e, as))"
proof (cases "r > en_round e")
  case False
  with as show ?thesis by (auto simp: run_skip_def handles_def pack_actions_commits)
next
  case True
  have h: "handles env s e (fst (check_round_skip env e), snd (check_round_skip env e))"
    using check_round_skip_handles [OF inv room [OF True]] by simp
  have a: "handles env s e (e, pack_actions as)" using as by (auto simp: handles_def pack_actions_commits)
  show ?thesis
    using True handles_seq [OF a h inv]
    by (auto simp: run_skip_def case_prod_unfold pack_actions_commits)
qed

lemma prevote_rules_other [simp]: "round \<noteq> en_round e \<Longrightarrow> prevote_rules env round e = (e, [])"
  by (simp add: prevote_rules_def prevote_rule_polka_def prevote_rule_nil_def prevote_rule_any_def)

text \<open>The first two rules: at most one precommit is signed.\<close>

definition rule_ok :: "bft_env \<Rightarrow> power_snapshot \<Rightarrow> engine \<Rightarrow> engine \<times> consensus_action list \<Rightarrow> bool" where
  "rule_ok env s e x \<longleftrightarrow> eng_steps env e (fst x) \<and>
     (\<forall>a \<in> set (snd x). \<forall>y \<in> set (commits_of a). commit_ok (env_crypto env) s (fst x) y)"

lemma rule_polka_ok:
  assumes inv: "engine_inv (env_crypto env) s e" and room: "en_round e + 1 < 2 ^ 32"
  shows "rule_ok env s e (prevote_rule_polka env (en_round e) e)"
proof (cases "en_step e = Prevote \<and>
    find_quorum_hash env e (en_prevote_power e) (en_prevotes e) (en_round e) \<noteq> None")
  case False
  then show ?thesis by (auto simp: prevote_rule_polka_def rule_ok_def split: option.splits)
next
  case True
  then obtain bh where f: "find_quorum_hash env e (en_prevote_power e) (en_prevotes e) (en_round e) = Some bh" by auto
  note d = engine_invD [OF inv]
  let ?e1 = "lock_on bh (en_round e) e"
  have s1: "eng_steps env e ?e1"
    by (rule lock_on_steps [OF inv find_quorum_hash_quorum [OF d(5,2,1) f]])
  have "handles env s ?e1 (do_precommit env (Some bh) ?e1)"
    using do_precommit_handles [OF eng_steps_inv [OF s1 inv], of "Some bh"] room by simp
  with s1 True f show ?thesis
    by (auto simp: prevote_rule_polka_def rule_ok_def handles_def case_prod_unfold intro: rtranclp_trans)
qed

lemma rule_nil_ok:
  assumes inv: "engine_inv (env_crypto env) s e" and room: "round = en_round e \<Longrightarrow> en_round e + 1 < 2 ^ 32"
  shows "rule_ok env s e (prevote_rule_nil env round e)"
proof (cases "round = en_round e")
  case True
  let ?e1 = "transition_to Precommit e"
  have "handles env s ?e1 (do_precommit env None ?e1)"
    using do_precommit_handles [of env s ?e1 None] eng_steps_inv [OF transition_to_steps inv] room [OF True] by simp
  then have "handles env s e (do_precommit env None ?e1)" by (rule handles_step [rotated]) simp
  then show ?thesis by (auto simp: prevote_rule_nil_def rule_ok_def handles_def case_prod_unfold)
qed (simp add: prevote_rule_nil_def rule_ok_def)

lemma prevote_rules_ok:
  assumes inv: "engine_inv (env_crypto env) s e" and room: "en_round e + 1 < 2 ^ 32"
  shows "rule_ok env s e (prevote_rules env round e)"
proof (cases "round = en_round e")
  case False
  then show ?thesis by (simp add: rule_ok_def)
next
  case True
  let ?x = "prevote_rule_polka env round e"
  let ?y = "prevote_rule_nil env round (fst ?x)"
  have x: "rule_ok env s e ?x" using rule_polka_ok [OF inv room] True by simp
  then have i: "engine_inv (env_crypto env) s (fst ?x)" using eng_steps_inv [OF _ inv] by (simp add: rule_ok_def)
  have y: "rule_ok env s (fst ?x) ?y" by (rule rule_nil_ok [OF i]) (use room True in simp)
  have "prevote_rules env round e = (fst ?y, snd ?x @ snd ?y @ prevote_rule_any env round (fst ?y))"
    by (simp add: prevote_rules_def case_prod_unfold)
  moreover have "\<forall>a \<in> set (prevote_rule_any env round e'). commits_of a = []" for e'
    by (simp add: prevote_rule_any_def)
  moreover have "commit_ok (env_crypto env) s (fst ?y) z" if "commit_ok (env_crypto env) s (fst ?x) z" for z
    using commit_ok_mono [OF that _ i] y by (simp add: rule_ok_def)
  ultimately show ?thesis
    using x y by (fastforce simp: rule_ok_def intro: rtranclp_trans)
qed

lemma buffer_steps:
  "eng_steps env e (e\<lparr>en_future_prevotes := fp\<rparr>)" "eng_steps env e (e\<lparr>en_future_precommits := fc\<rparr>)"
  by (auto intro: eng_step.set_buffers eng_step.set_buffers')

lemma on_prevote_quiet:
  assumes "\<not> accepts_prevote env e v"
  shows "eng_steps env e (fst (on_prevote env v e)) \<and> commits_of (snd (on_prevote env v e)) = []"
proof (cases "pv_height v = en_height e \<and>
    prevote_verify_signature_with_chain_id (env_crypto env) (en_signing_chain_id e) v")
  case False
  then show ?thesis by (simp add: on_prevote_def buffer_steps)
next
  case True
  with assms show ?thesis
    by (auto simp: on_prevote_def accepts_prevote_def split: option.splits)
qed

lemma on_precommit_quiet:
  assumes "\<not> accepts_precommit env e v"
  shows "eng_steps env e (fst (on_precommit env v e)) \<and> commits_of (snd (on_precommit env v e)) = []"
proof (cases "pc_height v = en_height e \<and>
    precommit_verify_signature_with_chain_id (env_crypto env) (en_signing_chain_id e) v")
  case False
  then show ?thesis by (simp add: on_precommit_def buffer_steps)
next
  case True
  with assms show ?thesis
    by (auto simp: on_precommit_def accepts_precommit_def split: option.splits)
qed

lemma on_prevote_handles:
  assumes inv: "engine_inv (env_crypto env) s e" and room: "round_room e" "pv_round v + 101 < 2 ^ 32"
    and own: "accepts_prevote env e v \<Longrightarrow> pv_validator v \<noteq> en_validator_pubkey e"
  shows "handles env s e (on_prevote env v e) \<or>
    (accepts_prevote env e v \<and> (\<exists>p. engine_inv (env_crypto env) s (record_prevote v p e) \<and>
       handles env s (record_prevote v p e) (on_prevote env v e)))"
proof (cases "accepts_prevote env e v")
  case False
  then have "handles env s e (on_prevote env v e)"
    using on_prevote_quiet by (metis handles_quiet prod.collapse)
  then show ?thesis ..
next
  case True
  then obtain p where p: "eligible_stake env e (pv_validator v) = Some p" by (auto simp: accepts_prevote_def)
  let ?e1 = "record_prevote v p e" and ?r = "pv_round v"
  let ?x = "prevote_rules env ?r ?e1"
  have i1: "engine_inv (env_crypto env) s ?e1" by (rule engine_inv_record_prevote [OF inv True p own [OF True]])
  have x: "rule_ok env s ?e1 ?x" by (rule prevote_rules_ok [OF i1]) (use round_roomD(1) [OF room(1)] in simp)
  have ix: "engine_inv (env_crypto env) s (fst ?x)" using eng_steps_inv [OF _ i1] x by (simp add: rule_ok_def)
  have mono: "en_round ?e1 \<le> en_round (fst ?x)" using eng_steps_mono [OF _ i1] x by (auto simp: rule_ok_def)
  have rr: "round_room (fst ?x)" if "?r > en_round (fst ?x)"
  proof -
    from that mono have "?x = (?e1, [])" by simp
    with room show ?thesis by (auto simp: round_room_def)
  qed
  have "handles env s (fst ?x) (run_skip env ?r ?x)"
    using run_skip_handles [OF ix rr, of ?r "snd ?x"] x by (simp add: rule_ok_def)
  then have "handles env s ?e1 (run_skip env ?r ?x)"
    using x by (auto simp: rule_ok_def intro: handles_step)
  moreover have "on_prevote env v e = run_skip env ?r ?x"
    using True p by (simp add: on_prevote_def accepts_prevote_def)
  ultimately show ?thesis using True i1 by auto
qed

lemma precommit_rules_handles:
  assumes inv: "engine_inv (env_crypto env) s e" and room: "round_room e"
    and as: "\<forall>a \<in> set as. commits_of a = []"
  shows "handles env s e (precommit_rules env r as e)"
proof (cases "r = en_round e \<and> has_supermajority_power env e (precommit_bucket_power env e (r, None))")
  case True
  then have "precommit_rules env r as e = start_round (wrapping_add32 r 1) e"
    unfolding precommit_rules_def by (rule if_P)
  moreover have "en_round e \<le> wrapping_add32 r 1"
    using True round_roomD(1) [OF room] by (simp add: wrapping_add32_Suc)
  ultimately show ?thesis by (metis start_round_handles)
next
  case False
  then show ?thesis
    unfolding precommit_rules_def if_not_P [OF False] using as by (intro run_skip_handles [OF inv room]) auto
qed

lemma precommit_commit_rule_handles:
  assumes inv: "engine_inv (env_crypto env) s e" and room: "round_room e"
  shows "handles env s e (precommit_commit_rule env r e)"
proof (cases "find_quorum_hash env e (en_precommit_power e) (en_precommits e) r")
  case None
  then show ?thesis by (simp add: precommit_commit_rule_def precommit_rules_handles [OF inv room])
next
  case (Some bh)
  show ?thesis
  proof (cases "hm_get (en_proposal_blocks e) bh")
    case None
    with Some show ?thesis by (simp add: precommit_commit_rule_def precommit_rules_handles [OF inv room])
  next
    case blk: (Some blk)
    note d = engine_invD [OF inv]
    let ?e1 = "transition_to Commit e"
    let ?e2 = "?e1\<lparr>en_last_committed_block_timestamp := Some (hdr_timestamp (blk_header blk))\<rparr>"
    have s2: "eng_steps env e ?e2"
      using rtranclp.rtrancl_into_rtrancl [OF transition_to_steps eng_step.set_timestamp] .
    have "commit_ok (env_crypto env) s ?e2 (en_height ?e2, r, committed_block env ?e2 r bh blk, bh)"
      by (rule commit_ok_committed [OF eng_steps_inv [OF s2 inv]])
        (use find_quorum_hash_quorum [OF d(6,2,1) Some] blk in simp_all)
    with s2 Some blk show ?thesis by (simp add: precommit_commit_rule_def handles_def Let_def)
  qed
qed

lemma on_precommit_handles:
  assumes inv: "engine_inv (env_crypto env) s e" and room: "round_room e" "pc_round v + 101 < 2 ^ 32"
    and own: "accepts_precommit env e v \<Longrightarrow> pc_validator v \<noteq> en_validator_pubkey e"
  shows "handles env s e (on_precommit env v e) \<or>
    (accepts_precommit env e v \<and> (\<exists>p. engine_inv (env_crypto env) s (record_precommit v p e) \<and>
       handles env s (record_precommit v p e) (on_precommit env v e)))"
proof (cases "accepts_precommit env e v")
  case False
  then have "handles env s e (on_precommit env v e)"
    using on_precommit_quiet by (metis handles_quiet prod.collapse)
  then show ?thesis ..
next
  case True
  then obtain p where p: "eligible_stake env e (pc_validator v) = Some p" by (auto simp: accepts_precommit_def)
  let ?e1 = "record_precommit v p e"
  have i1: "engine_inv (env_crypto env) s ?e1" by (rule engine_inv_record_precommit [OF inv True p own [OF True]])
  have "round_room ?e1" using room by (auto simp: round_room_def)
  from precommit_commit_rule_handles [OF i1 this]
  have "handles env s ?e1 (precommit_commit_rule env (pc_round v) ?e1)" .
  moreover have "on_precommit env v e = precommit_commit_rule env (pc_round v) ?e1"
    using True p by (simp add: on_precommit_def accepts_precommit_def)
  ultimately show ?thesis using True i1 by auto
qed

section \<open>Timeouts\<close>

lemma on_timeout_handles:
  assumes inv: "engine_inv (env_crypto env) s e" and room: "round_room e"
  shows "handles env s e (on_timeout env step r e)"
proof -
  note rm = round_roomD(1) [OF room]
  have "handles env s (transition_to Precommit e) (do_precommit env None (transition_to Precommit e))"
    using do_precommit_handles [of env s "transition_to Precommit e" None] eng_steps_inv [OF transition_to_steps inv] rm
    by simp
  then have 1: "handles env s e (do_precommit env None (transition_to Precommit e))"
    by (rule handles_step [rotated]) simp
  have 2: "handles env s e (start_round (wrapping_add32 (en_round e) 1) e)"
    by (rule start_round_handles) (use rm in \<open>simp add: wrapping_add32_Suc\<close>)
  have 3: "handles env s e (do_prevote env None e)" using do_prevote_handles [OF inv rm] by simp
  show ?thesis using 1 2 3 by (auto simp: on_timeout_def split: round_step.splits)
qed

end
