(* ===== verification/Bft_Agreement.thy ===== *)
theory Bft_Agreement
  imports Bft_Events
begin

text \<open>
  Systems of honest validators running the engine at one height, with an adversary that controls
  the network and every other validator. Agreement follows from the abstract specification
  through the refinement of the handlers.
\<close>

section \<open>Events and runs\<close>

datatype bft_event =
    Ev_propose block
  | Ev_proposal proposal
  | Ev_replay
  | Ev_prevote prevote
  | Ev_precommit precommit
  | Ev_timeout round_step u32

fun handle :: "bft_env \<Rightarrow> bft_event \<Rightarrow> engine \<Rightarrow> engine \<times> consensus_action" where
  "handle env (Ev_propose blk) e = create_proposal env blk e"
| "handle env (Ev_proposal p) e = on_proposal env p e"
| "handle env Ev_replay e = process_current_round_proposal_if_present env e"
| "handle env (Ev_prevote v) e = on_prevote env v e"
| "handle env (Ev_precommit v) e = on_precommit env v e"
| "handle env (Ev_timeout st r) e = on_timeout env st r e"

text \<open>
  What may be delivered to validator \<open>v\<close>: blocks whose hash is not all zeros (a preimage the
  hash function is trusted not to have), and votes that are unforgeable: a vote for this height
  that verifies under the key of an honest validator has the signed bytes of a vote which that
  validator's engine has signed. Votes of other validators are unrestricted, except that their
  rounds stay clear of the end of the \<open>u32\<close> range.
\<close>

definition event_ok :: "bft_env \<Rightarrow> pubkey set \<Rightarrow> (pubkey \<Rightarrow> engine) \<Rightarrow> pubkey \<Rightarrow> bft_event \<Rightarrow> bool" where
  "event_ok env H E v ev =
     (case ev of
        Ev_propose blk \<Rightarrow> block_hash (env_crypto env) blk \<noteq> hash_default
      | Ev_proposal p \<Rightarrow> block_hash (env_crypto env) (prop_block p) \<noteq> hash_default
      | Ev_replay \<Rightarrow> True
      | Ev_prevote m \<Rightarrow> pv_round m + 101 < 2 ^ 32 \<and>
          (pv_height m = en_height (E v) \<longrightarrow>
           prevote_verify_signature_with_chain_id (env_crypto env) (en_signing_chain_id (E v)) m \<longrightarrow>
           pv_validator m \<in> H \<longrightarrow>
           authentic (hm_get (en_signed_prevote_rounds (E (pv_validator m)))) (pv_round m) (pv_block_hash m))
      | Ev_precommit m \<Rightarrow> pc_round m + 101 < 2 ^ 32 \<and>
          (pc_height m = en_height (E v) \<longrightarrow>
           precommit_verify_signature_with_chain_id (env_crypto env) (en_signing_chain_id (E v)) m \<longrightarrow>
           pc_validator m \<in> H \<longrightarrow>
           authentic (hm_get (en_signed_precommit_rounds (E (pc_validator m)))) (pc_round m) (pc_block_hash m))
      | Ev_timeout _ _ \<Rightarrow> True)"

text \<open>An engine entering a height: \<open>start_height\<close> and then the snapshot of the frozen sets.\<close>

definition entered :: "bft_env \<Rightarrow> u64 \<Rightarrow> string \<Rightarrow> u64 \<Rightarrow> pubkey \<Rightarrow> engine \<Rightarrow> bool" where
  "entered env min_stake chain_id h v e \<longleftrightarrow>
     (\<exists>e0. e = rebuild_power_snapshot env (start_height h e0) \<and> en_validator_pubkey e0 = v \<and>
        en_signing_chain_id e0 = chain_id \<and> en_min_validator_stake e0 = min_stake \<and>
        keypair_pubkey (env_crypto env) (en_keypair e0) = v)"

abbreviation height_snapshot :: "bft_env \<Rightarrow> u64 \<Rightarrow> power_snapshot" where
  "height_snapshot env min_stake \<equiv> snapshot_build (env_validator_set env) (env_stake_pool env) min_stake"

text \<open>
  The reachable states of the honest validators \<open>H\<close> and the blocks they have committed. The
  clock and the validator set passed to a handler may differ from call to call: voting power is
  read from the snapshot taken on entering the height.
\<close>

inductive bft_run ::
  "bft_env \<Rightarrow> u64 \<Rightarrow> string \<Rightarrow> u64 \<Rightarrow> pubkey set \<Rightarrow> (pubkey \<Rightarrow> engine) \<Rightarrow> (pubkey \<times> u32 \<times> hash) set \<Rightarrow> bool"
  for env0 min_stake chain_id h H where
  bft_start: "(\<And>v. v \<in> H \<Longrightarrow> entered env0 min_stake chain_id h v (E v)) \<Longrightarrow>
    bft_run env0 min_stake chain_id h H E {}"
| bft_event: "bft_run env0 min_stake chain_id h H E C \<Longrightarrow> v \<in> H \<Longrightarrow> env_crypto env = env_crypto env0 \<Longrightarrow>
    round_room (E v) \<Longrightarrow> event_ok env H E v ev \<Longrightarrow> handle env ev (E v) = (e', a) \<Longrightarrow>
    bft_run env0 min_stake chain_id h H (E(v := e')) (C \<union> (\<lambda>(_, r, _, bh). (v, r, bh)) ` set (commits_of a))"

definition byzantine_power :: "power_snapshot \<Rightarrow> pubkey set \<Rightarrow> u128" where
  "byzantine_power s H = hm_sum id (filter (\<lambda>(v, _). v \<notin> H) (ps_eligible_power s))"

section \<open>From engines to nodes\<close>

definition abs_sys :: "pubkey set \<Rightarrow> (pubkey \<Rightarrow> engine) \<Rightarrow> pubkey \<Rightarrow> node" where
  "abs_sys H E v = (if v \<in> H then abs_node (E v) else node_init)"

definition run_ok :: "crypto \<Rightarrow> string \<Rightarrow> u64 \<Rightarrow> power_snapshot \<Rightarrow> pubkey set \<Rightarrow> (pubkey \<Rightarrow> engine) \<Rightarrow> (pubkey \<times> u32 \<times> hash) set \<Rightarrow> bool" where
  "run_ok c ch h s H E C \<longleftrightarrow>
     (\<forall>v \<in> H. engine_inv c s (E v) \<and> en_validator_pubkey (E v) = v \<and> en_height (E v) = h \<and>
        en_signing_chain_id (E v) = ch) \<and>
     (sys_step (snap.quorum s) H)\<^sup>*\<^sup>* (\<lambda>_. node_init) (abs_sys H E) \<and>
     (\<forall>(v, r, bh) \<in> C. v \<in> H \<and> bh \<noteq> hash_default \<and>
        snap.quorum s (voters_for (en_seen_precommits (E v)) r (Some bh)))"

lemma entered_sel:
  assumes "entered env ms ch h v e"
  shows "en_round e = 0" "en_seen_prevotes e = []" "en_seen_precommits e = []" "en_signed_prevote_rounds e = []"
    "en_signed_precommit_rounds e = []" "locked_state e = None" "en_validator_pubkey e = v"
    "en_power_snapshot e = Some (height_snapshot env ms)" "keypair_pubkey (env_crypto env) (en_keypair e) = v"
    "en_locked_round e = None" "en_locked_value e = None" "en_valid_value e = None" "en_proposals e = []"
    "en_proposal_blocks e = []" "en_prevotes e = []" "en_precommits e = []" "en_prevote_power e = []"
    "en_precommit_power e = []" "en_step e = Propose" "en_height e = h" "en_signing_chain_id e = ch"
  using assms
  by (auto simp: entered_def rebuild_power_snapshot_def rebuild_vote_power_tallies_def start_height_def Let_def
      tally_votes_def locked_state_def)

lemma entered_inv:
  assumes "entered env ms ch h v e" "crypto_laws (env_crypto env)" "snapshot_ok (height_snapshot env ms)"
  shows "engine_inv (env_crypto env) (height_snapshot env ms) e" "abs_node e = node_init"
  using assms(2,3)
  by (simp_all add: engine_inv_def entered_sel [OF assms(1)] books_ok_empty own_votes_ok_def blocks_ok_def
      messages_ok_def abs_node_def node_init_def fun_eq_iff)

lemma local_steps_lift:
  assumes "(local_step Q v)\<^sup>*\<^sup>* n n'" "v \<in> H"
  shows "(sys_step Q H)\<^sup>*\<^sup>* (N(v := n)) (N(v := n'))"
  using assms(1)
proof (induction rule: rtranclp_induct)
  case (step y z)
  have "sys_step Q H (N(v := y)) ((N(v := y))(v := z))"
    by (rule sys_step.local) (use assms(2) step.hyps(2) in simp_all)
  then have "sys_step Q H (N(v := y)) (N(v := z))" by (simp only: fun_upd_upd)
  with step.IH show ?case by (meson rtranclp.rtrancl_into_rtrancl)
qed simp

lemma abs_sys_upd: "v \<in> H \<Longrightarrow> abs_sys H (E(v := e)) = (abs_sys H E)(v := abs_node e)"
  by (auto simp: abs_sys_def)

lemma handles_lift:
  assumes h: "handles env s e1 x" and inv: "engine_inv (env_crypto env) s e1"
    and v: "en_validator_pubkey e1 = v" "v \<in> H"
  shows "(sys_step (snap.quorum s) H)\<^sup>*\<^sup>* (N(v := abs_node e1)) (N(v := abs_node (fst x)))"
    and "en_validator_pubkey (fst x) = v"
proof -
  from h have st: "eng_steps env e1 (fst x)" by (simp add: handles_def)
  show "(sys_step (snap.quorum s) H)\<^sup>*\<^sup>* (N(v := abs_node e1)) (N(v := abs_node (fst x)))"
    using local_steps_lift [OF eng_steps_refine [OF st inv]] v by blast
  show "en_validator_pubkey (fst x) = v"
    using eng_steps_static [OF st] v(1) by (simp add: engine_static_def)
qed

text \<open>The effect of one event on an honest engine, seen by the abstract system.\<close>

lemma event_lift:
  assumes ok: "run_ok (env_crypto env) ch h s H E C" and v: "v \<in> H" and room: "round_room (E v)"
    and ev: "event_ok env H E v ev"
  shows "\<exists>e1. engine_inv (env_crypto env) s e1 \<and> engine_static e1 = engine_static (E v) \<and> en_validator_pubkey e1 = v \<and>
    hm_get (en_seen_precommits (E v)) \<subseteq>\<^sub>m hm_get (en_seen_precommits e1) \<and>
    (sys_step (snap.quorum s) H)\<^sup>*\<^sup>* (abs_sys H E) ((abs_sys H E)(v := abs_node e1)) \<and>
    handles env s e1 (handle env ev (E v))"
proof -
  let ?G = "\<lambda>e1. engine_inv (env_crypto env) s e1 \<and> engine_static e1 = engine_static (E v) \<and> en_validator_pubkey e1 = v \<and>
    hm_get (en_seen_precommits (E v)) \<subseteq>\<^sub>m hm_get (en_seen_precommits e1) \<and>
    (sys_step (snap.quorum s) H)\<^sup>*\<^sup>* (abs_sys H E) ((abs_sys H E)(v := abs_node e1)) \<and>
    handles env s e1 (handle env ev (E v))"
  from ok v have inv: "engine_inv (env_crypto env) s (E v)" and me: "en_validator_pubkey (E v) = v"
    by (auto simp: run_ok_def)
  have same: "(abs_sys H E)(v := abs_node (E v)) = abs_sys H E" using v by (auto simp: abs_sys_def)
  have here: "?G (E v)" if "handles env s (E v) (handle env ev (E v))"
    using that inv me by (simp add: same)
  note rm = round_roomD(1) [OF room] and own = engine_invD(8) [OF inv, unfolded own_votes_ok_def me]
  show ?thesis
  proof (cases ev)
    case (Ev_prevote m)
    from ev Ev_prevote have au: "accepts_prevote env (E v) m \<Longrightarrow> pv_validator m \<in> H \<Longrightarrow>
        authentic (hm_get (en_signed_prevote_rounds (E (pv_validator m)))) (pv_round m) (pv_block_hash m)"
      by (simp add: event_ok_def accepts_prevote_def)
    have ne: "accepts_prevote env (E v) m \<Longrightarrow> pv_validator m \<noteq> v"
      using au own v by (auto simp: accepts_prevote_def authentic_def)
    from on_prevote_handles [OF inv room] ev Ev_prevote ne me consider
      "handles env s (E v) (on_prevote env m (E v))"
      | p where "accepts_prevote env (E v) m" "engine_inv (env_crypto env) s (record_prevote m p (E v))"
        "handles env s (record_prevote m p (E v)) (on_prevote env m (E v))"
      by (auto simp: event_ok_def)
    then show ?thesis
    proof cases
      case 1
      with here Ev_prevote show ?thesis by auto
    next
      case 2
      have "sys_step (snap.quorum s) H (abs_sys H E) ((abs_sys H E)(v :=
          see_prevote (pv_round m) (pv_validator m) (pv_block_hash m) (abs_sys H E v)))"
        by (rule sys_step.recv_prevote [OF v])
          (use 2(1) au v in \<open>auto simp: abs_sys_def abs_node_def accepts_prevote_def\<close>)
      with 2 v me Ev_prevote have "?G (record_prevote m p (E v))"
        by (auto simp: abs_record_prevote abs_sys_def engine_static_def)
      then show ?thesis ..
    qed
  next
    case (Ev_precommit m)
    from ev Ev_precommit have au: "accepts_precommit env (E v) m \<Longrightarrow> pc_validator m \<in> H \<Longrightarrow>
        authentic (hm_get (en_signed_precommit_rounds (E (pc_validator m)))) (pc_round m) (pc_block_hash m)"
      by (simp add: event_ok_def accepts_precommit_def)
    have ne: "accepts_precommit env (E v) m \<Longrightarrow> pc_validator m \<noteq> v"
      using au own v by (auto simp: accepts_precommit_def authentic_def)
    from on_precommit_handles [OF inv room] ev Ev_precommit ne me consider
      "handles env s (E v) (on_precommit env m (E v))"
      | p where "accepts_precommit env (E v) m" "engine_inv (env_crypto env) s (record_precommit m p (E v))"
        "handles env s (record_precommit m p (E v)) (on_precommit env m (E v))"
      by (auto simp: event_ok_def)
    then show ?thesis
    proof cases
      case 1
      with here Ev_precommit show ?thesis by auto
    next
      case 2
      have "sys_step (snap.quorum s) H (abs_sys H E) ((abs_sys H E)(v :=
          see_precommit (pc_round m) (pc_validator m) (pc_block_hash m) (abs_sys H E v)))"
        by (rule sys_step.recv_precommit [OF v])
          (use 2(1) au v in \<open>auto simp: abs_sys_def abs_node_def accepts_precommit_def\<close>)
      moreover have "hm_get (en_seen_precommits (E v)) \<subseteq>\<^sub>m hm_get (en_seen_precommits (record_precommit m p (E v)))"
        using 2(1) by (auto simp: accepts_precommit_def map_le_def)
      ultimately have "?G (record_precommit m p (E v))"
        using 2 v me Ev_precommit by (auto simp: abs_record_precommit abs_sys_def engine_static_def)
      then show ?thesis ..
    qed
  qed (use here ev create_proposal_handles [OF inv rm] on_proposal_handles [OF inv rm]
      process_proposal_handles [OF inv rm] on_timeout_handles [OF inv room] in \<open>auto simp: event_ok_def\<close>)
qed

section \<open>Agreement\<close>

lemma byzantine_power_of:
  assumes "snapshot_ok s"
  shows "byzantine_power s H = snap.power_of s (- H)"
proof -
  have "hm_sum id (filter (\<lambda>(v, _). v \<notin> H) m) = sum (hm_get_or 0 m) (- H \<inter> fst ` set m)"
    if "distinct (map fst m)" for m :: "(pubkey, u64) hmap"
    using that
  proof (induction m)
    case (Cons p m)
    obtain k x where p: "p = (k, x)" by force
    from Cons.prems p have k: "k \<notin> fst ` set m" by simp
    have "sum (hm_get_or 0 (p # m)) (- H \<inter> fst ` set m) = sum (hm_get_or 0 m) (- H \<inter> fst ` set m)"
      by (rule sum.cong) (use k p in \<open>auto simp: hm_get_or_def\<close>)
    with Cons p k show ?case by (auto simp: hm_get_or_def Int_insert_right)
  qed simp
  with assms show ?thesis by (simp add: byzantine_power_def snap.power_of_def snapshot_ok_def)
qed

lemma honest_quorums_snap:
  assumes "snapshot_ok s" "3 * byzantine_power s H < ps_total_eligible_stake s"
  shows "honest_quorums (snap.quorum s) H"
proof -
  from assms have "3 * snap.power_of s (- H) < ps_total_eligible_stake s" by (simp add: byzantine_power_of)
  then show ?thesis
    unfolding honest_quorums_def up_closed_def
    using snap.quorum_mono [OF assms(1)] snap.quorum_honest [OF assms(1)] by blast
qed

lemma bft_run_ok:
  assumes "bft_run env0 ms ch h H E C"
    and "crypto_laws (env_crypto env0)" "snapshot_ok (height_snapshot env0 ms)"
  shows "run_ok (env_crypto env0) ch h (height_snapshot env0 ms) H E C"
  using assms(1)
proof (induction rule: bft_run.induct)
  case (bft_start E)
  have "abs_sys H E = (\<lambda>_. node_init)"
    using entered_inv(2) [OF bft_start assms(2,3)] by (auto simp: abs_sys_def)
  then show ?case
    using entered_inv(1) [OF bft_start assms(2,3)] entered_sel(7,20,21) [OF bft_start]
    by (auto simp: run_ok_def)
next
  case (bft_event E C v env ev e' a)
  let ?s = "height_snapshot env0 ms"
  from event_lift [of env ch h ?s H E C v ev] bft_event obtain e1 where
    i1: "engine_inv (env_crypto env) ?s e1" and same: "engine_static e1 = engine_static (E v)" and me: "en_validator_pubkey e1 = v"
    and seen: "hm_get (en_seen_precommits (E v)) \<subseteq>\<^sub>m hm_get (en_seen_precommits e1)"
    and st: "(sys_step (snap.quorum ?s) H)\<^sup>*\<^sup>* (abs_sys H E) ((abs_sys H E)(v := abs_node e1))"
    and h: "handles env ?s e1 (e', a)" by auto
  have st2: "(sys_step (snap.quorum ?s) H)\<^sup>*\<^sup>* (abs_sys H E) (abs_sys H (E(v := e')))"
    using rtranclp_trans [OF st handles_lift(1) [OF h i1 me bft_event.hyps(2)]]
    by (simp add: abs_sys_upd [OF bft_event.hyps(2)])
  have "engine_static e' = engine_static (E v)" using eng_steps_static [of env e1 e'] h same by (simp add: handles_def)
  then have static: "en_height e' = h" "en_signing_chain_id e' = ch"
    using bft_event.IH bft_event.hyps(2) by (auto simp: engine_static_def run_ok_def)
  have inv': "engine_inv (env_crypto env) ?s e'" using handles_inv [OF h i1] by simp
  have "hm_get (en_seen_precommits e1) \<subseteq>\<^sub>m hm_get (en_seen_precommits e')"
    using eng_steps_mono [OF _ i1] h by (auto simp: handles_def)
  with seen have "hm_get (en_seen_precommits (E v)) \<subseteq>\<^sub>m hm_get (en_seen_precommits e')"
    by (rule map_le_trans)
  then have old: "snap.quorum ?s (voters_for (en_seen_precommits (E v)) r bh) \<Longrightarrow>
      snap.quorum ?s (voters_for (en_seen_precommits e') r bh)" for r bh
    using snap.quorum_mono [OF assms(3)] voters_for_mono by blast
  have "\<forall>(_, r, _, bh) \<in> set (commits_of a). bh \<noteq> hash_default \<and>
      snap.quorum ?s (voters_for (en_seen_precommits e') r (Some bh))"
    using h by (auto simp: handles_def commit_ok_def)
  moreover have "(sys_step (snap.quorum ?s) H)\<^sup>*\<^sup>* (\<lambda>_. node_init) (abs_sys H (E(v := e')))"
    using rtranclp_trans [OF _ st2] bft_event.IH by (simp add: run_ok_def)
  moreover have "\<forall>(u, r, bh) \<in> C. u \<in> H \<and> bh \<noteq> hash_default \<and>
      snap.quorum ?s (voters_for (en_seen_precommits ((E(v := e')) u)) r (Some bh))"
    using bft_event.IH old by (fastforce simp: run_ok_def)
  ultimately show ?case
    using bft_event.IH bft_event.hyps(2,3) inv' static handles_lift(2) [OF h i1 me bft_event.hyps(2)]
    unfolding run_ok_def by auto
qed


end
