(* ===== verification/Bft_Signing_Discipline.thy ===== *)
theory Bft_Signing_Discipline
  imports Bft_Agreement
begin

text \<open>
  The engine's slashing protection, for arbitrary inputs: at one height it releases at most one
  prevote and one precommit per round, and votes restored from the write-ahead log are never
  contradicted. Nothing is assumed here about other validators, the network or the order of calls.
\<close>

section \<open>Votes among the actions\<close>

fun prevotes_of :: "consensus_action \<Rightarrow> prevote list" where
  "prevotes_of (BroadcastPrevote v) = [v]"
| "prevotes_of (Multiple as) = concat (map prevotes_of as)"
| "prevotes_of _ = []"

fun precommits_of :: "consensus_action \<Rightarrow> precommit list" where
  "precommits_of (BroadcastPrecommit v) = [v]"
| "precommits_of (Multiple as) = concat (map precommits_of as)"
| "precommits_of _ = []"

text \<open>
  A handler call that takes \<open>e\<close> to \<open>e'\<close> and releases the given votes: their rounds are distinct,
  were not signed in \<open>e\<close>, and are recorded as signed in \<open>e'\<close>, which forgets nothing.
\<close>

definition signs :: "engine \<Rightarrow> engine \<Rightarrow> prevote list \<Rightarrow> precommit list \<Rightarrow> bool" where
  "signs e e' pvs pcs \<longleftrightarrow>
     en_height e' = en_height e \<and>
     hm_get (en_signed_prevote_rounds e) \<subseteq>\<^sub>m hm_get (en_signed_prevote_rounds e') \<and>
     hm_get (en_signed_precommit_rounds e) \<subseteq>\<^sub>m hm_get (en_signed_precommit_rounds e') \<and>
     distinct (map pv_round pvs) \<and> distinct (map pc_round pcs) \<and>
     (\<forall>v \<in> set pvs. hm_get (en_signed_prevote_rounds e) (pv_round v) = None \<and>
        hm_get (en_signed_prevote_rounds e') (pv_round v) = Some (pv_block_hash v) \<and> pv_height v = en_height e) \<and>
     (\<forall>v \<in> set pcs. hm_get (en_signed_precommit_rounds e) (pc_round v) = None \<and>
        hm_get (en_signed_precommit_rounds e') (pc_round v) = Some (pc_block_hash v) \<and> pc_height v = en_height e)"

abbreviation signs_action :: "engine \<Rightarrow> engine \<times> consensus_action \<Rightarrow> bool" where
  "signs_action e x \<equiv> signs e (fst x) (prevotes_of (snd x)) (precommits_of (snd x))"

lemma signs_refl [simp]: "signs e e [] []"
  by (simp add: signs_def)

lemma signs_trans:
  assumes "signs e e1 a b" "signs e1 e2 a' b'"
  shows "signs e e2 (a @ a') (b @ b')"
proof -
  have le: "hm_get m k = Some x \<Longrightarrow> hm_get m \<subseteq>\<^sub>m hm_get m' \<Longrightarrow> hm_get m' k = Some x"
    and nn: "hm_get m' k = None \<Longrightarrow> hm_get m \<subseteq>\<^sub>m hm_get m' \<Longrightarrow> hm_get m k = None"
    for m m' :: "(u32, hash option) hmap" and k x
    by (auto simp: map_le_def dom_def)
  have "set (map pv_round a) \<inter> set (map pv_round a') = {}" "set (map pc_round b) \<inter> set (map pc_round b') = {}"
    using assms by (auto simp: signs_def)
  with assms show ?thesis
    unfolding signs_def by (auto intro: map_le_trans dest: le nn)
qed

lemma signs_frame:
  "en_height e' = en_height e \<Longrightarrow> en_signed_prevote_rounds e' = en_signed_prevote_rounds e \<Longrightarrow>
   en_signed_precommit_rounds e' = en_signed_precommit_rounds e \<Longrightarrow> signs e e' [] []"
  by (simp add: signs_def)

lemma signs_step: "signs e e1 [] [] \<Longrightarrow> signs e1 e2 a b \<Longrightarrow> signs e e2 a b"
  using signs_trans by fastforce

section \<open>Handlers\<close>

lemma transition_signs [simp]: "signs e (transition_to st e) [] []"
  by (rule signs_frame) simp_all

lemma start_round_signs [simp]: "signs_action e (start_round r e)"
  by (simp add: start_round_def Let_def signs_frame)

lemma lock_on_signs [simp]: "signs e (lock_on bh r e) [] []"
  by (rule signs_frame) (simp_all add: lock_on_def Let_def split: option.splits)

lemma own_precommit_signs:
  "hm_get (en_signed_precommit_rounds e) (en_round e) = None \<Longrightarrow>
   signs e (record_own_precommit env bh e) [] [make_precommit env bh e]"
  by (auto simp: signs_def map_le_def)

lemma own_prevote_signs:
  "hm_get (en_signed_prevote_rounds e) (en_round e) = None \<Longrightarrow>
   signs e (record_own_prevote env bh e) [make_prevote env bh e] []"
  by (auto simp: signs_def map_le_def)

lemma do_precommit_signs: "signs_action e (do_precommit env bh e)"
proof (cases "hm_get (en_signed_precommit_rounds e) (en_round e)")
  case (Some x)
  then show ?thesis by (simp add: do_precommit_def hm_contains_def del: hm_contains_iff)
next
  case None
  let ?e1 = "record_own_precommit env bh e" and ?m = "make_precommit env bh e"
  note s1 = own_precommit_signs [OF None, of env bh]
  have sub: "signs e e2 [] [?m]" if "signs ?e1 e2 [] []" for e2 using signs_trans [OF s1 that] by simp
  have st: "signs ?e1 (fst (start_round r ?e1)) [] []" for r by (simp add: start_round_def Let_def signs_frame)
  have q: "prevotes_of (snd (start_round r e')) = []" "precommits_of (snd (start_round r e')) = []" for r e'
    by (simp_all add: start_round_def Let_def)
  show ?thesis
    using None sub [OF st] sub [OF transition_signs] s1
    by (auto simp: do_precommit_def hm_contains_def Let_def case_prod_unfold q split: option.splits
        simp del: hm_contains_iff)
qed

lemma do_prevote_signs: "signs_action e (do_prevote env bh e)"
proof (cases "hm_get (en_signed_prevote_rounds e) (en_round e)")
  case (Some x)
  then show ?thesis by (simp add: do_prevote_def hm_contains_def del: hm_contains_iff)
next
  case None
  let ?e1 = "transition_to Prevote e"
  let ?e2 = "record_own_prevote env bh ?e1" and ?m = "make_prevote env bh ?e1"
  define e3 where "e3 = (case bh of Some b \<Rightarrow> lock_on b (en_round ?e2) ?e2 | None \<Rightarrow> transition_to Precommit ?e2)"
  have s2: "signs e ?e2 [?m] []"
    by (rule signs_step [OF transition_signs own_prevote_signs]) (use None in simp)
  have "signs ?e2 e3 [] []" by (cases bh) (simp_all add: e3_def)
  from signs_trans [OF s2 signs_step [OF this do_precommit_signs]]
  have s3: "signs e (fst (do_precommit env bh e3)) (?m # prevotes_of (snd (do_precommit env bh e3)))
      (precommits_of (snd (do_precommit env bh e3)))" by simp
  have "do_prevote env bh e = (if has_supermajority_power env ?e2 (prevote_bucket_power env ?e2 (en_round ?e2, bh))
      then (fst (do_precommit env bh e3), Multiple [BroadcastPrevote ?m, snd (do_precommit env bh e3)])
      else (?e2, BroadcastPrevote ?m))"
    using None
    by (simp add: do_prevote_def hm_contains_def Let_def case_prod_unfold e3_def del: hm_contains_iff record_own_sels)
  with s2 s3 show ?thesis by simp
qed

lemma prevote_for_proposal_signs: "signs_action e (prevote_for_current_round_proposal env p e)"
  by (simp add: prevote_for_current_round_proposal_def Let_def do_prevote_signs)

lemma process_proposal_signs: "signs_action e (process_current_round_proposal_if_present env e)"
  by (simp add: process_current_round_proposal_if_present_def prevote_for_proposal_signs split: option.splits)

lemma create_proposal_signs: "signs_action e (create_proposal env fresh e)"
proof -
  have "signs e (e\<lparr>en_proposal_blocks := pb, en_proposals := ps\<rparr>) [] []" for pb ps
    by (rule signs_frame) simp_all
  from signs_step [OF this do_prevote_signs] show ?thesis
    by (auto simp: create_proposal_def Let_def case_prod_unfold split: option.splits)
qed

lemma expected_leader_signs: "signs e (fst (expected_leader_cached env slot ph e)) [] []"
  by (rule signs_frame) (auto simp: expected_leader_cached_def Let_def split: option.splits)

lemma on_proposal_signs: "signs_action e (on_proposal env p e)"
proof -
  define x where "x = expected_leader_cached env (leader_selection_slot (en_height e) (prop_round p))
      (hdr_parent_hash (blk_header (prop_block p))) e"
  have 1: "signs e (fst x) [] []" unfolding x_def by (rule expected_leader_signs)
  have 2: "signs e ((fst x)\<lparr>en_proposal_blocks := pb, en_proposals := ps\<rparr>) [] []" for pb ps
    by (rule signs_step [OF 1 signs_frame]) simp_all
  show ?thesis
    using 1 2 signs_step [OF 2 prevote_for_proposal_signs]
    unfolding on_proposal_def x_def [symmetric] Let_def case_prod_unfold by auto
qed

lemma catch_up_signs:
  "signs e (fst (catch_up n env e)) (concat (map prevotes_of (snd (catch_up n env e))))
     (concat (map precommits_of (snd (catch_up n env e))))"
proof (induction n arbitrary: e)
  case (Suc n)
  let ?x = "do_prevote env None e"
  show ?case
    using prevote_for_proposal_signs [of e] do_prevote_signs [of e env None]
      signs_trans [OF do_prevote_signs [of e env None] Suc.IH [of "fst ?x"]]
    by (auto simp: Let_def case_prod_unfold split: option.splits)
qed simp

lemma check_round_skip_signs: "signs_action e (check_round_skip env e)"
proof -
  let ?m = "foldl max (en_round e) (map fst (future_vote_keys e))"
  let ?x = "catch_up 100 env (fst (start_round ?m e))"
  have q: "prevotes_of (snd (start_round r e')) = []" "precommits_of (snd (start_round r e')) = []" for r e'
    by (simp_all add: start_round_def Let_def)
  have "signs e (fst ?x) (concat (map prevotes_of (snd ?x))) (concat (map precommits_of (snd ?x)))"
    by (rule signs_step [OF _ catch_up_signs]) (simp add: start_round_def Let_def signs_frame)
  then have "signs_action e (fst ?x, case snd ?x of [] \<Rightarrow> snd (start_round ?m e)
      | _ \<Rightarrow> Multiple (snd (start_round ?m e) # snd ?x))"
    by (auto simp: q split: list.splits)
  moreover have "check_round_skip env e \<in> {(e, NoAction), (fst ?x, case snd ?x of [] \<Rightarrow> snd (start_round ?m e)
      | _ \<Rightarrow> Multiple (snd (start_round ?m e) # snd ?x))}"
    unfolding check_round_skip_def Let_def case_prod_unfold by simp
  ultimately show ?thesis by auto
qed

lemma pack_actions_votes [simp]:
  "prevotes_of (pack_actions as) = concat (map prevotes_of as)"
  "precommits_of (pack_actions as) = concat (map precommits_of as)"
  by (auto simp: pack_actions_def split: list.splits)

lemma run_skip_signs:
  assumes "signs e e1 (concat (map prevotes_of as)) (concat (map precommits_of as))"
  shows "signs_action e (run_skip env r (e1, as))"
  using assms signs_trans [OF assms check_round_skip_signs [of e1 env]]
  by (auto simp: run_skip_def case_prod_unfold)

lemma record_signs: "signs e (record_prevote v p e) [] []" "signs e (record_precommit w p e) [] []"
  by (rule signs_frame; simp)+

abbreviation signs_list :: "engine \<Rightarrow> engine \<times> consensus_action list \<Rightarrow> bool" where
  "signs_list e x \<equiv> signs e (fst x) (concat (map prevotes_of (snd x))) (concat (map precommits_of (snd x)))"

lemma prevote_rules_signs: "signs_list e (prevote_rules env round e)"
proof -
  let ?x = "prevote_rule_polka env round e"
  let ?y = "prevote_rule_nil env round (fst ?x)"
  have x: "signs_list e ?x"
    using signs_step [OF lock_on_signs do_precommit_signs, of e]
    by (auto simp: prevote_rule_polka_def case_prod_unfold split: option.splits)
  have y: "signs_list (fst ?x) ?y"
    using signs_step [OF transition_signs do_precommit_signs, of "fst ?x"]
    by (auto simp: prevote_rule_nil_def case_prod_unfold)
  have "prevotes_of a = [] \<and> precommits_of a = []" if "a \<in> set (prevote_rule_any env round e')" for a e'
    using that by (auto simp: prevote_rule_any_def split: if_splits)
  then have "concat (map prevotes_of (prevote_rule_any env round e')) = []"
    "concat (map precommits_of (prevote_rule_any env round e')) = []" for e' by auto
  note any = this
  show ?thesis
    using signs_trans [OF x y] by (simp add: prevote_rules_def case_prod_unfold any del: concat_eq_Nil_conv)
qed

lemma on_prevote_signs: "signs_action e (on_prevote env v e)"
proof -
  have r: "signs_action e (run_skip env (pv_round v) (prevote_rules env (pv_round v) (record_prevote v p e)))" for p
    using run_skip_signs [OF signs_step [OF record_signs(1) prevote_rules_signs]] by (metis prod.collapse)
  have b: "signs e (e\<lparr>en_future_prevotes := fp\<rparr>) [] []" for fp by (rule signs_frame) simp_all
  show ?thesis using r b by (auto simp: on_prevote_def split: option.splits)
qed

lemma precommit_rules_signs:
  assumes "\<forall>a \<in> set as. prevotes_of a = [] \<and> precommits_of a = []"
  shows "signs_action e (precommit_rules env r as e)"
proof -
  let ?as = "as @ (if r = en_round e \<and> en_step e = Precommit \<and> has_any_supermajority_precommits env e r
    then [ScheduleTimeout Precommit (precommit_timeout e)] else [])"
  have n: "concat (map prevotes_of ?as) = []" "concat (map precommits_of ?as) = []" using assms by auto
  have "signs_action e (run_skip env r (e, ?as))" by (rule run_skip_signs) (simp only: n signs_refl)
  then show ?thesis by (simp add: precommit_rules_def)
qed

lemma on_precommit_signs: "signs_action e (on_precommit env v e)"
proof -
  have c: "signs_action e1 (precommit_commit_rule env r e1)" for e1 r
  proof -
    have "signs e1 ((transition_to Commit e1)\<lparr>en_last_committed_block_timestamp := ts\<rparr>) [] []" for ts
      by (rule signs_frame) simp_all
    then show ?thesis
      using precommit_rules_signs [of "[]" e1] precommit_rules_signs [of "[RequestBlockRange a b h]" e1 for a b h]
      by (auto simp: precommit_commit_rule_def Let_def split: option.splits)
  qed
  have r: "signs_action e (precommit_commit_rule env (pc_round v) (record_precommit v p e))" for p
    by (rule signs_step [OF record_signs(2) c])
  have b: "signs e (e\<lparr>en_future_precommits := fp\<rparr>) [] []" for fp by (rule signs_frame) simp_all
  show ?thesis using r b by (auto simp: on_precommit_def split: option.splits)
qed

lemma on_timeout_signs: "signs_action e (on_timeout env st r e)"
  using signs_step [OF transition_signs do_precommit_signs, of e] do_prevote_signs [of e]
  by (auto simp: on_timeout_def split: round_step.splits)

lemma replay_signs:
  assumes "\<And>v e. signs_action e (h v e)"
  shows "signs_list e (replay h vs e)"
proof (induction vs arbitrary: e)
  case (Cons v vs)
  show ?case using signs_trans [OF assms Cons.IH, of e v] by (auto simp: case_prod_unfold)
qed simp

lemma drain_signs: "signs_action e (drain_future_messages env e)"
proof -
  have b: "signs e (e\<lparr>en_future_prevotes := fp\<rparr>) [] []" "signs e (e\<lparr>en_future_precommits := fc\<rparr>) [] []" for e fp fc
    by (rule signs_frame; simp)+
  have 1: "signs_list e (drain_prevotes env e)" for e
    using signs_step [OF b(1) replay_signs [where h = "on_prevote env", OF on_prevote_signs]]
    by (auto simp: drain_prevotes_def split: option.splits)
  have 2: "signs_list e (drain_precommits env h e)" for e h
    using signs_step [OF b(2) replay_signs [where h = "on_precommit env", OF on_precommit_signs]]
    by (auto simp: drain_precommits_def split: option.splits)
  show ?thesis
    using signs_trans [OF 1 [of e] 2 [of _ "en_height e"]] by (simp add: drain_future_messages_def Let_def case_prod_unfold)
qed

section \<open>Histories\<close>

text \<open>Everything the validator loop calls on the engine while it stays at a height.\<close>

datatype engine_call =
    Call_event bft_event
  | Call_drain
  | Call_is_proposer hash

fun call_engine :: "bft_env \<Rightarrow> engine_call \<Rightarrow> engine \<Rightarrow> engine \<times> consensus_action" where
  "call_engine env (Call_event ev) e = handle env ev e"
| "call_engine env Call_drain e = drain_future_messages env e"
| "call_engine env (Call_is_proposer ph) e = (fst (is_proposer env ph e), NoAction)"

fun engine_history :: "(bft_env \<times> engine_call) list \<Rightarrow> engine \<Rightarrow> engine \<times> consensus_action list" where
  "engine_history [] e = (e, [])"
| "engine_history ((env, call) # calls) e =
     (case call_engine env call e of (e, a) \<Rightarrow>
        (case engine_history calls e of (e, as) \<Rightarrow> (e, a # as)))"

lemma handle_signs: "signs_action e (handle env ev e)"
  by (cases ev) (simp_all add: create_proposal_signs on_proposal_signs process_proposal_signs on_prevote_signs
      on_precommit_signs on_timeout_signs)

lemma call_engine_signs: "signs_action e (call_engine env call e)"
  using expected_leader_signs
  by (cases call) (simp_all add: handle_signs drain_signs is_proposer_def case_prod_unfold)

lemma engine_history_signs: "signs_list e (engine_history calls e)"
proof (induction calls arbitrary: e)
  case (Cons x calls)
  obtain env call where x: "x = (env, call)" by force
  show ?case
    using signs_trans [OF call_engine_signs Cons.IH, of e env call] by (simp add: x case_prod_unfold)
qed simp

lemma distinct_same: "distinct (map f xs) \<Longrightarrow> x \<in> set xs \<Longrightarrow> y \<in> set xs \<Longrightarrow> f x = f y \<Longrightarrow> x = y"
  by (auto simp: distinct_map dest: inj_onD)

text \<open>
  C2: whatever is called on an engine at a height, in whatever order and with whatever arguments,
  no two prevotes and no two precommits it releases can form equivocation evidence against it.
\<close>

theorem engine_never_equivocates:
  "\<not> (\<exists>a \<in> set (snd (engine_history calls e)). \<exists>b \<in> set (snd (engine_history calls e)).
      (\<exists>v \<in> set (prevotes_of a). \<exists>w \<in> set (prevotes_of b).
         se_verify_with_chain_id c chain_id \<lparr>se_offense = DoublePrevoteV2 v w, se_validator = pk,
           se_evidence_slot = slot, se_reporter = rep, se_timestamp = ts\<rparr>) \<or>
      (\<exists>v \<in> set (precommits_of a). \<exists>w \<in> set (precommits_of b).
         se_verify_with_chain_id c chain_id \<lparr>se_offense = DoublePrecommitV2 v w, se_validator = pk,
           se_evidence_slot = slot, se_reporter = rep, se_timestamp = ts\<rparr>))"
proof -
  let ?as = "snd (engine_history calls e)"
  have d: "distinct (map pv_round (concat (map prevotes_of ?as)))"
    "distinct (map pc_round (concat (map precommits_of ?as)))"
    using engine_history_signs [of e calls] by (auto simp: signs_def)
  have pv: "v = w" if "a \<in> set ?as" "b \<in> set ?as" "v \<in> set (prevotes_of a)" "w \<in> set (prevotes_of b)"
    "pv_round v = pv_round w" for a b v w
    by (rule distinct_same [OF d(1) _ _ that(5)]) (use that in auto)
  have pc: "v = w" if "a \<in> set ?as" "b \<in> set ?as" "v \<in> set (precommits_of a)" "w \<in> set (precommits_of b)"
    "pc_round v = pc_round w" for a b v w
    by (rule distinct_same [OF d(2) _ _ that(5)]) (use that in auto)
  show ?thesis by (auto simp: se_verify_with_chain_id_def dest: pv pc)
qed

section \<open>Recovery\<close>

fun restore_prevotes :: "crypto \<Rightarrow> prevote list \<Rightarrow> engine \<Rightarrow> err + engine" where
  "restore_prevotes c [] e = Inr e"
| "restore_prevotes c (v # vs) e =
     rbind (restore_signed_prevote c (pv_height v) (pv_round v) (pv_block_hash v) (pv_signature v) e)
       (restore_prevotes c vs)"

fun restore_precommits :: "crypto \<Rightarrow> precommit list \<Rightarrow> engine \<Rightarrow> err + engine" where
  "restore_precommits c [] e = Inr e"
| "restore_precommits c (v # vs) e =
     rbind (restore_signed_precommit c (pc_height v) (pc_round v) (pc_block_hash v) (pc_signature v) (pc_timestamp v) e)
       (restore_precommits c vs)"

lemma restore_prevote_signed:
  assumes "restore_signed_prevote c h r bh sig e = Inr e'"
  shows "en_height e' = en_height e"
    and "hm_get (en_signed_prevote_rounds e) \<subseteq>\<^sub>m hm_get (en_signed_prevote_rounds e')"
    and "h = en_height e \<Longrightarrow> hm_get (en_signed_prevote_rounds e') r = Some bh"
  using assms
  by (auto simp: restore_signed_prevote_def Let_def add_prevote_power_def map_le_def
      split: option.splits if_splits)

lemma restore_precommit_signed:
  assumes "restore_signed_precommit c h r bh sig ts e = Inr e'"
  shows "en_height e' = en_height e"
    and "hm_get (en_signed_prevote_rounds e') = hm_get (en_signed_prevote_rounds e)"
    and "hm_get (en_signed_precommit_rounds e) \<subseteq>\<^sub>m hm_get (en_signed_precommit_rounds e')"
    and "h = en_height e \<Longrightarrow> hm_get (en_signed_precommit_rounds e') r = Some bh"
  using assms
  by (auto simp: restore_signed_precommit_def Let_def add_precommit_power_def map_le_def
      split: option.splits if_splits)

lemma restore_prevotes_signed:
  "restore_prevotes c vs e = Inr e' \<Longrightarrow> \<forall>v \<in> set vs. pv_height v = en_height e \<Longrightarrow>
     en_height e' = en_height e \<and> hm_get (en_signed_prevote_rounds e) \<subseteq>\<^sub>m hm_get (en_signed_prevote_rounds e') \<and>
     (\<forall>v \<in> set vs. hm_get (en_signed_prevote_rounds e') (pv_round v) = Some (pv_block_hash v))"
proof (induction vs arbitrary: e)
  case (Cons v vs)
  from Cons.prems(1) obtain e1 where 1: "restore_signed_prevote c (pv_height v) (pv_round v) (pv_block_hash v)
      (pv_signature v) e = Inr e1" and 2: "restore_prevotes c vs e1 = Inr e'" by (auto simp: rbind_def split: sum.splits)
  note r = restore_prevote_signed [OF 1]
  have "pv_height v = en_height e" using Cons.prems(2) by simp
  then have "hm_get (en_signed_prevote_rounds e1) (pv_round v) = Some (pv_block_hash v)" by (rule r(3))
  with Cons.IH [OF 2] Cons.prems(2) r(1,2) show ?case
    by (auto simp: map_le_def dom_def)
qed simp

lemma restore_precommits_signed:
  "restore_precommits c vs e = Inr e' \<Longrightarrow> \<forall>v \<in> set vs. pc_height v = en_height e \<Longrightarrow>
     hm_get (en_signed_prevote_rounds e') = hm_get (en_signed_prevote_rounds e) \<and>
     hm_get (en_signed_precommit_rounds e) \<subseteq>\<^sub>m hm_get (en_signed_precommit_rounds e') \<and>
     (\<forall>v \<in> set vs. hm_get (en_signed_precommit_rounds e') (pc_round v) = Some (pc_block_hash v))"
proof (induction vs arbitrary: e)
  case (Cons v vs)
  from Cons.prems(1) obtain e1 where 1: "restore_signed_precommit c (pc_height v) (pc_round v) (pc_block_hash v)
      (pc_signature v) (pc_timestamp v) e = Inr e1" and 2: "restore_precommits c vs e1 = Inr e'"
    by (auto simp: rbind_def split: sum.splits)
  note r = restore_precommit_signed [OF 1]
  have "pc_height v = en_height e" using Cons.prems(2) by simp
  then have "hm_get (en_signed_precommit_rounds e1) (pc_round v) = Some (pc_block_hash v)" by (rule r(4))
  with Cons.IH [OF 2] Cons.prems(2) r(1,2,3) show ?case
    by (auto simp: map_le_def dom_def)
qed simp

text \<open>
  C4: an engine that restores from its write-ahead log the votes it signed before a crash releases,
  in any later history at that height, no vote for a round it had already voted in: a crash does not
  make a validator sign twice.
\<close>

theorem recovered_engine_never_resigns:
  assumes "restore_prevotes c vs e = Inr e1" and "restore_precommits c ws e1 = Inr e2"
    and "\<forall>v \<in> set vs. pv_height v = en_height e" and "\<forall>w \<in> set ws. pc_height w = en_height e"
  shows "\<forall>a \<in> set (snd (engine_history calls e2)).
    (\<forall>v \<in> set (prevotes_of a). pv_round v \<notin> pv_round ` set vs) \<and>
    (\<forall>w \<in> set (precommits_of a). pc_round w \<notin> pc_round ` set ws)"
proof -
  note p = restore_prevotes_signed [OF assms(1,3)]
  have "\<forall>w \<in> set ws. pc_height w = en_height e1" using p assms(4) by simp
  note w = restore_precommits_signed [OF assms(2) this]
  have n: "\<forall>v \<in> set (concat (map prevotes_of (snd (engine_history calls e2)))).
      hm_get (en_signed_prevote_rounds e2) (pv_round v) = None"
    "\<forall>v \<in> set (concat (map precommits_of (snd (engine_history calls e2)))).
      hm_get (en_signed_precommit_rounds e2) (pc_round v) = None"
    using engine_history_signs [of e2 calls] by (auto simp: signs_def)
  show ?thesis using n p w by fastforce
qed

end
