(* ===== verification/Bft_Liveness.thy ===== *)
theory Bft_Liveness
  imports Bft_Signing_Discipline
begin

text \<open>
  Progress of the consensus engine: in a round with a correct leader whose votes arrive, a
  validator prevotes, precommits and commits the proposed block, whatever the order in which the
  votes arrive within each phase and whichever of its own votes complete a quorum.
\<close>

section \<open>Voting on one block\<close>

text \<open>An engine in round 0 that has seen votes only for the proposed block.\<close>

definition voting_on :: "crypto \<Rightarrow> string \<Rightarrow> power_snapshot \<Rightarrow> u64 \<Rightarrow> hash \<Rightarrow> engine \<Rightarrow> bool" where
  "voting_on c ch s h b e \<longleftrightarrow>
     engine_inv c s e \<and> en_height e = h \<and> en_round e = 0 \<and> hm_get (en_proposal_blocks e) b \<noteq> None \<and>
     ran (hm_get (en_seen_prevotes e)) \<subseteq> {Some b} \<and> ran (hm_get (en_seen_precommits e)) \<subseteq> {Some b} \<and>
     en_signing_chain_id e = ch"

definition prevoted :: "power_snapshot \<Rightarrow> hash \<Rightarrow> engine \<Rightarrow> bool" where
  "prevoted s b e \<longleftrightarrow> en_step e = Prevote \<and> hm_get (en_signed_prevote_rounds e) 0 \<noteq> None \<and>
     hm_get (en_signed_precommit_rounds e) 0 = None \<and>
     \<not> snap.quorum s (voters_for (en_seen_prevotes e) 0 (Some b))"

definition precommitted :: "power_snapshot \<Rightarrow> hash \<Rightarrow> engine \<Rightarrow> bool" where
  "precommitted s b e \<longleftrightarrow> en_step e = Precommit \<and> hm_get (en_signed_prevote_rounds e) 0 \<noteq> None \<and>
     hm_get (en_signed_precommit_rounds e) 0 \<noteq> None \<and>
     \<not> snap.quorum s (voters_for (en_seen_precommits e) 0 (Some b))"

definition prevotes_block :: "hash \<Rightarrow> consensus_action \<Rightarrow> bool" where
  "prevotes_block b a \<longleftrightarrow> (\<exists>v \<in> set (prevotes_of a). pv_block_hash v = Some b)"

definition precommits_block :: "hash \<Rightarrow> consensus_action \<Rightarrow> bool" where
  "precommits_block b a \<longleftrightarrow> (\<exists>v \<in> set (precommits_of a). pc_block_hash v = Some b)"

definition commits_block :: "u64 \<Rightarrow> hash \<Rightarrow> consensus_action \<Rightarrow> bool" where
  "commits_block h b a \<longleftrightarrow> (\<exists>blk. (h, 0, blk, b) \<in> set (commits_of a))"

lemmas progress_defs = prevotes_block_def precommits_block_def commits_block_def

lemma voting_onD:
  assumes "voting_on c ch s h b e"
  shows "engine_inv c s e" "en_height e = h" "en_round e = 0" "hm_get (en_proposal_blocks e) b \<noteq> None"
    "ran (hm_get (en_seen_prevotes e)) \<subseteq> {Some b}" "ran (hm_get (en_seen_precommits e)) \<subseteq> {Some b}"
    "en_signing_chain_id e = ch"
  using assms by (auto simp: voting_on_def)

lemma no_quorum_empty [simp]: "\<not> snap.quorum s {}"
  by (auto simp: snap.quorum_def)

lemma voters_for_ran: "ran (hm_get seen) \<subseteq> {Some b} \<Longrightarrow> bh \<noteq> Some b \<Longrightarrow> voters_for seen r bh = {}"
  by (auto simp: voters_for_def ran_def)

lemma find_quorum_hash_uniform:
  assumes "books_ok s votes tally seen" "snapshot_ok s" "en_power_snapshot e = Some s"
    and "ran (hm_get seen) \<subseteq> {Some b}"
  shows "find_quorum_hash env e tally votes r = (if snap.quorum s (voters_for seen r (Some b)) then Some b else None)"
proof (cases "find_quorum_hash env e tally votes r")
  case (Some b')
  then have "snap.quorum s (voters_for seen r (Some b'))" by (rule find_quorum_hash_quorum [OF assms(1-3)])
  moreover from this have "b' = b"
    using voters_for_ran [OF assms(4), of "Some b'" r] by (metis no_quorum_empty option.inject)
  ultimately show ?thesis using Some by simp
next
  case None
  have False if q: "snap.quorum s (voters_for seen r (Some b))"
  proof -
    have "hm_get_or [] votes (r, Some b) \<noteq> []" using q assms(1) unfolding books_ok_def by (metis list.set(1) no_quorum_empty)
    then have "(r, Some b) \<in> set (hm_keys votes)"
      by (auto simp: hm_get_or_def dest: map_of_SomeD split: option.splits intro!: rev_image_eqI)
    moreover have "List.find (\<lambda>key. fst key = r \<and> snd key \<noteq> None \<and>
        has_supermajority_power env e (bucket_power env e tally votes key)) (hm_keys votes) = None"
      using None by (auto simp: find_quorum_hash_def find_Some_iff split: option.splits)
    ultimately show False using q bucket_quorum [OF assms(1-3), of env r "Some b"] by (auto simp: find_None_iff)
  qed
  with None show ?thesis by auto
qed

lemma voters_for_own:
  "voters_for (hm_insert (r, pk) bh seen) r bh = insert pk (voters_for seen r bh)"
  by (auto simp: voters_for_def)

lemma ran_insert_same: "ran (hm_get m) \<subseteq> {x} \<Longrightarrow> ran (hm_get (hm_insert k x m)) \<subseteq> {x}"
  by (auto simp: ran_def split: if_splits)

section \<open>Signing the votes\<close>

lemma transition_to_chain [simp]: "en_signing_chain_id (transition_to st e) = en_signing_chain_id e"
  by (simp add: transition_to_def)

lemma lock_on_more_sel [simp]:
  "en_seen_prevotes (lock_on b r e) = en_seen_prevotes e" "en_seen_precommits (lock_on b r e) = en_seen_precommits e"
  "en_proposal_blocks (lock_on b r e) = en_proposal_blocks e"
  "en_signed_prevote_rounds (lock_on b r e) = en_signed_prevote_rounds e"
  "en_signing_chain_id (lock_on b r e) = en_signing_chain_id e"
  "en_step e = Prevote \<Longrightarrow> en_step (lock_on b r e) = Precommit"
  by (auto simp: lock_on_def Let_def transition_to_def valid_transition_def split: option.splits)

lemma precommit_progress:
  assumes v: "voting_on c ch s h b e" and st: "en_step e = Precommit" and env: "env_crypto env = c"
    and un: "hm_get (en_signed_precommit_rounds e) 0 = None" and pv: "hm_get (en_signed_prevote_rounds e) 0 \<noteq> None"
  shows "\<exists>e' a. do_precommit env (Some b) e = (e', a) \<and> voting_on c ch s h b e' \<and> precommits_block b a \<and>
    (precommitted s b e' \<or> commits_block h b a)"
proof -
  let ?e1 = "record_own_precommit env (Some b) e" and ?m = "BroadcastPrecommit (make_precommit env (Some b) e)"
  note d = voting_onD [OF v]
  obtain blk where blk: "hm_get (en_proposal_blocks e) b = Some blk" using d(4) by blast
  have i1: "engine_inv c s ?e1" by (rule engine_inv_own_precommit [OF d(1) env]) (use un d(3) in simp)
  have v1: "voting_on c ch s h b ?e1"
    using i1 d(2-5,7) ran_insert_same [OF d(6)] by (simp add: voting_on_def)
  show ?thesis
  proof (cases "snap.quorum s (voters_for (en_seen_precommits ?e1) 0 (Some b))")
    case True
    then have sm: "has_supermajority_power env ?e1 (precommit_bucket_power env ?e1 (0, Some b))"
      unfolding pc_quorum_iff [OF i1] .
    let ?e2 = "transition_to Commit ?e1"
    have "do_precommit env (Some b) e = (?e2, Multiple [?m, CommitBlock h 0 (committed_block env ?e2 0 b blk) b])"
      using un sm blk d(2,3)
      by (simp add: do_precommit_def hm_contains_def Let_def del: hm_contains_iff)
    moreover have "voting_on c ch s h b ?e2"
      using v1 by (auto simp: voting_on_def transition_to_def engine_inv_frame)
    ultimately show ?thesis by (auto simp: progress_defs)
  next
    case False
    then have sm: "\<not> has_supermajority_power env ?e1 (precommit_bucket_power env ?e1 (0, Some b))"
      unfolding pc_quorum_iff [OF i1] .
    then have "do_precommit env (Some b) e = (?e1, ?m)"
      using un d(3) by (simp add: do_precommit_def hm_contains_def Let_def del: hm_contains_iff)
    with v1 False st pv d(3) show ?thesis by (auto simp: progress_defs precommitted_def)
  qed
qed

lemma do_precommit_step:
  "en_step e = Precommit \<Longrightarrow> en_step (fst (do_precommit env (Some b) e)) \<noteq> Prevote"
  by (auto simp: do_precommit_def Let_def transition_to_def valid_transition_def split: option.splits)

lemma lock_progress:
  assumes v: "voting_on c ch s h b e" and st: "en_step e = Prevote" and env: "env_crypto env = c"
    and un: "hm_get (en_signed_precommit_rounds e) 0 = None" and pv: "hm_get (en_signed_prevote_rounds e) 0 \<noteq> None"
    and q: "snap.quorum s (voters_for (en_seen_prevotes e) 0 (Some b))"
  shows "\<exists>e' a. do_precommit env (Some b) (lock_on b 0 e) = (e', a) \<and> voting_on c ch s h b e' \<and>
    precommits_block b a \<and> (precommitted s b e' \<or> commits_block h b a)"
proof (rule precommit_progress [OF _ _ env])
  note d = voting_onD [OF v]
  have "eng_steps env e (lock_on b 0 e)" using lock_on_steps [of env s e b] d(1,3) q env by simp
  then have "engine_inv c s (lock_on b 0 e)" using eng_steps_inv d(1) env by blast
  then show "voting_on c ch s h b (lock_on b 0 e)" using d by (simp add: voting_on_def)
qed (use st un pv in simp_all)

lemma prevote_progress:
  assumes v: "voting_on c ch s h b e" and st: "en_step e = Propose" and env: "env_crypto env = c"
    and un: "hm_get (en_signed_precommit_rounds e) 0 = None" "hm_get (en_signed_prevote_rounds e) 0 = None"
  shows "\<exists>e' a. do_prevote env (Some b) e = (e', a) \<and> voting_on c ch s h b e' \<and> prevotes_block b a \<and>
    (prevoted s b e' \<or> precommits_block b a \<and> (precommitted s b e' \<or> commits_block h b a))"
proof -
  let ?e1 = "transition_to Prevote e"
  let ?e2 = "record_own_prevote env (Some b) ?e1" and ?m = "BroadcastPrevote (make_prevote env (Some b) ?e1)"
  note d = voting_onD [OF v]
  have "?e1 = e\<lparr>en_step := Prevote\<rparr>" using st by (simp add: transition_to_def valid_transition_def)
  then have i1: "engine_inv c s ?e1" and s1: "en_step ?e1 = Prevote" using engine_inv_frame(1) [OF d(1)] by simp_all
  have i2: "engine_inv c s ?e2" by (rule engine_inv_own_prevote [OF i1 env]) (use un d(3) in simp)
  have v2: "voting_on c ch s h b ?e2" using i2 d ran_insert_same [OF d(5)] by (simp add: voting_on_def)
  show ?thesis
  proof (cases "snap.quorum s (voters_for (en_seen_prevotes ?e2) 0 (Some b))")
    case True
    then have sm: "has_supermajority_power env ?e2 (prevote_bucket_power env ?e2 (0, Some b))"
      unfolding pv_quorum_iff [OF i2] .
    from lock_progress [OF v2 _ env _ _ True] s1 un(1) d(3) obtain e' a where
      a: "do_precommit env (Some b) (lock_on b 0 ?e2) = (e', a)" "voting_on c ch s h b e'" "precommits_block b a"
        "precommitted s b e' \<or> commits_block h b a" by auto
    have "do_prevote env (Some b) e = (e', Multiple [?m, a])"
      using un(2) d(3) sm a(1) by (simp add: do_prevote_def hm_contains_def Let_def del: hm_contains_iff)
    with a show ?thesis by (auto simp: progress_defs)
  next
    case False
    then have "\<not> has_supermajority_power env ?e2 (prevote_bucket_power env ?e2 (0, Some b))"
      unfolding pv_quorum_iff [OF i2] .
    then have "do_prevote env (Some b) e = (?e2, ?m)"
      using un(2) d(3) by (simp add: do_prevote_def hm_contains_def Let_def del: hm_contains_iff)
    with v2 False s1 un(1) d(3) show ?thesis by (auto simp: progress_defs prevoted_def)
  qed
qed

section \<open>Receiving votes\<close>

definition prevote_for :: "crypto \<Rightarrow> string \<Rightarrow> u64 \<Rightarrow> hash \<Rightarrow> prevote \<Rightarrow> bool" where
  "prevote_for c chain_id h b v \<longleftrightarrow> pv_height v = h \<and> pv_round v = 0 \<and> pv_block_hash v = Some b \<and>
     prevote_verify_signature_with_chain_id c chain_id v"

definition precommit_for :: "crypto \<Rightarrow> string \<Rightarrow> u64 \<Rightarrow> hash \<Rightarrow> precommit \<Rightarrow> bool" where
  "precommit_for c chain_id h b v \<longleftrightarrow> pc_height v = h \<and> pc_round v = 0 \<and> pc_block_hash v = Some b \<and>
     precommit_verify_signature_with_chain_id c chain_id v"

lemma eligible_member:
  "engine_inv c s e \<Longrightarrow> eligible_stake env e pk \<noteq> None \<longleftrightarrow> pk \<in> fst ` set (ps_eligible_power s)"
  by (simp add: eligible_stake_def engine_invD(1) map_of_eq_None_iff)

text \<open>A vote for the block is ignored, already seen, or new.\<close>

lemma on_prevote_cases:
  assumes "voting_on c ch s h b e" "prevote_for c ch h b v" "env_crypto env = c"
    and "hm_get (en_signed_prevote_rounds e) 0 \<noteq> None"
  obtains (old) "on_prevote env v e = (e, NoAction)"
      "pv_validator v \<in> fst ` set (ps_eligible_power s) \<Longrightarrow> pv_validator v \<in> voters_for (en_seen_prevotes e) 0 (Some b)"
    | (new) p where "on_prevote env v e = run_skip env 0 (prevote_rules env 0 (record_prevote v p e))"
      "voting_on c ch s h b (record_prevote v p e)"
      "voters_for (en_seen_prevotes (record_prevote v p e)) 0 (Some b) =
         insert (pv_validator v) (voters_for (en_seen_prevotes e) 0 (Some b))"
proof (cases "eligible_stake env e (pv_validator v)")
  case None
  then have "pv_validator v \<notin> fst ` set (ps_eligible_power s)"
    using eligible_member [OF voting_onD(1) [OF assms(1)], of env "pv_validator v"] by simp
  with None assms show ?thesis
    by (intro old) (simp_all add: on_prevote_def prevote_for_def voting_on_def)
next
  case (Some p)
  note d = voting_onD [OF assms(1)]
  show ?thesis
  proof (cases "hm_get (en_seen_prevotes e) (0, pv_validator v)")
    case (Some bh)
    with d(5) have "bh = Some b" by (auto simp: ran_def)
    with Some \<open>eligible_stake env e (pv_validator v) = Some p\<close> assms d(2,7) show ?thesis
      by (intro old) (auto simp: on_prevote_def prevote_for_def voters_for_def)
  next
    case None
    have ne: "pv_validator v \<noteq> en_validator_pubkey e"
      using None assms(4) engine_invD(8) [OF d(1)] by (auto simp: own_votes_ok_def)
    have acc: "accepts_prevote env e v"
      using None Some assms d(2,7) by (auto simp: accepts_prevote_def prevote_for_def)
    have "engine_inv c s (record_prevote v p e)"
      using engine_inv_record_prevote [OF _ acc Some ne] d(1) assms(3) by blast
    then have "voting_on c ch s h b (record_prevote v p e)"
      using d assms(2) ran_insert_same [OF d(5)] by (simp add: voting_on_def prevote_for_def)
    moreover have "on_prevote env v e = run_skip env 0 (prevote_rules env 0 (record_prevote v p e))"
      using None Some assms(2,3) d(2,7) by (simp add: on_prevote_def prevote_for_def)
    ultimately show ?thesis
      using assms(2) by (intro new) (auto simp: prevote_for_def voters_for_own)
  qed
qed

lemma run_skip_none: "en_round e = 0 \<Longrightarrow> run_skip env 0 (e, as) = (e, pack_actions as)"
  by (simp add: run_skip_def)

lemma progress_pack [simp]:
  "precommits_block b (pack_actions as) \<longleftrightarrow> (\<exists>a \<in> set as. precommits_block b a)"
  "commits_block h b (pack_actions as) \<longleftrightarrow> (\<exists>a \<in> set as. commits_block h b a)"
  by (auto simp: progress_defs pack_actions_commits)

lemma prevote_rules_progress:
  assumes v: "voting_on c ch s h b e" and st: "en_step e = Prevote" and env: "env_crypto env = c"
    and un: "hm_get (en_signed_precommit_rounds e) 0 = None" and pv: "hm_get (en_signed_prevote_rounds e) 0 \<noteq> None"
  shows "\<exists>e' as. prevote_rules env 0 e = (e', as) \<and> voting_on c ch s h b e' \<and>
    (e' = e \<and> prevoted s b e \<or>
     (\<exists>a \<in> set as. precommits_block b a \<and> (precommitted s b e' \<or> commits_block h b a)))"
proof -
  note d = voting_onD [OF v] and i = engine_invD [OF voting_onD(1) [OF v]]
  have f: "find_quorum_hash env e (en_prevote_power e) (en_prevotes e) 0 =
      (if snap.quorum s (voters_for (en_seen_prevotes e) 0 (Some b)) then Some b else None)"
    by (rule find_quorum_hash_uniform [OF i(5,2,1) d(5)])
  have nil: "\<not> has_supermajority_power env e (prevote_bucket_power env e (0, None))"
    unfolding pv_quorum_iff [OF d(1)] using voters_for_ran [OF d(5), of None 0] by simp
  show ?thesis
  proof (cases "snap.quorum s (voters_for (en_seen_prevotes e) 0 (Some b))")
    case True
    from lock_progress [OF v st env un pv True] obtain e' a where
      a: "do_precommit env (Some b) (lock_on b 0 e) = (e', a)" "voting_on c ch s h b e'" "precommits_block b a"
        "precommitted s b e' \<or> commits_block h b a" by auto
    have "en_step e' \<noteq> Prevote"
      using a(1) do_precommit_step [of "lock_on b 0 e" env b] st by simp
    then have "prevote_rules env 0 e = (e', [a])"
      using f True a(1) st d(3)
      by (simp add: prevote_rules_def prevote_rule_polka_def prevote_rule_nil_def prevote_rule_any_def)
    with a show ?thesis by auto
  next
    case False
    then have "prevote_rules env 0 e = (e, prevote_rule_any env 0 e)"
      using f nil by (simp add: prevote_rules_def prevote_rule_polka_def prevote_rule_nil_def)
    with v False st un pv show ?thesis by (auto simp: prevoted_def)
  qed
qed

lemma on_prevote_progress:
  assumes v: "voting_on c ch s h b e" "prevoted s b e" and m: "prevote_for c ch h b m"
    and env: "env_crypto env = c"
  shows "\<exists>e' a. on_prevote env m e = (e', a) \<and>
    (voting_on c ch s h b e' \<and> prevoted s b e' \<and>
       (let V = voters_for (en_seen_prevotes e') 0 (Some b) in voters_for (en_seen_prevotes e) 0 (Some b) \<subseteq> V \<and>
         (pv_validator m \<in> fst ` set (ps_eligible_power s) \<longrightarrow> pv_validator m \<in> V)) \<or>
     precommits_block b a \<and> (voting_on c ch s h b e' \<and> precommitted s b e' \<or> commits_block h b a))"
proof -
  have pv: "hm_get (en_signed_prevote_rounds e) 0 \<noteq> None" using v(2) by (simp add: prevoted_def)
  show ?thesis
  proof (cases rule: on_prevote_cases [OF v(1) m env pv])
    case 1
    with v show ?thesis by (auto simp: Let_def)
  next
    case (2 p)
    from prevote_rules_progress [OF 2(2) _ env] v(2) obtain e' as where
      r: "prevote_rules env 0 (record_prevote m p e) = (e', as)" "voting_on c ch s h b e'"
      "e' = record_prevote m p e \<and> prevoted s b (record_prevote m p e) \<or>
       (\<exists>a \<in> set as. precommits_block b a \<and> (precommitted s b e' \<or> commits_block h b a))"
      by (auto simp: prevoted_def)
    have "on_prevote env m e = (e', pack_actions as)"
      using 2(1) r(1) run_skip_none [OF voting_onD(3) [OF r(2)]] by simp
    with r(2,3) 2(3) show ?thesis by (auto simp: Let_def)
  qed
qed

lemma on_prevote_later:
  assumes v: "voting_on c ch s h b e" "precommitted s b e" and m: "prevote_for c ch h b m"
    and env: "env_crypto env = c"
  shows "\<exists>e' a. on_prevote env m e = (e', a) \<and> voting_on c ch s h b e' \<and> precommitted s b e'"
proof -
  have pv: "hm_get (en_signed_prevote_rounds e) 0 \<noteq> None" using v(2) by (simp add: precommitted_def)
  show ?thesis
  proof (cases rule: on_prevote_cases [OF v(1) m env pv])
    case 1
    with v show ?thesis by auto
  next
    case (2 p)
    have "prevote_rules env 0 (record_prevote m p e) = (record_prevote m p e, [])"
      using v(2)
      by (simp add: prevote_rules_def prevote_rule_polka_def prevote_rule_nil_def prevote_rule_any_def precommitted_def)
    with 2 run_skip_none [OF voting_onD(3) [OF 2(2)]] v(2) show ?thesis by (simp add: precommitted_def)
  qed
qed

lemma precommit_commit_progress:
  assumes v: "voting_on c ch s h b e" and st: "en_step e = Precommit"
  shows "\<exists>e' a. precommit_commit_rule env 0 e = (e', a) \<and>
    (e' = e \<and> \<not> snap.quorum s (voters_for (en_seen_precommits e) 0 (Some b)) \<or> commits_block h b a)"
proof -
  note d = voting_onD [OF v] and i = engine_invD [OF voting_onD(1) [OF v]]
  have f: "find_quorum_hash env e (en_precommit_power e) (en_precommits e) 0 =
      (if snap.quorum s (voters_for (en_seen_precommits e) 0 (Some b)) then Some b else None)"
    by (rule find_quorum_hash_uniform [OF i(6,2,1) d(6)])
  have nil: "\<not> has_supermajority_power env e (precommit_bucket_power env e (0, None))"
    unfolding pc_quorum_iff [OF d(1)] using voters_for_ran [OF d(6), of None 0] by simp
  show ?thesis
  proof (cases "snap.quorum s (voters_for (en_seen_precommits e) 0 (Some b))")
    case True
    with f d(2,4) show ?thesis by (auto simp: precommit_commit_rule_def Let_def progress_defs)
  next
    case False
    then have "precommit_commit_rule env 0 e = precommit_rules env 0 [] e"
      using f by (simp add: precommit_commit_rule_def)
    with nil False run_skip_none [OF d(3)] show ?thesis by (auto simp: precommit_rules_def)
  qed
qed

lemma on_precommit_progress:
  assumes v: "voting_on c ch s h b e" "precommitted s b e" and m: "precommit_for c ch h b m"
    and env: "env_crypto env = c"
  shows "\<exists>e' a. on_precommit env m e = (e', a) \<and>
    (voting_on c ch s h b e' \<and> precommitted s b e' \<and>
       (let V = voters_for (en_seen_precommits e') 0 (Some b) in voters_for (en_seen_precommits e) 0 (Some b) \<subseteq> V \<and>
         (pc_validator m \<in> fst ` set (ps_eligible_power s) \<longrightarrow> pc_validator m \<in> V)) \<or>
     commits_block h b a)"
proof (cases "eligible_stake env e (pc_validator m)")
  case None
  then have "pc_validator m \<notin> fst ` set (ps_eligible_power s)"
    using eligible_member [OF voting_onD(1) [OF v(1)], of env "pc_validator m"] by simp
  with None v m env show ?thesis
    by (simp add: on_precommit_def precommit_for_def voting_on_def)
next
  case (Some p)
  note d = voting_onD [OF v(1)]
  show ?thesis
  proof (cases "hm_get (en_seen_precommits e) (0, pc_validator m)")
    case seen: (Some bh)
    with d(6) have "bh = Some b" by (auto simp: ran_def)
    with seen Some v m env d(2,7) show ?thesis
      by (auto simp: on_precommit_def precommit_for_def voters_for_def)
  next
    case None
    have ne: "pc_validator m \<noteq> en_validator_pubkey e"
      using None v(2) engine_invD(8) [OF d(1)] by (auto simp: own_votes_ok_def precommitted_def)
    have acc: "accepts_precommit env e m"
      using None Some m env d(2,7) v(2) by (auto simp: accepts_precommit_def precommit_for_def precommitted_def)
    let ?e = "record_precommit m p e"
    have i: "engine_inv c s ?e"
      using engine_inv_record_precommit [OF _ acc Some ne] d(1) env by blast
    then have w: "voting_on c ch s h b ?e"
      using d m ran_insert_same [OF d(6)] by (simp add: voting_on_def precommit_for_def)
    have st: "en_step ?e = Precommit" using v(2) by (simp add: precommitted_def)
    have "on_precommit env m e = precommit_commit_rule env 0 ?e"
      using None Some m env d(2,7) v(2) by (simp add: on_precommit_def precommit_for_def precommitted_def)
    with precommit_commit_progress [OF w st, of env] obtain e' a where
      r: "on_precommit env m e = (e', a)"
        "e' = ?e \<and> \<not> snap.quorum s (voters_for (en_seen_precommits ?e) 0 (Some b)) \<or> commits_block h b a" by auto
    have "voters_for (en_seen_precommits ?e) 0 (Some b) =
        insert (pc_validator m) (voters_for (en_seen_precommits e) 0 (Some b))"
      using m by (simp add: precommit_for_def voters_for_own)
    with r w st v(2) show ?thesis by (auto simp: precommitted_def Let_def)
  qed
qed

section \<open>A round with a correct leader\<close>

text \<open>A proposal of the expected leader for round 0 that passes the checks of \<open>on_proposal\<close>.\<close>

definition good_proposal :: "bft_env \<Rightarrow> engine \<Rightarrow> proposal \<Rightarrow> bool" where
  "good_proposal env e p \<longleftrightarrow> prop_height p = en_height e \<and> prop_round p = 0 \<and>
     proposal_verify_signature_with_chain_id (env_crypto env) (en_signing_chain_id e) p \<and>
     select_leader_weighted (env_crypto env) (env_validator_set env) (leader_selection_slot (en_height e) 0)
       (env_stake_pool env) (hash_bytes (hdr_parent_hash (blk_header (prop_block p)))) (en_min_validator_stake e)
       = Some (prop_proposer p) \<and>
     block_verify_signature_with_chain_id (env_crypto env) (en_signing_chain_id e) (prop_block p) \<and>
     hdr_timestamp (blk_header (prop_block p)) \<le> wrapping_add64 (env_now env) 30 \<and>
     (case en_last_committed_block_timestamp e of
        Some parent_ts \<Rightarrow> parent_ts \<le> hdr_timestamp (blk_header (prop_block p)) | None \<Rightarrow> True)"

lemma entered_cache: "entered env ms ch h v e \<Longrightarrow> en_leader_cache e = []"
  by (auto simp: entered_def rebuild_power_snapshot_def rebuild_vote_power_tallies_def Let_def)

lemma on_proposal_progress:
  assumes e: "entered env ms ch h me e" and c: "crypto_laws (env_crypto env)"
    and s: "snapshot_ok (height_snapshot env ms)" and p: "good_proposal env e p"
    and b: "b = block_hash (env_crypto env) (prop_block p)" "b \<noteq> hash_default"
  shows "\<exists>e' a. on_proposal env p e = (e', a) \<and> voting_on (env_crypto env) ch (height_snapshot env ms) h b e' \<and>
    prevotes_block b a \<and> (prevoted (height_snapshot env ms) b e' \<or>
      precommits_block b a \<and> (precommitted (height_snapshot env ms) b e' \<or> commits_block h b a))"
proof -
  let ?s = "height_snapshot env ms" and ?c = "env_crypto env"
  define e1 where "e1 = fst (expected_leader_cached env (leader_selection_slot (en_height e) 0)
      (hdr_parent_hash (blk_header (prop_block p))) e)"
  let ?e2 = "e1\<lparr>en_proposal_blocks := hm_insert b (prop_block p) (en_proposal_blocks e1),
      en_proposals := hm_insert 0 p (en_proposals e1)\<rparr>"
  note sel = entered_sel [OF e]
  have e1: "e1 = e\<lparr>en_leader_cache := en_leader_cache e1\<rparr>"
    and lead: "snd (expected_leader_cached env (leader_selection_slot (en_height e) 0)
      (hdr_parent_hash (blk_header (prop_block p))) e) = Some (prop_proposer p)"
    using p entered_cache [OF e] by (simp_all add: e1_def expected_leader_cached_def Let_def good_proposal_def)
  have same: "en_step e1 = Propose" "en_round e1 = 0" "en_height e1 = h" "en_locked_round e1 = None"
    "en_signing_chain_id e1 = en_signing_chain_id e" "en_signed_prevote_rounds e1 = []"
    "en_signed_precommit_rounds e1 = []" "en_seen_prevotes e1 = []" "en_seen_precommits e1 = []"
    "en_last_committed_block_timestamp e1 = en_last_committed_block_timestamp e"
    by (subst e1, simp add: sel)+
  have leader: "expected_leader_cached env (leader_selection_slot h 0) (hdr_parent_hash (blk_header (prop_block p))) e =
      (e1, Some (prop_proposer p))" using lead by (simp add: prod_eq_iff e1_def sel(20))
  have "engine_inv ?c ?s e1" using engine_inv_frame(2) [OF entered_inv(1) [OF e c s]] e1 by metis
  then have "engine_inv ?c ?s ?e2"
    by (rule eng_step_inv [rotated]) (use b in \<open>auto intro: eng_step.store_proposal\<close>)
  then have v: "voting_on ?c ch ?s h b ?e2" using same sel(21) by (simp add: voting_on_def)
  have "on_proposal env p e = prevote_for_current_round_proposal env p ?e2"
    using p sel same b(1) leader
    by (simp add: on_proposal_def good_proposal_def Let_def not_less split: option.splits)
  also have "\<dots> = do_prevote env (Some b) ?e2"
    using p same b(1) sel
    by (simp add: prevote_for_current_round_proposal_def should_prevote_proposal_block_def good_proposal_def)
  finally show ?thesis using prevote_progress [OF v _ refl] same by simp
qed

lemma engine_history_append:
  "engine_history (xs @ ys) e =
     (case engine_history xs e of (e, as) \<Rightarrow> (case engine_history ys e of (e, bs) \<Rightarrow> (e, as @ bs)))"
  by (induction xs arbitrary: e) (auto simp: case_prod_unfold)

abbreviation deliver :: "('m \<Rightarrow> bft_event) \<Rightarrow> (bft_env \<times> 'm) list \<Rightarrow> (bft_env \<times> engine_call) list" where
  "deliver mk ms \<equiv> map (\<lambda>(env, m). (env, Call_event (mk m))) ms"

abbreviation reached :: "(consensus_action \<Rightarrow> bool) \<Rightarrow> consensus_action list \<Rightarrow> bool" where
  "reached P as \<equiv> \<exists>a \<in> set as. P a"

lemma quorum_after:
  assumes "snapshot_ok s" "snap.quorum s (V \<union> f ` snd ` set ((env, m) # ms))" "V \<subseteq> V1"
    and "f m \<in> fst ` set (ps_eligible_power s) \<longrightarrow> f m \<in> V1"
  shows "snap.quorum s (V1 \<union> f ` snd ` set ms)"
proof -
  have "(V \<union> f ` snd ` set ((env, m) # ms)) \<inter> fst ` set (ps_eligible_power s) \<subseteq> V1 \<union> f ` snd ` set ms"
    unfolding list.set image_insert snd_conv using assms(3,4) by blast
  then show ?thesis using snap.quorum_mono [OF assms(1)] assms(2) quorum_members by metis
qed

lemma prevotes_later:
  assumes "voting_on c ch s h b e" "precommitted s b e"
    and "\<forall>(env, m) \<in> set ms. env_crypto env = c \<and> prevote_for c ch h b m"
  shows "\<exists>e' as. engine_history (deliver Ev_prevote ms) e = (e', as) \<and> voting_on c ch s h b e' \<and> precommitted s b e'"
  using assms
proof (induction ms arbitrary: e)
  case (Cons x ms)
  obtain env m where x: "x = (env, m)" by force
  from on_prevote_later [OF Cons.prems(1,2), of m env] Cons.prems(3) x obtain e1 a where
    "on_prevote env m e = (e1, a)" "voting_on c ch s h b e1" "precommitted s b e1" by auto
  with Cons.IH [of e1] Cons.prems(3) show ?case by (auto simp: x)
qed simp

lemma prevotes_reach:
  assumes "voting_on c ch s h b e" "prevoted s b e"
    and "\<forall>(env, m) \<in> set ms. env_crypto env = c \<and> prevote_for c ch h b m"
    and "snap.quorum s (voters_for (en_seen_prevotes e) 0 (Some b) \<union> pv_validator ` snd ` set ms)"
  shows "\<exists>e' as. engine_history (deliver Ev_prevote ms) e = (e', as) \<and> reached (precommits_block b) as \<and>
    (voting_on c ch s h b e' \<and> precommitted s b e' \<or> reached (commits_block h b) as)"
  using assms
proof (induction ms arbitrary: e)
  case Nil
  then show ?case by (simp add: prevoted_def)
next
  case (Cons x ms)
  obtain env m where x: "x = (env, m)" by force
  have ms: "\<forall>(env, m) \<in> set ms. env_crypto env = c \<and> prevote_for c ch h b m" using Cons.prems(3) by simp
  from on_prevote_progress [OF Cons.prems(1,2), of m env] Cons.prems(3) x obtain e1 a where
    o: "on_prevote env m e = (e1, a)" and r: "voting_on c ch s h b e1 \<and> prevoted s b e1 \<and>
       (let V = voters_for (en_seen_prevotes e1) 0 (Some b) in voters_for (en_seen_prevotes e) 0 (Some b) \<subseteq> V \<and>
         (pv_validator m \<in> fst ` set (ps_eligible_power s) \<longrightarrow> pv_validator m \<in> V)) \<or>
     precommits_block b a \<and> (voting_on c ch s h b e1 \<and> precommitted s b e1 \<or> commits_block h b a)" by auto
  have step: "engine_history (deliver Ev_prevote (x # ms)) e =
      (fst (engine_history (deliver Ev_prevote ms) e1), a # snd (engine_history (deliver Ev_prevote ms) e1))"
    using o by (simp add: x case_prod_unfold)
  let ?V = "voters_for (en_seen_prevotes e) 0 (Some b)" and ?V1 = "voters_for (en_seen_prevotes e1) 0 (Some b)"
  from r consider
      (go) "voting_on c ch s h b e1" "prevoted s b e1" "?V \<subseteq> ?V1"
        "pv_validator m \<in> fst ` set (ps_eligible_power s) \<Longrightarrow> pv_validator m \<in> ?V1"
    | (pc) "precommits_block b a" "voting_on c ch s h b e1" "precommitted s b e1"
    | (fin) "precommits_block b a" "commits_block h b a" by (auto simp: Let_def)
  then show ?case
  proof cases
    case go
    have "snap.quorum s (?V1 \<union> pv_validator ` snd ` set ms)"
      by (rule quorum_after [OF engine_invD(2) [OF voting_onD(1) [OF go(1)]] Cons.prems(4) [unfolded x] go(3)])
        (use go(4) in blast)
    from Cons.IH [OF go(1,2) ms this] show ?thesis using step by auto
  next
    case pc
    from prevotes_later [OF pc(2,3) ms] pc(1) show ?thesis using step by auto
  next
    case fin
    then show ?thesis using step by auto
  qed
qed

lemma precommits_reach:
  assumes "voting_on c ch s h b e" "precommitted s b e"
    and "\<forall>(env, m) \<in> set ms. env_crypto env = c \<and> precommit_for c ch h b m"
    and "snap.quorum s (voters_for (en_seen_precommits e) 0 (Some b) \<union> pc_validator ` snd ` set ms)"
  shows "reached (commits_block h b) (snd (engine_history (deliver Ev_precommit ms) e))"
  using assms
proof (induction ms arbitrary: e)
  case Nil
  then show ?case by (simp add: precommitted_def)
next
  case (Cons x ms)
  obtain env m where x: "x = (env, m)" by force
  let ?V = "\<lambda>e. voters_for (en_seen_precommits e) 0 (Some b)"
  from on_precommit_progress [OF Cons.prems(1,2), of m env] Cons.prems(3) x obtain e1 a where
    o: "on_precommit env m e = (e1, a)" and r: "voting_on c ch s h b e1 \<and> precommitted s b e1 \<and>
       (let V = ?V e1 in ?V e \<subseteq> V \<and> (pc_validator m \<in> fst ` set (ps_eligible_power s) \<longrightarrow> pc_validator m \<in> V)) \<or>
       commits_block h b a" by auto
  show ?case
  proof (cases "commits_block h b a")
    case True
    with o show ?thesis by (auto simp: x case_prod_unfold)
  next
    case False
    with r have g: "voting_on c ch s h b e1" "precommitted s b e1" "?V e \<subseteq> ?V e1"
      "pc_validator m \<in> fst ` set (ps_eligible_power s) \<Longrightarrow> pc_validator m \<in> ?V e1" by (auto simp: Let_def)
    have "snap.quorum s (?V e1 \<union> pc_validator ` snd ` set ms)"
      by (rule quorum_after [OF engine_invD(2) [OF voting_onD(1) [OF g(1)]] Cons.prems(4) [unfolded x] g(3)])
        (use g(4) in blast)
    from Cons.IH [OF g(1,2) _ this] Cons.prems(3) o show ?thesis by (auto simp: x case_prod_unfold)
  qed
qed


end
