(* ===== verification/Bft_Properties.thy ===== *)
theory Bft_Properties
  imports Bft_Liveness
begin

text \<open>
  Consequences for the running consensus system (refinement of the specification, validity of
  commit certificates, detection of equivocation, round skips, timeouts) and small concrete
  systems on which the results about the engine are evaluated.
\<close>

section \<open>A one-validator network and an observer\<close>

definition demo_env :: "u8 list \<Rightarrow> bft_env" where
  "demo_env ks = \<lparr>env_crypto = demo_crypto, env_now = 100, env_validator_set = demo_set ks,
     env_stake_pool = demo_pool ks\<rparr>"

definition demo_engine :: "u8 \<Rightarrow> engine" where
  "demo_engine n = rebuild_power_snapshot (demo_env [1]) (start_height 5
     (engine_new (demo_keypair n) (demo_pubkey n) ''lichen'' MIN_VALIDATOR_STAKE timeout_config_default))"

definition demo_block :: "u8 \<Rightarrow> block" where
  "demo_block n = block_sign_with_chain_id demo_crypto (demo_keypair n) ''lichen''
     \<lparr>blk_header = \<lparr>hdr_slot = 5, hdr_parent_hash = hash_default, hdr_state_root = hash_default,
        hdr_tx_root = hash_default, hdr_timestamp = 90, hdr_validators_hash = hash_default,
        hdr_validator = demo_pubkey n, hdr_signature = None\<rparr>,
      blk_transactions = [], blk_tx_fees_paid = [], blk_oracle_prices = [], blk_commit_round = 0,
      blk_commit_signatures = []\<rparr>"

lemma demo_env_sel [simp]:
  "env_crypto (demo_env ks) = demo_crypto" "env_now (demo_env ks) = 100"
  "env_validator_set (demo_env ks) = demo_set ks" "env_stake_pool (demo_env ks) = demo_pool ks"
  by (simp_all add: demo_env_def)

lemma demo_sorted: "vs_sorted_validators (demo_set [1]) = [vi_new (demo_pubkey 1) 0]"
  by (simp add: vs_sorted_validators_def demo_set_def)

lemma demo_snapshot:
  "snapshot_build (demo_set [1]) (demo_pool [1]) MIN_VALIDATOR_STAKE =
     \<lparr>ps_eligible_power = [(demo_pubkey 1, BOOTSTRAP_GRANT_AMOUNT)], ps_total_eligible_stake = BOOTSTRAP_GRANT_AMOUNT\<rparr>"
proof -
  have "\<not> BOOTSTRAP_GRANT_AMOUNT < MIN_VALIDATOR_STAKE" by (simp add: policy_constants)
  moreover have "saturating_add128 0 BOOTSTRAP_GRANT_AMOUNT = BOOTSTRAP_GRANT_AMOUNT"
    by (simp add: saturating_add128_def policy_constants u128_max_def)
  ultimately show ?thesis
    by (simp add: snapshot_build_def demo_sorted snapshot_add_def vi_new_def demo_pool_def
        demo_stake_total Let_def)
qed

lemma demo_quorum: "snap.quorum (snapshot_build (demo_set [1]) (demo_pool [1]) MIN_VALIDATOR_STAKE) {demo_pubkey 1}"
  by (simp add: demo_snapshot snap.quorum_def snap.power_of_def hm_get_or_def) (simp add: policy_constants)

lemma demo_honest:
  "3 * byzantine_power (snapshot_build (demo_set [1]) (demo_pool [1]) MIN_VALIDATOR_STAKE) {demo_pubkey 1}
     < ps_total_eligible_stake (snapshot_build (demo_set [1]) (demo_pool [1]) MIN_VALIDATOR_STAKE)"
  by (simp add: demo_snapshot byzantine_power_def) (simp add: policy_constants)

lemma demo_entered: "entered (demo_env [1]) MIN_VALIDATOR_STAKE ''lichen'' 5 (demo_pubkey n) (demo_engine n)"
  unfolding entered_def demo_engine_def
  by (rule exI, rule conjI, rule refl) (simp add: engine_new_def)

lemma demo_sha256_hd: "hd (sha256 demo_crypto (x # d)) = x"
  unfolding demo_crypto_def crypto.select_convs by simp

lemma demo_block_hash [simp]: "block_hash demo_crypto (demo_block n) \<noteq> hash_default"
proof -
  have "header_signable_data (blk_header (demo_block n)) = 5 # le_bytes 7 0 @
      hash_bytes hash_default @ hash_bytes hash_default @ hash_bytes hash_default @ u64_to_le_bytes 90 @
      hash_bytes hash_default @ pk_bytes (demo_pubkey n)"
    by (simp add: demo_block_def header_signable_data_def block_sign_with_chain_id_def Let_def
        le_bytes.simps(2) [of 7 5, simplified])
  then have "hd (hash_bytes (block_hash demo_crypto (demo_block n))) = 5"
    by (simp add: block_hash_def header_signable_hash_def hash_data_def demo_sha256_hd)
  then show ?thesis by (auto simp: hash_default_def)
qed

definition demo_proposal :: proposal where
  "demo_proposal = \<lparr>prop_height = 5, prop_round = 0, prop_block = demo_block 1, prop_valid_round = - 1,
     prop_proposer = demo_pubkey 1,
     prop_signature = keypair_sign demo_crypto (demo_keypair 1)
       (proposal_signing_bytes_static_for_chain_id ''lichen'' 5 0 (block_hash demo_crypto (demo_block 1)) (- 1))\<rparr>"

definition demo_prevote :: "u8 \<Rightarrow> u32 \<Rightarrow> hash option \<Rightarrow> prevote" where
  "demo_prevote n r bh = \<lparr>pv_height = 5, pv_round = r, pv_block_hash = bh, pv_validator = demo_pubkey n,
     pv_signature = keypair_sign demo_crypto (demo_keypair n) (prevote_signing_bytes_for_chain_id ''lichen'' 5 r bh)\<rparr>"

definition demo_precommit :: "u8 \<Rightarrow> u32 \<Rightarrow> hash option \<Rightarrow> precommit" where
  "demo_precommit n r bh = \<lparr>pc_height = 5, pc_round = r, pc_block_hash = bh, pc_validator = demo_pubkey n,
     pc_signature = keypair_sign demo_crypto (demo_keypair n)
       (precommit_signing_bytes_for_chain_id ''lichen'' 5 r bh 100), pc_timestamp = 100\<rparr>"

lemma demo_prevote_sel [simp]:
  "pv_height (demo_prevote n r bh) = 5" "pv_round (demo_prevote n r bh) = r"
  "pv_block_hash (demo_prevote n r bh) = bh" "pv_validator (demo_prevote n r bh) = demo_pubkey n"
  "prevote_verify_signature_with_chain_id demo_crypto ''lichen'' (demo_prevote n r bh)"
  by (simp_all add: demo_prevote_def prevote_verify_signature_with_chain_id_def)

lemma demo_precommit_sel [simp]:
  "pc_height (demo_precommit n r bh) = 5" "pc_round (demo_precommit n r bh) = r"
  "pc_block_hash (demo_precommit n r bh) = bh" "pc_validator (demo_precommit n r bh) = demo_pubkey n"
  "precommit_verify_signature_with_chain_id demo_crypto ''lichen'' (demo_precommit n r bh)"
  by (simp_all add: demo_precommit_def precommit_verify_signature_with_chain_id_def)

lemma demo_leader:
  "select_leader_weighted demo_crypto (demo_set [1]) slot (demo_pool [1]) seed MIN_VALIDATOR_STAKE
     = Some (demo_pubkey 1)"
proof -
  have "leader_eligible (demo_pool [1]) MIN_VALIDATOR_STAKE (vi_new (demo_pubkey 1) 0)"
    by (simp add: leader_eligible_def demo_pool_def sp_new_def vi_new_def demo_stake_total)
      (simp add: policy_constants)
  moreover have "vi_pubkey (vi_new (demo_pubkey 1) 0) = demo_pubkey 1" by (simp add: vi_new_def)
  moreover have "vs_validators (demo_set [1]) \<noteq> []" by (simp add: demo_set_def)
  ultimately show ?thesis by (simp add: select_leader_weighted_def demo_sorted Let_def)
qed

lemma demo_good_proposal: "good_proposal (demo_env [1]) (demo_engine n) demo_proposal"
proof -
  have e: "en_height (demo_engine n) = 5" "en_signing_chain_id (demo_engine n) = ''lichen''"
    "en_min_validator_stake (demo_engine n) = MIN_VALIDATOR_STAKE"
    "en_last_committed_block_timestamp (demo_engine n) = None"
    by (simp_all add: demo_engine_def rebuild_power_snapshot_def rebuild_vote_power_tallies_def start_height_def
        engine_new_def Let_def)
  have "block_verify_signature_with_chain_id demo_crypto ''lichen'' (demo_block 1)"
    unfolding demo_block_def by (rule block_sign_verifies) simp_all
  moreover have "hdr_timestamp (blk_header (demo_block 1)) = 90"
    by (simp add: demo_block_def block_sign_with_chain_id_def Let_def)
  ultimately show ?thesis
    by (simp add: good_proposal_def e demo_proposal_def demo_leader proposal_verify_signature_with_chain_id_def
        proposal_signing_bytes_for_chain_id_def proposal_signing_bytes_static_for_chain_id_def wrapping_add64_def)
qed


section \<open>A validator with a quorum of its own\<close>

lemma own_votes_quorum:
  assumes v: "voting_on c ch s h b e" and q: "snap.quorum s {en_validator_pubkey e}"
  shows "\<not> prevoted s b e" "\<not> precommitted s b e"
proof -
  note d = voting_onD [OF v] and own = engine_invD(2,8) [OF voting_onD(1) [OF v]]
  have "en_validator_pubkey e \<in> voters_for (en_seen_prevotes e) 0 (Some b)"
    if "hm_get (en_signed_prevote_rounds e) 0 \<noteq> None"
    using that own(2) ranI [of "hm_get (en_seen_prevotes e)" "(0, en_validator_pubkey e)"] d(5)
    by (fastforce simp: own_votes_ok_def voters_for_def)
  moreover have "en_validator_pubkey e \<in> voters_for (en_seen_precommits e) 0 (Some b)"
    if "hm_get (en_signed_precommit_rounds e) 0 \<noteq> None"
    using that own(2) ranI [of "hm_get (en_seen_precommits e)" "(0, en_validator_pubkey e)"] d(6)
    by (fastforce simp: own_votes_ok_def voters_for_def)
  ultimately show "\<not> prevoted s b e" "\<not> precommitted s b e"
    unfolding prevoted_def precommitted_def using snap.quorum_mono [OF own(1) q] by blast+
qed

lemma sole_validator_commits:
  assumes e: "entered env ms ch h me e" and c: "crypto_laws (env_crypto env)"
    and s: "snapshot_ok (height_snapshot env ms)" and q: "snap.quorum (height_snapshot env ms) {me}"
    and b: "b = block_hash (env_crypto env) blk" "b \<noteq> hash_default"
  shows "commits_block h b (snd (create_proposal env blk e))"
proof -
  let ?s = "height_snapshot env ms" and ?c = "env_crypto env"
  note sel = entered_sel [OF e]
  define p where "p = \<lparr>prop_height = en_height e, prop_round = en_round e, prop_block = blk,
     prop_valid_round = - 1, prop_proposer = en_validator_pubkey e,
     prop_signature = keypair_sign ?c (en_keypair e)
       (proposal_signing_bytes_static_for_chain_id (en_signing_chain_id e) (en_height e) (en_round e) b (- 1))\<rparr>"
  let ?e2 = "e\<lparr>en_proposal_blocks := hm_insert b (prop_block p) (en_proposal_blocks e),
      en_proposals := hm_insert 0 p (en_proposals e)\<rparr>"
  have "eng_step env e ?e2" by (rule eng_step.store_proposal) (use b in \<open>simp_all add: p_def\<close>)
  from eng_step_inv [OF this entered_inv(1) [OF e c s]] have "engine_inv ?c ?s ?e2" .
  then have v: "voting_on ?c ch ?s h b ?e2" using sel by (simp add: voting_on_def)
  from prevote_progress [OF v _ refl] sel obtain e' a where
    a: "do_prevote env (Some b) ?e2 = (e', a)" "voting_on ?c ch ?s h b e'"
      "prevoted ?s b e' \<or> precommits_block b a \<and> (precommitted ?s b e' \<or> commits_block h b a)" by auto
  have "en_validator_pubkey ?e2 = me" "en_signed_prevote_rounds ?e2 = []" using sel by simp_all
  have "en_validator_pubkey e' = me"
  proof -
    have "engine_inv (env_crypto env) ?s ?e2" using v by (simp add: voting_on_def)
    from do_prevote_handles [OF this, of "Some b"] sel b a(1) have "eng_steps env ?e2 e'"
      by (auto simp: handles_def engine_may_prevote_def)
    from eng_steps_static [OF this] sel(7) show ?thesis by (simp add: engine_static_def)
  qed
  with own_votes_quorum [OF a(2)] q a(3) have "commits_block h b a" by auto
  moreover have "create_proposal env blk e = (e', Multiple [BroadcastProposal p, a])"
    using sel a(1) b(1) by (simp add: create_proposal_def proposal_value_def Let_def p_def)
  ultimately show ?thesis by (simp add: commits_block_def)
qed

section \<open>Recovery\<close>

theorem recovered_engine_never_resigns_witness:
  "\<exists>e1 e2. restore_prevotes demo_crypto [demo_prevote 1 0 None] (demo_engine 1) = Inr e1 \<and>
     restore_precommits demo_crypto [demo_precommit 1 0 None] e1 = Inr e2 \<and>
     (\<not> (\<exists>a \<in> set (snd (engine_history [(demo_env [1], Call_event (Ev_propose (demo_block 1)))] e2)).
        \<exists>v \<in> set (prevotes_of a). pv_round v = 0))"
proof -
  note sel = entered_sel [OF demo_entered, of 1]
  obtain e1 where 1: "restore_prevotes demo_crypto [demo_prevote 1 0 None] (demo_engine 1) = Inr e1"
    and k: "en_height e1 = 5" "en_signed_precommit_rounds e1 = []" "en_validator_pubkey e1 = demo_pubkey 1"
      "en_signing_chain_id e1 = ''lichen''"
    using sel by (simp add: restore_signed_prevote_def Let_def demo_prevote_def add_prevote_power_def
        split: option.splits)
  obtain e2 where 2: "restore_precommits demo_crypto [demo_precommit 1 0 None] e1 = Inr e2"
    using k by (simp add: restore_signed_precommit_def Let_def demo_precommit_def)
  from recovered_engine_never_resigns [OF 1 2, of "[(demo_env [1], Call_event (Ev_propose (demo_block 1)))]"] sel
  have "\<not> (\<exists>a \<in> set (snd (engine_history [(demo_env [1], Call_event (Ev_propose (demo_block 1)))] e2)).
      \<exists>v \<in> set (prevotes_of a). pv_round v = 0)" by auto
  with 1 2 show ?thesis by blast
qed

section \<open>Refinement and certificates\<close>


lemma demo_start: "bft_run (demo_env [1]) MIN_VALIDATOR_STAKE ''lichen'' 5 {demo_pubkey 1} (\<lambda>_. demo_engine 1) {}"
  by (rule bft_run.bft_start) (simp add: demo_entered)


lemma commit_event_certificate:
  assumes run: "bft_run env0 ms ch h H E C" and c: "crypto_laws (env_crypto env0)"
    and len: "length (vs_sorted_validators (env_validator_set env0)) \<le> 2 ^ 64"
    and v: "v \<in> H" and env: "env_crypto env = env_crypto env0" and ev: "round_room (E v)" "event_ok env H E v ev"
    and cm: "(h', r, blk, bh) \<in> set (commits_of (snd (handle env ev (E v))))"
  shows "h' = h \<and> block_hash (env_crypto env0) blk = bh \<and> blk_commit_round blk = r \<and>
    certificate_ok (env_crypto env0) ch (height_snapshot env0 ms) h r bh (blk_commit_signatures blk)"
proof -
  let ?s = "height_snapshot env0 ms"
  have ok: "run_ok (env_crypto env0) ch h ?s H E C" by (rule bft_run_ok [OF run c snapshot_build_ok [OF len]])
  from event_lift [of env ch h ?s H E C v ev] ok v env ev obtain e1 where
    st: "engine_static e1 = engine_static (E v)" and hd: "handles env ?s e1 (handle env ev (E v))" by auto
  from hd eng_steps_static [of env e1] st
  have "engine_static (fst (handle env ev (E v))) = engine_static (E v)" by (simp add: handles_def)
  then have "en_height (fst (handle env ev (E v))) = h" "en_signing_chain_id (fst (handle env ev (E v))) = ch"
    using ok v by (auto simp: engine_static_def run_ok_def)
  moreover from hd cm have "commit_ok (env_crypto env) ?s (fst (handle env ev (E v))) (h', r, blk, bh)"
    by (auto simp: handles_def)
  ultimately show ?thesis using env by (auto simp: commit_ok_def)
qed

text \<open>
  C6: every block an honest engine hands over for commit is for the current height, has the
  hash it was voted under, and carries a commit certificate: distinct validators holding two
  thirds of the frozen power, each with a precommit signature for this chain, height, round and
  block that verifies.
\<close>

theorem commits_carry_certificates:
  assumes run: "bft_run env0 ms ch h H E C" and c: "crypto_laws (env_crypto env0)"
    and len: "length (vs_sorted_validators (env_validator_set env0)) \<le> 2 ^ 64"
    and v: "v \<in> H" and env: "env_crypto env = env_crypto env0" and ev: "round_room (E v)" "event_ok env H E v ev"
    and cm: "(h', r, blk, bh) \<in> set (commits_of (snd (handle env ev (E v))))"
  shows "h' = h \<and> block_hash (env_crypto env0) blk = bh \<and> blk_commit_round blk = r \<and>
    certificate_ok (env_crypto env0) ch (height_snapshot env0 ms) h r bh (blk_commit_signatures blk)"
  by (rule commit_event_certificate [OF assms])

lemma demo_commit:
  obtains blk where "(5, 0, blk, block_hash demo_crypto (demo_block 1))
    \<in> set (commits_of (snd (handle (demo_env [1]) (Ev_propose (demo_block 1)) (demo_engine 1))))"
proof -
  have ok: "snapshot_ok (height_snapshot (demo_env [1]) MIN_VALIDATOR_STAKE)"
    by (rule snapshot_build_ok) (simp add: demo_sorted)
  have "commits_block 5 (block_hash demo_crypto (demo_block 1))
      (snd (create_proposal (demo_env [1]) (demo_block 1) (demo_engine 1)))"
    by (rule sole_validator_commits [OF demo_entered _ ok]) (simp_all add: demo_quorum)
  then show ?thesis using that by (auto simp: commits_block_def)
qed

lemma demo_room: "round_room (demo_engine 1)"
  using entered_sel(1-3) [OF demo_entered] by (simp add: round_room_def)


theorem commits_carry_certificates_witness:
  "\<exists>blk :: block. certificate_ok demo_crypto ''lichen'' (height_snapshot (demo_env [1]) MIN_VALIDATOR_STAKE) 5 0
     (block_hash demo_crypto (demo_block 1)) (blk_commit_signatures blk)"
proof -
  obtain blk where c: "(5, 0, blk, block_hash demo_crypto (demo_block 1))
      \<in> set (commits_of (snd (handle (demo_env [1]) (Ev_propose (demo_block 1)) (demo_engine 1))))"
    by (rule demo_commit)
  have "5 = (5::nat) \<and> block_hash (env_crypto (demo_env [1])) blk = block_hash demo_crypto (demo_block 1) \<and>
      blk_commit_round blk = 0 \<and> certificate_ok (env_crypto (demo_env [1])) ''lichen''
        (height_snapshot (demo_env [1]) MIN_VALIDATOR_STAKE) 5 0
        (block_hash demo_crypto (demo_block 1)) (blk_commit_signatures blk)"
    by (rule commits_carry_certificates [OF demo_start _ _ _ refl _ _ c])
      (simp_all add: demo_sorted demo_room event_ok_def)
  then show ?thesis by (intro exI [of _ blk]) simp
qed

section \<open>Equivocation\<close>

abbreviation evidence :: "slashing_offense \<Rightarrow> pubkey \<Rightarrow> u64 \<Rightarrow> pubkey \<Rightarrow> u64 \<Rightarrow> slashing_evidence" where
  "evidence offense pk slot rep ts \<equiv> \<lparr>se_offense = offense, se_validator = pk, se_evidence_slot = slot,
     se_reporter = rep, se_timestamp = ts\<rparr>"

lemma equivocating_prevote:
  assumes inv: "engine_inv (env_crypto env) s e" and v: "pv_height v = en_height e"
    "prevote_verify_signature_with_chain_id (env_crypto env) (en_signing_chain_id e) v"
    "eligible_stake env e (pv_validator v) \<noteq> None"
    and old: "hm_get (en_seen_prevotes e) (pv_round v, pv_validator v) = Some bh" "bh \<noteq> pv_block_hash v"
  shows "\<exists>w. on_prevote env v e = (e, EquivocationDetected (en_height e) (pv_round v) (pv_validator v) ''prevote''
      bh (pv_block_hash v) (DoublePrevoteV2 w v)) \<and>
    se_verify_with_chain_id (env_crypto env) (en_signing_chain_id e)
      (evidence (DoublePrevoteV2 w v) (pv_validator v) slot rep ts)"
proof -
  from engine_invD(10) [OF inv] old(1) obtain w where
    "hm_get (en_seen_prevote_messages e) (pv_round v, pv_validator v) = Some w" "pv_height w = en_height e"
    "pv_round w = pv_round v" "pv_validator w = pv_validator v" "pv_block_hash w = bh"
    "prevote_verify_signature_with_chain_id (env_crypto env) (en_signing_chain_id e) w"
    unfolding messages_ok_def by blast
  with v old show ?thesis by (auto simp: on_prevote_def se_verify_with_chain_id_def)
qed

lemma equivocating_precommit:
  assumes inv: "engine_inv (env_crypto env) s e" and v: "pc_height v = en_height e"
    "precommit_verify_signature_with_chain_id (env_crypto env) (en_signing_chain_id e) v"
    "eligible_stake env e (pc_validator v) \<noteq> None"
    and old: "hm_get (en_seen_precommits e) (pc_round v, pc_validator v) = Some bh" "bh \<noteq> pc_block_hash v"
  shows "\<exists>w. on_precommit env v e = (e, EquivocationDetected (en_height e) (pc_round v) (pc_validator v) ''precommit''
      bh (pc_block_hash v) (DoublePrecommitV2 w v)) \<and>
    se_verify_with_chain_id (env_crypto env) (en_signing_chain_id e)
      (evidence (DoublePrecommitV2 w v) (pc_validator v) slot rep ts)"
proof -
  from engine_invD(10) [OF inv] old(1) obtain w where
    "hm_get (en_seen_precommit_messages e) (pc_round v, pc_validator v) = Some w" "pc_height w = en_height e"
    "pc_round w = pc_round v" "pc_validator w = pc_validator v" "pc_block_hash w = bh"
    "precommit_verify_signature_with_chain_id (env_crypto env) (en_signing_chain_id e) w"
    unfolding messages_ok_def by blast
  with v old show ?thesis by (auto simp: on_precommit_def se_verify_with_chain_id_def)
qed

text \<open>
  C23: an honest validator that sees two validly signed votes of an eligible validator for
  different values in the same round reports it, with evidence that the chain accepts; and its
  state does not change, so the second vote counts for nothing.
\<close>

theorem equivocation_is_reported:
  assumes run: "bft_run env0 ms ch h H E C" "crypto_laws (env_crypto env0)"
      "length (vs_sorted_validators (env_validator_set env0)) \<le> 2 ^ 64"
    and u: "u \<in> H" and env: "env_crypto env = env_crypto env0"
  shows "(pv_height v = h \<and> prevote_verify_signature_with_chain_id (env_crypto env) ch v \<and>
      eligible_stake env (E u) (pv_validator v) \<noteq> None \<and>
      hm_get (en_seen_prevotes (E u)) (pv_round v, pv_validator v) = Some bh \<and> bh \<noteq> pv_block_hash v \<longrightarrow>
      (\<exists>w. on_prevote env v (E u) = (E u, EquivocationDetected h (pv_round v) (pv_validator v) ''prevote''
          bh (pv_block_hash v) (DoublePrevoteV2 w v)) \<and>
        se_verify_with_chain_id (env_crypto env) ch (evidence (DoublePrevoteV2 w v) (pv_validator v) slot rep ts))) \<and>
    (pc_height v' = h \<and> precommit_verify_signature_with_chain_id (env_crypto env) ch v' \<and>
      eligible_stake env (E u) (pc_validator v') \<noteq> None \<and>
      hm_get (en_seen_precommits (E u)) (pc_round v', pc_validator v') = Some bh \<and> bh \<noteq> pc_block_hash v' \<longrightarrow>
      (\<exists>w. on_precommit env v' (E u) = (E u, EquivocationDetected h (pc_round v') (pc_validator v') ''precommit''
          bh (pc_block_hash v') (DoublePrecommitV2 w v')) \<and>
        se_verify_with_chain_id (env_crypto env) ch (evidence (DoublePrecommitV2 w v') (pc_validator v') slot rep ts)))"
proof -
  from bft_run_ok [OF run(1,2) snapshot_build_ok [OF run(3)]] u
  have e: "engine_inv (env_crypto env) (height_snapshot env0 ms) (E u)" "en_height (E u) = h"
    "en_signing_chain_id (E u) = ch" using env by (auto simp: run_ok_def)
  show ?thesis
    using equivocating_prevote [OF e(1), of v bh slot rep ts]
      equivocating_precommit [OF e(1), of v' bh slot rep ts] e(2,3) by auto
qed

theorem equivocation_is_reported_witness:
  "\<exists>E w. bft_run (demo_env [1]) MIN_VALIDATOR_STAKE ''lichen'' 5 {demo_pubkey 2} E {} \<and>
     on_prevote (demo_env [1]) (demo_prevote 1 0 (Some (Hash [1]))) (E (demo_pubkey 2)) =
       (E (demo_pubkey 2), EquivocationDetected 5 0 (demo_pubkey 1) ''prevote'' None (Some (Hash [1]))
          (DoublePrevoteV2 w (demo_prevote 1 0 (Some (Hash [1])))))"
proof -
  let ?env = "demo_env [1]" and ?m = "demo_prevote 1 0 None" and ?v = "demo_pubkey 2"
  let ?e = "record_prevote ?m BOOTSTRAP_GRANT_AMOUNT (demo_engine 2)"
  let ?E = "(\<lambda>_. demo_engine 2)(?v := ?e)"
  note sel = entered_sel [OF demo_entered, of 2]
  have el: "eligible_stake ?env (demo_engine 2) (demo_pubkey 1) = Some BOOTSTRAP_GRANT_AMOUNT"
    using sel by (simp add: eligible_stake_def demo_snapshot)
  have h: "handle ?env (Ev_prevote ?m) (demo_engine 2) = (?e, NoAction)"
    using el sel by (simp add: on_prevote_def prevote_rules_def prevote_rule_polka_def prevote_rule_nil_def
        prevote_rule_any_def run_skip_def pack_actions_def)
  have 0: "bft_run ?env MIN_VALIDATOR_STAKE ''lichen'' 5 {?v} (\<lambda>_. demo_engine 2) {}"
    by (rule bft_run.bft_start) (simp add: demo_entered)
  have "round_room (demo_engine 2)" using sel by (simp add: round_room_def)
  from bft_run.bft_event [OF 0, of ?v ?env "Ev_prevote ?m" ?e NoAction] this h
  have run: "bft_run ?env MIN_VALIDATOR_STAKE ''lichen'' 5 {?v} ?E {}" by (simp add: event_ok_def)
  have el': "eligible_stake ?env ?e (demo_pubkey 1) \<noteq> None"
    using sel by (simp add: eligible_stake_def demo_snapshot)
  from equivocation_is_reported [OF run, where u = ?v and env = ?env and v = "demo_prevote 1 0 (Some (Hash [1]))"
      and bh = None and v' = "demo_precommit 1 0 None" and slot = 6 and rep = ?v and ts = 0] el'
  have "\<exists>w. on_prevote ?env (demo_prevote 1 0 (Some (Hash [1]))) (?E ?v) = (?E ?v,
      EquivocationDetected 5 0 (demo_pubkey 1) ''prevote'' None (Some (Hash [1]))
        (DoublePrevoteV2 w (demo_prevote 1 0 (Some (Hash [1])))))"
    by (auto simp: demo_sorted)
  with run show ?thesis by blast
qed

text \<open>
  C29: a nil vote incriminates its honest signer. The signed bytes of a nil vote are those of a vote
  for the all-zero hash, and the evidence check only compares the hashes in the messages: from
  any validly signed nil prevote or precommit anybody derives double-vote evidence that the
  chain accepts.
\<close>

theorem nil_vote_is_accepted_as_double_vote:
  "(prevote_verify_signature_with_chain_id c ch v \<and> pv_block_hash v = None \<longrightarrow>
      se_verify_with_chain_id c ch
        (evidence (DoublePrevoteV2 v (v\<lparr>pv_block_hash := Some hash_default\<rparr>)) (pv_validator v) slot rep ts)) \<and>
    (precommit_verify_signature_with_chain_id c ch w \<and> pc_block_hash w = None \<longrightarrow>
      se_verify_with_chain_id c ch
        (evidence (DoublePrecommitV2 w (w\<lparr>pc_block_hash := Some hash_default\<rparr>)) (pc_validator w) slot rep ts))"
  by (auto simp: se_verify_with_chain_id_def prevote_verify_signature_with_chain_id_def
      precommit_verify_signature_with_chain_id_def prevote_signing_bytes_for_chain_id_def
      precommit_signing_bytes_for_chain_id_def prevote_signable_bytes_def precommit_signable_bytes_def
      vote_hash_bytes_def hash_default_def)

theorem nil_vote_is_accepted_as_double_vote_witness:
  "se_verify_with_chain_id demo_crypto ''lichen'' (evidence (DoublePrevoteV2 (demo_prevote 1 0 None)
     ((demo_prevote 1 0 None)\<lparr>pv_block_hash := Some hash_default\<rparr>)) (demo_pubkey 1) 6 (demo_pubkey 2) 100)"
  using nil_vote_is_accepted_as_double_vote [of demo_crypto "''lichen''" "demo_prevote 1 0 None" 6 "demo_pubkey 2" 100]
  by simp

section \<open>Timeouts\<close>

lemma timeout_step_mono:
  assumes "t * 3 < 2 ^ 64"
  shows "min t m \<le> min (wrapping_mul64 t 3 div 2) m"
  using assms by (simp add: wrapping_mul64_def min_def) linarith

lemma timeout_loop_mono:
  assumes "t * 3 < 2 ^ 64" "m * 3 < 2 ^ 64" "n \<le> k"
  shows "min (timeout_loop n t m) m \<le> min (timeout_loop k t m) m"
  using assms
proof (induction n t m arbitrary: k rule: timeout_loop.induct)
  case (1 t m)
  have "min t m \<le> min (timeout_loop k t m) m" if "t * 3 < 2 ^ 64" for t
    using that
  proof (induction k arbitrary: t)
    case (Suc k)
    let ?t = "min (wrapping_mul64 t 3 div 2) m"
    have "?t * 3 < 2 ^ 64" using \<open>m * 3 < 2 ^ 64\<close> by (simp add: min_def)
    note ih = Suc.IH [OF this]
    have "min t m \<le> ?t" by (rule timeout_step_mono [OF Suc.prems])
    also have "?t = min ?t m" by simp
    also note ih
    finally show ?case by simp
  qed simp
  with 1 show ?case by simp
next
  case (2 n t m)
  then obtain k' where k: "k = Suc k'" "n \<le> k'" by (cases k) auto
  have "min (wrapping_mul64 t 3 div 2) m * 3 < 2 ^ 64" using \<open>m * 3 < 2 ^ 64\<close> by (simp add: min_def)
  with 2 k show ?case by simp
qed

text \<open>
  C31: round timeouts grow with the round and stay below the configured maximum, whatever the
  round; the bounds on the configuration keep \<open>timeout * 3\<close> within \<open>u64\<close>.
\<close>

theorem timeouts_grow_and_are_capped:
  assumes "base * 3 < 2 ^ 64" "cap * 3 < 2 ^ 64" "r \<le> r'"
  shows "exponential_timeout base r cap \<le> exponential_timeout base r' cap \<and>
    exponential_timeout base r' cap \<le> cap \<and> min base cap \<le> exponential_timeout base r cap"
  using timeout_loop_mono [OF assms(1,2), of "min r 20" "min r' 20"]
    timeout_loop_mono [OF assms(1,2), of 0 "min r 20"] assms(3)
  by (simp add: exponential_timeout_def min_def)

theorem timeouts_grow_and_are_capped_witness:
  "exponential_timeout 800 3 5000 \<le> exponential_timeout 800 7 5000 \<and> exponential_timeout 800 7 5000 \<le> 5000"
  using timeouts_grow_and_are_capped [of 800 5000 3 7] by simp

section \<open>Round skip\<close>

lemma foldl_max_Max: "foldl max (m :: nat) xs = Max (insert m (set xs))"
proof (induction xs arbitrary: m)
  case (Cons x xs)
  then show ?case by (cases "xs = []") (simp_all add: insert_commute max.assoc)
qed simp

lemma nil_prevote_stays:
  assumes inv: "engine_inv (env_crypto env) s e"
    and nq: "\<not> snap.quorum s (insert (en_validator_pubkey e) (voters_for (en_seen_prevotes e) (en_round e) None))"
  shows "en_round (fst (do_prevote env None e)) = en_round e"
proof (cases "hm_get (en_signed_prevote_rounds e) (en_round e)")
  case (Some x)
  then show ?thesis by (simp add: do_prevote_def hm_contains_def del: hm_contains_iff)
next
  case None
  let ?e1 = "transition_to Prevote e"
  let ?e2 = "record_own_prevote env None ?e1"
  have "engine_inv (env_crypto env) s ?e1" by (rule eng_steps_inv [OF _ inv]) simp
  then have i2: "engine_inv (env_crypto env) s ?e2"
    by (rule engine_inv_own_prevote) (use None in simp_all)
  have "\<not> has_supermajority_power env ?e2 (prevote_bucket_power env ?e2 (en_round e, None))"
    unfolding pv_quorum_iff [OF i2] using nq by (simp add: voters_for_own)
  with None show ?thesis by (simp add: do_prevote_def Let_def hm_contains_def del: hm_contains_iff)
qed

lemma voter_stake_cong:
  "en_power_snapshot e = Some s \<Longrightarrow> snapshot_ok s \<Longrightarrow>
     voter_stake env e (remdups xs) = snap.power_of s (set xs)"
  using voter_stake_power [of s e "remdups xs" env] by simp

lemma future_after:
  assumes "en_round e < pv_round v"
  shows "set (future_vote_keys (record_prevote v p e)) = insert (pv_round v, pv_validator v) (set (future_vote_keys e))"
proof -
  have "set (hm_keys (en_seen_prevotes (record_prevote v p e))) =
      insert (pv_round v, pv_validator v) (set (hm_keys (en_seen_prevotes e)))"
    by (simp add: dom_update)
  then show ?thesis using assms by (auto simp: future_vote_keys_def)
qed

lemma future_max:
  assumes "en_round e < pv_round v"
    and "fst ` set (hm_keys (en_seen_prevotes e) @ hm_keys (en_seen_precommits e)) \<subseteq> {..<pv_round v}"
  shows "foldl max (en_round (record_prevote v p e)) (map fst (future_vote_keys (record_prevote v p e))) = pv_round v"
proof -
  have "fst ` set (future_vote_keys e) \<subseteq> {..<pv_round v}" using assms(2) by (auto simp: future_vote_keys_def)
  then have "Max (insert (en_round e) (insert (pv_round v) (fst ` set (future_vote_keys e)))) = pv_round v"
    using assms(1) by (intro Max_eqI) auto
  then show ?thesis by (simp add: foldl_max_Max future_after [OF assms(1)])
qed

lemma above_unseen:
  assumes "fst ` set (hm_keys (en_seen_prevotes e) @ hm_keys (en_seen_precommits e)) \<subseteq> {..<r}"
  shows "hm_get (en_seen_prevotes e) (r, pk) = None"
proof (rule ccontr)
  assume "hm_get (en_seen_prevotes e) (r, pk) \<noteq> None"
  then have "fst (r, pk) \<in> fst ` set (hm_keys (en_seen_prevotes e) @ hm_keys (en_seen_precommits e))"
    by (intro imageI) (simp add: map_of_eq_None_iff)
  with assms show False by auto
qed

text \<open>
  C30: one vote decides the round to which an engine skips. When validators with more than a third
  of the power, this voter included, have voted in later rounds, a single prevote from an
  eligible validator moves the engine to the round of that vote, however far ahead, even if
  every other vote ahead is for the next round.
\<close>

theorem single_vote_sets_round:
  assumes inv: "engine_inv (env_crypto env) s e" and acc: "accepts_prevote env e v"
    and ne: "pv_validator v \<noteq> en_validator_pubkey e" and ahead: "en_round e < pv_round v"
    and top: "fst ` set (hm_keys (en_seen_prevotes e) @ hm_keys (en_seen_precommits e)) \<subseteq> {..<pv_round v}"
    and third: "ps_total_eligible_stake s <
      3 * snap.power_of s (insert (pv_validator v) (snd ` set (future_vote_keys e)))"
    and fresh: "hm_get (en_proposals e) (pv_round v) = None"
      "\<not> snap.quorum s {en_validator_pubkey e, pv_validator v}"
  shows "en_round (fst (on_prevote env v e)) = pv_round v"
proof -
  obtain p where p: "eligible_stake env e (pv_validator v) = Some p" using acc by (auto simp: accepts_prevote_def)
  let ?e = "record_prevote v p e" and ?R = "pv_round v"
  note d = engine_invD [OF engine_inv_record_prevote [OF inv acc p ne]]
  note i = engine_inv_record_prevote [OF inv acc p ne]
  note mx = future_max [OF ahead top, of p] and f = future_after [OF ahead, of p]
  have st: "voter_stake env ?e (remdups (map snd (future_vote_keys ?e))) =
      snap.power_of s (insert (pv_validator v) (snd ` set (future_vote_keys e)))"
    by (simp add: voter_stake_cong [OF d(1,2)] f)
  have total: "total_eligible_stake env ?e = ps_total_eligible_stake s" using d(1) by (simp add: total_eligible_stake_def)
  have pos: "ps_total_eligible_stake s \<noteq> 0"
    using third snap.power_of_le_full [OF d(2), of "insert (pv_validator v) (snd ` set (future_vote_keys e))"] by auto
  let ?e3 = "?e\<lparr>en_round := ?R, en_step := Propose\<rparr>"
  have i3: "engine_inv (env_crypto env) s ?e3" by (rule engine_inv_frame(7) [OF i])
  have "hm_get (en_seen_prevotes e) (?R, pk) = None" for pk by (rule above_unseen [OF top])
  then have "voters_for (en_seen_prevotes ?e3) ?R None \<subseteq> {pv_validator v}"
    by (auto simp: voters_for_def split: if_splits)
  then have "insert (en_validator_pubkey e) (voters_for (en_seen_prevotes ?e3) ?R None) \<subseteq>
      {en_validator_pubkey e, pv_validator v}" by blast
  with fresh(2) snap.quorum_mono [OF d(2)]
  have "\<not> snap.quorum s (insert (en_validator_pubkey e) (voters_for (en_seen_prevotes ?e3) ?R None))" by blast
  then have stay: "en_round (fst (do_prevote env None ?e3)) = ?R" using nil_prevote_stays [OF i3] by simp
  have "fst (catch_up 100 env ?e3) = fst (do_prevote env None ?e3)"
    using catch_up.simps(2) [of 99 env ?e3] stay fresh(1) by (simp add: case_prod_unfold Let_def)
  then have "en_round (fst (check_round_skip env ?e)) = ?R"
    using mx st total pos third ahead stay
    by (simp add: check_round_skip_def start_round_def Let_def case_prod_unfold mult.commute)
  moreover have "on_prevote env v e = run_skip env ?R (?e, [])"
    using acc p ahead by (simp add: on_prevote_def accepts_prevote_def)
  ultimately show ?thesis using ahead by (simp add: run_skip_def case_prod_unfold)
qed

definition demo_four :: power_snapshot where
  "demo_four = \<lparr>ps_eligible_power = map (\<lambda>k. (demo_pubkey k, 1)) [1, 2, 3, 4], ps_total_eligible_stake = 4\<rparr>"

definition demo_lagging :: engine where
  "demo_lagging = (engine_new (demo_keypair 1) (demo_pubkey 1) ''lichen'' 1 timeout_config_default)
     \<lparr>en_height := 5, en_step := Propose, en_power_snapshot := Some demo_four\<rparr>"

lemma demo_lagging_inv: "engine_inv demo_crypto demo_four demo_lagging"
  by (simp add: engine_inv_def demo_lagging_def engine_new_def snapshot_ok_def books_ok_empty own_votes_ok_def
      blocks_ok_def messages_ok_def) (simp add: demo_four_def)

lemma demo_lagging_eligible:
  "k \<in> {1, 2, 3, 4} \<Longrightarrow> eligible_stake env demo_lagging (demo_pubkey k) = Some 1"
  by (auto simp: eligible_stake_def demo_lagging_def demo_four_def)

theorem single_vote_sets_round_witness:
  "en_round (fst (on_prevote (demo_env []) (demo_prevote 4 (2 ^ 32 - 1) None)
     (record_prevote (demo_prevote 2 1 None) 1 demo_lagging))) = 2 ^ 32 - 1"
proof -
  let ?env = "demo_env []" and ?e = "record_prevote (demo_prevote 2 1 None) 1 demo_lagging"
  have sel: "en_height demo_lagging = 5" "en_signing_chain_id demo_lagging = ''lichen''" "en_round demo_lagging = 0"
    "en_validator_pubkey demo_lagging = demo_pubkey 1" "en_seen_prevotes demo_lagging = []"
    "en_seen_precommits demo_lagging = []" "en_proposals demo_lagging = []"
    "en_power_snapshot demo_lagging = Some demo_four"
    by (simp_all add: demo_lagging_def engine_new_def)
  have inv: "engine_inv (env_crypto ?env) demo_four ?e"
    by (rule engine_inv_record_prevote) (simp_all add: demo_lagging_inv accepts_prevote_def sel demo_lagging_eligible)
  have acc: "accepts_prevote ?env ?e (demo_prevote 4 (2 ^ 32 - 1) None)"
    by (simp add: accepts_prevote_def sel eligible_stake_def) (simp add: demo_four_def)
  have keys: "future_vote_keys ?e = [(1, demo_pubkey 2)]" by (simp add: future_vote_keys_def sel)
  have "en_round (fst (on_prevote ?env (demo_prevote 4 (2 ^ 32 - 1) None) ?e)) = pv_round (demo_prevote 4 (2 ^ 32 - 1) None)"
    by (rule single_vote_sets_round [OF inv acc])
      (simp_all add: sel keys [simplified] snap.quorum_def snap.power_of_def hm_get_or_def demo_four_def)
  then show ?thesis by simp
qed

end
