(* ===== verification/Commit_Certificate.thy ===== *)
theory Commit_Certificate
  imports Bft_Properties
begin

text \<open>
  Finality evidence. A committed block carries the precommit signatures of a quorum, which any
  node re-verifies against a validator set and stake pool (\<open>core/src/block.rs\<close>), and whose
  stake-weighted median timestamp is the BFT time. The next block carries the certificate of its
  parent in canonical form, together with the voting powers it is weighed with
  (\<open>core/src/consensus.rs\<close>). The lemmas show what a verified certificate establishes, that the
  certificates of the consensus engine verify, and that conflicting certificates expose
  validators holding a third of the stake.
\<close>

section \<open>Verification of a commit\<close>

text \<open>The signed bytes of the precommits of a block, with and without the chain domain.\<close>

definition commit_signature_valid ::
  "crypto \<Rightarrow> string \<Rightarrow> u64 \<Rightarrow> block \<Rightarrow> commit_signature \<Rightarrow> bool" where
  "commit_signature_valid c chain_id activation_slot blk cs =
     (let slot = hdr_slot (blk_header blk);
          bh = Some (block_hash c blk);
          domain_valid = keypair_verify c (cs_validator cs)
            (precommit_signing_bytes_for_chain_id chain_id slot (blk_commit_round blk) bh (cs_timestamp cs))
            (cs_signature cs);
          historical_valid =
            (if \<not> domain_valid \<and> slot < activation_slot
             then keypair_verify c (cs_validator cs)
               (precommit_signable_bytes slot (blk_commit_round blk) bh (cs_timestamp cs)) (cs_signature cs)
             else False)
      in domain_valid \<or> historical_valid)"

text \<open>The loop over the commit signatures: the validators seen so far and the committed stake.\<close>

fun commit_stake_loop ::
  "(commit_signature \<Rightarrow> bool) \<Rightarrow> (pubkey \<Rightarrow> u64 option) \<Rightarrow> pubkey set \<Rightarrow> u128 \<Rightarrow> commit_signature list \<Rightarrow> u128" where
  "commit_stake_loop valid stake_of seen committed_stake [] = committed_stake"
| "commit_stake_loop valid stake_of seen committed_stake (cs # rest) =
     (if cs_validator cs \<in> seen then commit_stake_loop valid stake_of seen committed_stake rest
      else
        let seen = insert (cs_validator cs) seen in
        case stake_of (cs_validator cs) of
          None \<Rightarrow> commit_stake_loop valid stake_of seen committed_stake rest
        | Some stake \<Rightarrow>
            if valid cs then commit_stake_loop valid stake_of seen (committed_stake + stake) rest
            else commit_stake_loop valid stake_of seen committed_stake rest)"

definition verify_commit_with_chain_id_and_min_stake_for_history ::
  "crypto \<Rightarrow> string \<Rightarrow> u64 \<Rightarrow> validator_set \<Rightarrow> stake_pool \<Rightarrow> u64 \<Rightarrow> block \<Rightarrow> err + unit" where
  "verify_commit_with_chain_id_and_min_stake_for_history c chain_id activation_slot vs pool min_validator_stake blk =
     (if hdr_slot (blk_header blk) = 0 then Inr ()
      else if blk_commit_signatures blk = [] then Inl ''Block has no commit signatures''
      else
        let total_stake = total_eligible_validator_stake vs pool min_validator_stake in
        if total_stake = 0 then Inl ''No staked validators in set''
        else
          let committed_stake = commit_stake_loop (commit_signature_valid c chain_id activation_slot blk)
                (\<lambda>v. eligible_validator_stake v vs pool min_validator_stake) {} 0 (blk_commit_signatures blk)
          in if committed_stake * 3 \<ge> total_stake * 2 then Inr ()
             else Inl ''Insufficient commit stake'')"

definition verify_commit_with_chain_id_and_min_stake ::
  "crypto \<Rightarrow> string \<Rightarrow> validator_set \<Rightarrow> stake_pool \<Rightarrow> u64 \<Rightarrow> block \<Rightarrow> err + unit" where
  "verify_commit_with_chain_id_and_min_stake c chain_id vs pool min_validator_stake blk =
     verify_commit_with_chain_id_and_min_stake_for_history c chain_id 0 vs pool min_validator_stake blk"

definition verify_commit_with_chain_id ::
  "crypto \<Rightarrow> string \<Rightarrow> validator_set \<Rightarrow> stake_pool \<Rightarrow> block \<Rightarrow> err + unit" where
  "verify_commit_with_chain_id c chain_id vs pool blk =
     verify_commit_with_chain_id_and_min_stake c chain_id vs pool MIN_VALIDATOR_STAKE blk"

definition verify_commit :: "crypto \<Rightarrow> validator_set \<Rightarrow> stake_pool \<Rightarrow> block \<Rightarrow> err + unit" where
  "verify_commit c vs pool blk = verify_commit_with_chain_id_and_min_stake c '''' vs pool MIN_VALIDATOR_STAKE blk"

section \<open>BFT time\<close>

fun median_loop :: "u128 \<Rightarrow> u128 \<Rightarrow> u64 \<Rightarrow> (u64 \<times> u64) list \<Rightarrow> u64" where
  "median_loop half cumulative median_ts [] = median_ts"
| "median_loop half cumulative median_ts ((ts, stake) # rest) =
     (let cumulative = cumulative + stake in
      if cumulative > half then ts else median_loop half cumulative median_ts rest)"

definition commit_weights :: "commit_signature list \<Rightarrow> validator_set \<Rightarrow> stake_pool \<Rightarrow> (u64 \<times> u64) list" where
  "commit_weights sigs vs pool =
     List.map_filter (\<lambda>cs. map_option (\<lambda>stake. (cs_timestamp cs, stake))
       (eligible_validator_stake (cs_validator cs) vs pool MIN_VALIDATOR_STAKE)) sigs"

definition compute_bft_timestamp ::
  "commit_signature list \<Rightarrow> validator_set \<Rightarrow> stake_pool \<Rightarrow> u64 option \<Rightarrow> u64 option" where
  "compute_bft_timestamp sigs vs pool min_timestamp =
     (if sigs = [] then None
      else
        let weighted = commit_weights sigs vs pool in
        if weighted = [] then None
        else
          let weighted = sort_key fst weighted;
              total_stake = sum_list (map snd weighted);
              median_ts = median_loop (total_stake div 2) 0 (fst (weighted ! 0)) weighted
          in Some (case min_timestamp of
               Some min_ts \<Rightarrow> if median_ts < min_ts then min_ts else median_ts
             | None \<Rightarrow> median_ts))"

section \<open>Canonical parent certificates\<close>

definition CANONICAL_COMMIT_ENVELOPE_OPCODE :: u8 where "CANONICAL_COMMIT_ENVELOPE_OPCODE = 41"
definition CANONICAL_COMMIT_ENVELOPE_VERSION :: u8 where "CANONICAL_COMMIT_ENVELOPE_VERSION = 2"
definition MAX_CANONICAL_COMMIT_ENVELOPE_BYTES :: u64 where
  "MAX_CANONICAL_COMMIT_ENVELOPE_BYTES = 4 * 1024 * 1024"
definition SYSTEM_PROGRAM_ID :: pubkey where "SYSTEM_PROGRAM_ID = Pubkey (replicate 32 0)"

record canonical_validator_power =
  cvp_validator :: pubkey
  cvp_power :: u64

definition canonical_validator_powers :: "validator_set \<Rightarrow> stake_pool \<Rightarrow> canonical_validator_power list" where
  "canonical_validator_powers vs pool =
     (let validators = vs_sorted_validators vs in
      if sp_staking_v2_state pool \<noteq> None then
        List.map_filter (\<lambda>v. map_option (\<lambda>p. \<lparr>cvp_validator = vi_pubkey v, cvp_power = p\<rparr>)
            (sp_staking_v2_consensus_power pool (vi_pubkey v)))
          (filter (\<lambda>v. \<not> vi_pending_activation v) validators)
      else
        map (\<lambda>v. \<lparr>cvp_validator = vi_pubkey v,
            cvp_power = (case sp_get_stake pool (vi_pubkey v) of Some s \<Rightarrow> si_total_stake s | None \<Rightarrow> 0)\<rparr>)
          validators)"

definition canonical_validator_powers_hash :: "crypto \<Rightarrow> canonical_validator_power list \<Rightarrow> hash" where
  "canonical_validator_powers_hash c powers =
     hash_data c (concat (map (\<lambda>p. pk_bytes (cvp_validator p) @ u64_to_le_bytes (cvp_power p))
       (sort_key cvp_validator powers)))"

definition compute_validators_hash :: "crypto \<Rightarrow> validator_set \<Rightarrow> stake_pool \<Rightarrow> hash" where
  "compute_validators_hash c vs pool = canonical_validator_powers_hash c (canonical_validator_powers vs pool)"

record canonical_commit_certificate =
  cc_version :: u8
  cc_height :: u64
  cc_round :: u32
  cc_block_hash :: hash
  cc_validators_hash :: hash
  cc_validator_powers :: "canonical_validator_power list"
  cc_parent_post_state_root :: hash
  cc_child_metadata_hash :: hash
  cc_signatures :: "commit_signature list"

text \<open>
  The bincode serialisation of the two types that are serialised here is a parameter; what the
  code relies on is that decoding inverts encoding.
\<close>

record cert_codec =
  ser_certificate :: "canonical_commit_certificate \<Rightarrow> err + u8 list"
  de_certificate :: "u8 list \<Rightarrow> err + canonical_commit_certificate"
  ser_metadata :: "u64 list \<times> (string \<times> u64) list \<Rightarrow> err + u8 list"

definition cert_codec_laws :: "cert_codec \<Rightarrow> bool" where
  "cert_codec_laws k \<longleftrightarrow> (\<forall>cert bytes. ser_certificate k cert = Inr bytes \<longrightarrow> de_certificate k bytes = Inr cert)"

definition deserialize_legacy_bincode_strict :: "u64 \<Rightarrow> (u8 list \<Rightarrow> err + 'a) \<Rightarrow> u8 list \<Rightarrow> err + 'a" where
  "deserialize_legacy_bincode_strict limit decode bytes =
     (if length bytes > limit then Inl ''legacy bincode payload too large'' else decode bytes)"

definition canonical_block_metadata_hash ::
  "crypto \<Rightarrow> cert_codec \<Rightarrow> u64 list \<Rightarrow> (string \<times> u64) list \<Rightarrow> err + hash" where
  "canonical_block_metadata_hash c k tx_fees_paid oracle_prices =
     rbind (ser_metadata k (tx_fees_paid, oracle_prices)) (\<lambda>encoded.
       Inr (hash_data c (str_bytes ''LICHEN_BLOCK_METADATA_V1'' @ encoded)))"

text \<open>The test on \<open>windows(2)\<close>: every element is below its successor.\<close>

fun strictly_ordered :: "('a :: linorder) list \<Rightarrow> bool" where
  "strictly_ordered (x # y # rest) \<longleftrightarrow> \<not> x \<ge> y \<and> strictly_ordered (y # rest)"
| "strictly_ordered _ \<longleftrightarrow> True"

definition validate_canonical_shape :: "crypto \<Rightarrow> canonical_commit_certificate \<Rightarrow> err + unit" where
  "validate_canonical_shape c cert =
     (if cc_version cert \<noteq> CANONICAL_COMMIT_ENVELOPE_VERSION then Inl ''unsupported canonical commit certificate version''
      else if cc_height cert = 0 then Inl ''canonical commit certificate cannot target genesis''
      else if cc_signatures cert = [] then Inl ''canonical commit certificate has no signatures''
      else if cc_child_metadata_hash cert = hash_default
      then Inl ''canonical commit certificate has no child metadata commitment''
      else if cc_parent_post_state_root cert = hash_default
      then Inl ''canonical commit certificate has no parent post-state root''
      else if cc_validator_powers cert = [] then Inl ''canonical commit certificate has no validator powers''
      else if \<not> strictly_ordered (map cvp_validator (cc_validator_powers cert))
      then Inl ''canonical validator powers must be strictly ordered by validator''
      else if canonical_validator_powers_hash c (cc_validator_powers cert) \<noteq> cc_validators_hash cert
      then Inl ''canonical validator powers do not match the parent validators hash''
      else if \<not> strictly_ordered (map cs_validator (cc_signatures cert))
      then Inl ''canonical commit signatures must be strictly ordered by validator''
      else Inr ())"

definition from_committed_block ::
  "crypto \<Rightarrow> cert_codec \<Rightarrow> block \<Rightarrow> canonical_validator_power list \<Rightarrow> hash \<Rightarrow> err + canonical_commit_certificate" where
  "from_committed_block c k blk validator_powers parent_post_state_root =
     (if hdr_slot (blk_header blk) = 0 then Inl ''genesis has no commit certificate''
      else if blk_commit_signatures blk = [] then Inl ''block has no local commit certificate''
      else
        rbind (canonical_block_metadata_hash c k [] []) (\<lambda>child_metadata_hash.
          let certificate =
            \<lparr>cc_version = CANONICAL_COMMIT_ENVELOPE_VERSION, cc_height = hdr_slot (blk_header blk),
             cc_round = blk_commit_round blk, cc_block_hash = block_hash c blk,
             cc_validators_hash = hdr_validators_hash (blk_header blk), cc_validator_powers = validator_powers,
             cc_parent_post_state_root = parent_post_state_root, cc_child_metadata_hash = child_metadata_hash,
             cc_signatures = sort_key cs_validator (blk_commit_signatures blk)\<rparr>
          in rbind (validate_canonical_shape c certificate) (\<lambda>_. Inr certificate)))"

definition bind_child_metadata ::
  "crypto \<Rightarrow> cert_codec \<Rightarrow> u64 list \<Rightarrow> (string \<times> u64) list \<Rightarrow> canonical_commit_certificate
     \<Rightarrow> err + canonical_commit_certificate" where
  "bind_child_metadata c k tx_fees_paid oracle_prices cert =
     rbind (canonical_block_metadata_hash c k tx_fees_paid oracle_prices) (\<lambda>h.
       let cert = cert\<lparr>cc_child_metadata_hash := h\<rparr>
       in rbind (validate_canonical_shape c cert) (\<lambda>_. Inr cert))"

definition verify_child_metadata ::
  "crypto \<Rightarrow> cert_codec \<Rightarrow> u64 list \<Rightarrow> (string \<times> u64) list \<Rightarrow> canonical_commit_certificate \<Rightarrow> err + unit" where
  "verify_child_metadata c k tx_fees_paid oracle_prices cert =
     rbind (canonical_block_metadata_hash c k tx_fees_paid oracle_prices) (\<lambda>expected.
       if cc_child_metadata_hash cert \<noteq> expected then Inl ''canonical child metadata mismatch'' else Inr ())"

definition cert_to_transaction ::
  "crypto \<Rightarrow> cert_codec \<Rightarrow> canonical_commit_certificate \<Rightarrow> err + transaction" where
  "cert_to_transaction c k cert =
     rbind (validate_canonical_shape c cert) (\<lambda>_.
     rbind (ser_certificate k cert) (\<lambda>payload.
       if length payload > MAX_CANONICAL_COMMIT_ENVELOPE_BYTES
       then Inl ''canonical commit certificate is too large''
       else Inr
         \<lparr>tx_signatures = [],
          tx_message =
            \<lparr>msg_instructions =
               [\<lparr>ix_program_id = SYSTEM_PROGRAM_ID, ix_accounts = [SYSTEM_PROGRAM_ID],
                 ix_data = CANONICAL_COMMIT_ENVELOPE_OPCODE # payload\<rparr>],
             msg_recent_blockhash = cc_block_hash cert, msg_compute_budget = None,
             msg_compute_unit_price = None\<rparr>,
          tx_type = Consensus\<rparr>))"

definition cert_from_transaction ::
  "crypto \<Rightarrow> cert_codec \<Rightarrow> transaction \<Rightarrow> err + canonical_commit_certificate option" where
  "cert_from_transaction c k tx =
     (if \<not> is_consensus tx then Inr None
      else if tx_signatures tx \<noteq> [] \<or> length (msg_instructions (tx_message tx)) \<noteq> 1 \<or>
              msg_compute_budget (tx_message tx) \<noteq> None \<or> msg_compute_unit_price (tx_message tx) \<noteq> None
      then Inl ''invalid canonical commit transaction shape''
      else
        let ix = msg_instructions (tx_message tx) ! 0 in
        if ix_program_id ix \<noteq> SYSTEM_PROGRAM_ID \<or> ix_accounts ix \<noteq> [SYSTEM_PROGRAM_ID] \<or>
           (case ix_data ix of [] \<Rightarrow> True | b # _ \<Rightarrow> b \<noteq> CANONICAL_COMMIT_ENVELOPE_OPCODE)
        then Inl ''invalid canonical commit instruction shape''
        else
          rbind (deserialize_legacy_bincode_strict MAX_CANONICAL_COMMIT_ENVELOPE_BYTES (de_certificate k)
              (tl (ix_data ix))) (\<lambda>cert.
          rbind (validate_canonical_shape c cert) (\<lambda>_.
            if msg_recent_blockhash (tx_message tx) \<noteq> cc_block_hash cert
            then Inl ''canonical commit transaction blockhash does not match its certificate''
            else Inr (Some cert))))"

text \<open>The powers a certificate is weighed with, and the loop over its signatures.\<close>

definition eligible_powers :: "u64 \<Rightarrow> canonical_validator_power list \<Rightarrow> (pubkey, u64) hmap" where
  "eligible_powers min_validator_stake powers =
     foldl (\<lambda>m p. hm_insert (cvp_validator p) (cvp_power p) m) []
       (filter (\<lambda>p. cvp_power p \<ge> min_validator_stake) powers)"

definition certified_precommit :: "canonical_commit_certificate \<Rightarrow> commit_signature \<Rightarrow> precommit" where
  "certified_precommit cert cs =
     \<lparr>pc_height = cc_height cert, pc_round = cc_round cert, pc_block_hash = Some (cc_block_hash cert),
      pc_validator = cs_validator cs, pc_signature = cs_signature cs, pc_timestamp = cs_timestamp cs\<rparr>"

fun committed_power_loop ::
  "(commit_signature \<Rightarrow> bool) \<Rightarrow> (pubkey, u64) hmap \<Rightarrow> u128 \<Rightarrow> commit_signature list \<Rightarrow> u128" where
  "committed_power_loop valid powers committed_power [] = committed_power"
| "committed_power_loop valid powers committed_power (cs # rest) =
     (case hm_get powers (cs_validator cs) of
        None \<Rightarrow> committed_power_loop valid powers committed_power rest
      | Some p \<Rightarrow>
          if valid cs then committed_power_loop valid powers (saturating_add128 committed_power p) rest
          else committed_power_loop valid powers committed_power rest)"

definition verify_parent ::
  "crypto \<Rightarrow> string \<Rightarrow> u64 \<Rightarrow> block \<Rightarrow> canonical_commit_certificate \<Rightarrow> err + unit" where
  "verify_parent c chain_id min_validator_stake parent cert =
     rbind (validate_canonical_shape c cert) (\<lambda>_.
       if cc_height cert \<noteq> hdr_slot (blk_header parent) \<or> cc_block_hash cert \<noteq> block_hash c parent \<or>
          cc_validators_hash cert \<noteq> hdr_validators_hash (blk_header parent)
       then Inl ''canonical commit certificate does not match parent block''
       else
         let powers = eligible_powers min_validator_stake (cc_validator_powers cert);
             total_power = hm_sum id powers
         in if total_power = 0 then Inl ''canonical commit certificate has no eligible validator power''
            else
              let committed_power = committed_power_loop
                    (\<lambda>cs. precommit_verify_signature_with_chain_id c chain_id (certified_precommit cert cs))
                    powers 0 (cc_signatures cert)
              in if saturating_mul128 committed_power 3 \<ge> saturating_mul128 total_power 2 then Inr ()
                 else Inl ''Insufficient canonical commit power'')"

section \<open>Certificates as quorums\<close>

type_synonym voting_rules = "validator_set \<times> stake_pool \<times> u64"

definition rule_stake :: "voting_rules \<Rightarrow> pubkey \<Rightarrow> u64 option" where
  "rule_stake s pk = (case s of (vs, pool, min_stake) \<Rightarrow> eligible_validator_stake pk vs pool min_stake)"

definition rule_weight :: "voting_rules \<Rightarrow> pubkey \<Rightarrow> u64" where
  "rule_weight s pk = (case rule_stake s pk of Some p \<Rightarrow> p | None \<Rightarrow> 0)"

definition rule_total :: "voting_rules \<Rightarrow> u128" where
  "rule_total s = (case s of (vs, pool, min_stake) \<Rightarrow> total_eligible_validator_stake vs pool min_stake)"

definition rule_ok :: "voting_rules \<Rightarrow> bool" where
  "rule_ok s \<longleftrightarrow> distinct (map vi_pubkey (vs_validators (fst s)))"

definition rule_members :: "voting_rules \<Rightarrow> pubkey set" where
  "rule_members s = dom (rule_stake s)"

lemma rule_members_sub: "rule_members s \<subseteq> vi_pubkey ` set (vs_validators (fst s))"
proof
  fix pk assume "pk \<in> rule_members s"
  then obtain p where "rule_stake s pk = Some p" by (auto simp: rule_members_def)
  then show "pk \<in> vi_pubkey ` set (vs_validators (fst s))"
    by (auto simp: rule_stake_def eligible_validator_stake_def vs_get_validator_def find_Some_iff
        split: prod.splits option.splits)
qed

lemma sum_list_map_filter: "sum_list (List.map_filter f xs) = sum_list (map (\<lambda>x. case f x of Some p \<Rightarrow> p | None \<Rightarrow> 0) xs)"
  for f :: "'a \<Rightarrow> nat option"
  by (induction xs) (auto simp: map_filter_simps split: option.splits)

lemma rule_total_sum:
  assumes "rule_ok s"
  shows "rule_total s = sum (rule_weight s) (vi_pubkey ` set (vs_validators (fst s)))"
proof -
  have "rule_total s = sum_list (map (rule_weight s \<circ> vi_pubkey) (vs_validators (fst s)))"
    by (simp add: rule_total_def total_eligible_validator_stake_def sum_list_map_filter rule_weight_def
        rule_stake_def comp_def split: prod.splits)
  also have "\<dots> = sum_list (map (rule_weight s) (map vi_pubkey (vs_validators (fst s))))" by simp
  also have "\<dots> = sum (rule_weight s) (set (map vi_pubkey (vs_validators (fst s))))"
    using assms unfolding rule_ok_def by (rule sum_list_distinct_conv_sum_set)
  finally show ?thesis by simp
qed

interpretation rules: weighted_quorum rule_members rule_weight rule_total rule_ok
proof
  fix s :: voting_rules
  show "finite (rule_members s)" by (rule finite_subset [OF rule_members_sub]) simp
  assume "rule_ok s"
  then show "sum (rule_weight s) (rule_members s) \<le> rule_total s"
    by (simp only: rule_total_sum) (rule sum_mono2 [OF _ rule_members_sub], simp_all)
qed

text \<open>The validators with a valid signature in a list of commit signatures.\<close>

definition signers :: "(commit_signature \<Rightarrow> bool) \<Rightarrow> commit_signature list \<Rightarrow> pubkey set" where
  "signers valid sigs = cs_validator ` set (filter valid sigs)"

lemma signers_simps [simp]:
  "signers valid [] = {}"
  "signers valid (cs # sigs) = (if valid cs then insert (cs_validator cs) (signers valid sigs) else signers valid sigs)"
  by (simp_all add: signers_def)

lemma signers_finite [simp]: "finite (signers valid sigs)"
  by (simp add: signers_def)

lemma rules_power_of: "finite A \<Longrightarrow> rules.power_of s A = sum (rule_weight s) A"
  unfolding rules.power_of_def by (rule sum.mono_neutral_left) (auto simp: rule_weight_def rule_members_def split: option.splits)

lemma commit_stake_loop_le:
  "commit_stake_loop valid (rule_stake s) seen acc sigs \<le> acc + sum (rule_weight s) (signers valid sigs - seen)"
proof (induction sigs arbitrary: seen acc)
  case (Cons cs sigs)
  let ?v = "cs_validator cs" and ?w = "rule_weight s"
  have mono: "sum ?w (signers valid sigs - insert ?v seen) \<le> sum ?w (signers valid (cs # sigs) - seen)"
    by (rule sum_mono2) auto
  have new: "?w ?v + sum ?w (signers valid sigs - insert ?v seen) \<le> sum ?w (signers valid (cs # sigs) - seen)"
    if "valid cs" "?v \<notin> seen"
  proof -
    have "?w ?v + sum ?w (signers valid sigs - insert ?v seen) = sum ?w (insert ?v (signers valid sigs - insert ?v seen))"
      by simp
    also have "\<dots> \<le> sum ?w (signers valid (cs # sigs) - seen)" by (rule sum_mono2) (use that in auto)
    finally show ?thesis .
  qed
  have old: "sum ?w (signers valid sigs - seen) \<le> sum ?w (signers valid (cs # sigs) - seen)"
    by (rule sum_mono2) auto
  show ?case
  proof (cases "?v \<in> seen")
    case True
    then show ?thesis using Cons.IH [of seen acc] old by (simp del: signers_simps)
  next
    case False
    show ?thesis
    proof (cases "rule_stake s ?v")
      case None
      then show ?thesis
        using False Cons.IH [of "insert ?v seen" acc] mono by (simp del: signers_simps add: Let_def)
    next
      case (Some p)
      then have "?w ?v = p" by (simp add: rule_weight_def)
      then show ?thesis
        using False Some new mono Cons.IH [of "insert ?v seen" "acc + p"] Cons.IH [of "insert ?v seen" acc]
        by (auto simp del: signers_simps simp add: Let_def)
    qed
  qed
qed simp

lemma commit_stake_loop_distinct:
  "distinct (map cs_validator sigs) \<Longrightarrow> seen \<inter> set (map cs_validator sigs) = {} \<Longrightarrow>
     commit_stake_loop valid (rule_stake s) seen acc sigs = acc + sum (rule_weight s) (signers valid sigs)"
proof (induction sigs arbitrary: seen acc)
  case (Cons cs sigs)
  let ?v = "cs_validator cs"
  have n: "?v \<notin> signers valid sigs" using Cons.prems(1) by (auto simp: signers_def)
  have d: "insert ?v seen \<inter> set (map cs_validator sigs) = {}" using Cons.prems by auto
  show ?case
    using Cons.prems n Cons.IH [OF _ d]
    by (auto simp: Let_def rule_weight_def split: option.splits)
qed simp

lemma verify_commit_iff:
  assumes "hdr_slot (blk_header blk) \<noteq> 0"
  shows "verify_commit_with_chain_id_and_min_stake_for_history c ch act vs pool ms blk = Inr () \<longleftrightarrow>
    blk_commit_signatures blk \<noteq> [] \<and> rule_total (vs, pool, ms) \<noteq> 0 \<and>
    2 * rule_total (vs, pool, ms) \<le> 3 * commit_stake_loop (commit_signature_valid c ch act blk)
      (rule_stake (vs, pool, ms)) {} 0 (blk_commit_signatures blk)"
proof -
  have "(\<lambda>v. eligible_validator_stake v vs pool ms) = rule_stake (vs, pool, ms)"
    by (simp add: rule_stake_def fun_eq_iff)
  with assms show ?thesis
    by (simp add: verify_commit_with_chain_id_and_min_stake_for_history_def Let_def rule_total_def mult.commute)
qed

lemma verified_commit_quorum:
  assumes "hdr_slot (blk_header blk) \<noteq> 0"
    and "verify_commit_with_chain_id_and_min_stake_for_history c ch act vs pool ms blk = Inr ()"
  shows "rules.quorum (vs, pool, ms) (signers (commit_signature_valid c ch act blk) (blk_commit_signatures blk))"
  using assms(2) commit_stake_loop_le [of "commit_signature_valid c ch act blk" "(vs, pool, ms)" "{}" 0
      "blk_commit_signatures blk"]
  unfolding verify_commit_iff [OF assms(1)] rules.quorum_def by (simp add: rules_power_of)

lemma quorum_verifies_commit:
  assumes "hdr_slot (blk_header blk) \<noteq> 0" "distinct (map cs_validator (blk_commit_signatures blk))"
    and "rules.quorum (vs, pool, ms) (signers (commit_signature_valid c ch act blk) (blk_commit_signatures blk))"
  shows "verify_commit_with_chain_id_and_min_stake_for_history c ch act vs pool ms blk = Inr ()"
proof -
  have "blk_commit_signatures blk \<noteq> []" using assms(3) by (auto simp: rules.quorum_def rules.power_of_def)
  with assms(3) show ?thesis
    unfolding verify_commit_iff [OF assms(1)] rules.quorum_def
    by (simp add: rules_power_of commit_stake_loop_distinct [OF assms(2)])
qed

section \<open>Accountability\<close>

lemma signer_double_precommit:
  assumes "pk \<in> signers (commit_signature_valid c ch 0 b1) (blk_commit_signatures b1)"
    and "pk \<in> signers (commit_signature_valid c ch 0 b2) (blk_commit_signatures b2)"
    and "hdr_slot (blk_header b1) = hdr_slot (blk_header b2)" "blk_commit_round b1 = blk_commit_round b2"
    and "block_hash c b1 \<noteq> block_hash c b2"
  shows "\<exists>v w. se_verify_with_chain_id c ch (evidence (DoublePrecommitV2 v w) pk slot rep ts)"
proof -
  have "\<exists>v. pc_height v = hdr_slot (blk_header b) \<and> pc_round v = blk_commit_round b \<and>
      pc_block_hash v = Some (block_hash c b) \<and> pc_validator v = pk \<and>
      precommit_verify_signature_with_chain_id c ch v"
    if m: "pk \<in> signers (commit_signature_valid c ch 0 b) (blk_commit_signatures b)" for b
  proof -
    from m obtain cs where cs: "cs_validator cs = pk" "commit_signature_valid c ch 0 b cs" by (auto simp: signers_def)
    let ?v = "\<lparr>pc_height = hdr_slot (blk_header b), pc_round = blk_commit_round b,
      pc_block_hash = Some (block_hash c b), pc_validator = pk, pc_signature = cs_signature cs,
      pc_timestamp = cs_timestamp cs\<rparr>"
    from cs have "precommit_verify_signature_with_chain_id c ch ?v"
      by (simp add: precommit_verify_signature_with_chain_id_def commit_signature_valid_def Let_def)
    then show ?thesis by (intro exI [of _ ?v]) simp
  qed
  note sg = this
  from sg [OF assms(1)] obtain v where v: "pc_height v = hdr_slot (blk_header b1)" "pc_round v = blk_commit_round b1"
    "pc_block_hash v = Some (block_hash c b1)" "pc_validator v = pk" "precommit_verify_signature_with_chain_id c ch v"
    by auto
  from sg [OF assms(2)] obtain w where w: "pc_height w = hdr_slot (blk_header b2)" "pc_round w = blk_commit_round b2"
    "pc_block_hash w = Some (block_hash c b2)" "pc_validator w = pk" "precommit_verify_signature_with_chain_id c ch w"
    by auto
  show ?thesis
    by (rule exI [of _ v], rule exI [of _ w]) (use v w assms(3-5) in \<open>simp add: se_verify_with_chain_id_def\<close>)
qed


section \<open>The engine's certificates verify\<close>

lemma find_pubkey_None: "pk \<notin> vi_pubkey ` set xs \<Longrightarrow> List.find (\<lambda>v. vi_pubkey v = pk) xs = None"
  by (induction xs) auto

lemma find_pubkey_distinct:
  "distinct (map vi_pubkey xs) \<Longrightarrow> v \<in> set xs \<Longrightarrow> List.find (\<lambda>w. vi_pubkey w = vi_pubkey v) xs = Some v"
  by (induction xs) (auto simp: image_iff)

lemma snapshot_fold_power:
  "distinct (map vi_pubkey xs) \<Longrightarrow>
     hm_get (ps_eligible_power (foldl (snapshot_add pool ms) s xs)) pk =
       (case List.find (\<lambda>v. vi_pubkey v = pk) xs of
          Some v \<Rightarrow> (if vi_pending_activation v then hm_get (ps_eligible_power s) pk
            else case sp_get_stake pool pk of
                None \<Rightarrow> hm_get (ps_eligible_power s) pk
              | Some i \<Rightarrow> if si_total_stake i < ms then hm_get (ps_eligible_power s) pk else Some (si_total_stake i))
        | None \<Rightarrow> hm_get (ps_eligible_power s) pk)"
proof (induction xs arbitrary: s)
  case (Cons v xs)
  have "List.find (\<lambda>w. vi_pubkey w = pk) xs = None" if "vi_pubkey v = pk"
    by (rule find_pubkey_None) (use Cons.prems that in auto)
  with Cons show ?case by (auto simp: snapshot_add_def Let_def split: option.splits)
qed simp

lemma snapshot_fold_total:
  assumes "n * u64_max + length xs * u64_max \<le> u128_max" "ps_total_eligible_stake s \<le> n * u64_max"
  shows "ps_total_eligible_stake (foldl (snapshot_add pool ms) s xs) = ps_total_eligible_stake s +
    sum_list (map (\<lambda>v. if vi_pending_activation v then 0 else case sp_get_stake pool (vi_pubkey v) of None \<Rightarrow> 0
        | Some i \<Rightarrow> if si_total_stake i < ms then 0 else si_total_stake i) xs)"
  using assms
proof (induction xs arbitrary: s n)
  case (Cons v xs)
  let ?f = "if vi_pending_activation v then 0 else case sp_get_stake pool (vi_pubkey v) of None \<Rightarrow> 0
        | Some i \<Rightarrow> if si_total_stake i < ms then 0 else si_total_stake i"
  have "si_total_stake i \<le> u64_max" for i by (simp add: si_total_stake_def)
  then have le: "?f \<le> u64_max" by (auto split: option.splits)
  have sum: "ps_total_eligible_stake s + ?f \<le> (n + 1) * u64_max" using Cons.prems(2) le by simp
  have room: "(n + 1) * u64_max \<le> u128_max" using Cons.prems(1) by simp
  have step: "ps_total_eligible_stake (snapshot_add pool ms s v) = ps_total_eligible_stake s + ?f"
    using le_trans [OF sum room]
    by (auto simp: snapshot_add_def Let_def saturating_add128_def split: option.splits)
  then have "ps_total_eligible_stake (snapshot_add pool ms s v) \<le> (n + 1) * u64_max" using sum by simp
  moreover have "(n + 1) * u64_max + length xs * u64_max \<le> u128_max" using Cons.prems(1) by simp
  ultimately show ?case using Cons.IH [of "n + 1" "snapshot_add pool ms s v"] step by simp
qed simp

lemma snapshot_is_rules:
  assumes v2: "sp_staking_v2_state pool = None" and d: "distinct (map vi_pubkey (vs_validators vs))"
    and len: "length (vs_validators vs) \<le> 2 ^ 64"
  shows "hm_get (ps_eligible_power (snapshot_build vs pool ms)) = rule_stake (vs, pool, ms)"
    and "ps_total_eligible_stake (snapshot_build vs pool ms) = rule_total (vs, pool, ms)"
proof -
  let ?xs = "vs_sorted_validators vs"
  have set: "set ?xs = set (vs_validators vs)" and ds: "distinct (map vi_pubkey ?xs)" and dx: "distinct ?xs"
    using d by (simp_all add: vs_sorted_validators_def distinct_map)
  have find: "List.find (\<lambda>v. vi_pubkey v = pk) ?xs = vs_get_validator vs pk" for pk
  proof (cases "pk \<in> vi_pubkey ` set ?xs")
    case True
    then obtain v where v: "v \<in> set ?xs" "pk = vi_pubkey v" by auto
    with find_pubkey_distinct [OF ds v(1)] find_pubkey_distinct [OF d, of v] set show ?thesis
      by (simp add: vs_get_validator_def)
  next
    case False
    with find_pubkey_None [of pk ?xs] find_pubkey_None [of pk "vs_validators vs"] set show ?thesis
      by (simp add: vs_get_validator_def)
  qed
  show power: "hm_get (ps_eligible_power (snapshot_build vs pool ms)) = rule_stake (vs, pool, ms)"
    unfolding snapshot_build_def fun_eq_iff snapshot_fold_power [OF ds] find
    by (auto simp: rule_stake_def eligible_validator_stake_def v2 split: option.splits)
  have stake: "rule_weight (vs, pool, ms) (vi_pubkey v) =
      (if vi_pending_activation v then 0 else case sp_get_stake pool (vi_pubkey v) of None \<Rightarrow> 0
        | Some i \<Rightarrow> if si_total_stake i < ms then 0 else si_total_stake i)" if "v \<in> set ?xs" for v
    using find_pubkey_distinct [OF d, of v] that set
    by (auto simp: rule_weight_def rule_stake_def eligible_validator_stake_def vs_get_validator_def v2 split: option.splits)
  have weights: "map (\<lambda>v. rule_weight (vs, pool, ms) (vi_pubkey v)) ?xs =
      map (\<lambda>v. if vi_pending_activation v then 0 else case sp_get_stake pool (vi_pubkey v) of None \<Rightarrow> 0
        | Some i \<Rightarrow> if si_total_stake i < ms then 0 else si_total_stake i) ?xs"
    by (rule map_cong [OF refl]) (rule stake)
  have "length ?xs * u64_max \<le> 2 ^ 64 * u64_max"
    using len by (intro mult_le_mono1) (simp add: vs_sorted_validators_def)
  also have "\<dots> \<le> u128_max" by (simp add: u64_max_def u128_max_def)
  finally have "ps_total_eligible_stake (snapshot_build vs pool ms) =
      sum_list (map (\<lambda>v. if vi_pending_activation v then 0 else case sp_get_stake pool (vi_pubkey v) of None \<Rightarrow> 0
        | Some i \<Rightarrow> if si_total_stake i < ms then 0 else si_total_stake i) ?xs)"
    using snapshot_fold_total [of 0 ?xs "\<lparr>ps_eligible_power = [], ps_total_eligible_stake = 0\<rparr>" pool ms]
    by (simp add: snapshot_build_def)
  also have "\<dots> = sum_list (map (rule_weight (vs, pool, ms) \<circ> vi_pubkey) ?xs)" by (simp only: weights comp_def)
  also have "\<dots> = sum (rule_weight (vs, pool, ms)) (vi_pubkey ` set ?xs)"
    using sum_list_distinct_conv_sum_set [OF ds, of "rule_weight (vs, pool, ms)"] by simp
  also have "\<dots> = rule_total (vs, pool, ms)" using rule_total_sum [of "(vs, pool, ms)"] d set by (simp add: rule_ok_def)
  finally show "ps_total_eligible_stake (snapshot_build vs pool ms) = rule_total (vs, pool, ms)" .
qed

lemma snapshot_quorum_rules:
  assumes "sp_staking_v2_state pool = None" "distinct (map vi_pubkey (vs_validators vs))"
    "length (vs_validators vs) \<le> 2 ^ 64"
  shows "snap.quorum (snapshot_build vs pool ms) A \<longleftrightarrow> rules.quorum (vs, pool, ms) A"
proof -
  note eq = snapshot_is_rules [OF assms, of ms]
  have "fst ` set (ps_eligible_power (snapshot_build vs pool ms)) = rule_members (vs, pool, ms)"
    unfolding rule_members_def eq(1) [symmetric] by (simp add: dom_map_of_conv_image_fst)
  moreover have "hm_get_or 0 (ps_eligible_power (snapshot_build vs pool ms)) = rule_weight (vs, pool, ms)"
    by (simp add: fun_eq_iff hm_get_or_def rule_weight_def eq(1))
  ultimately show ?thesis
    by (simp add: snap.quorum_def rules.quorum_def snap.power_of_def rules.power_of_def eq(2))
qed

lemma certified_block_verifies:
  assumes s: "sp_staking_v2_state pool = None" "distinct (map vi_pubkey (vs_validators vs))"
      "length (vs_validators vs) \<le> 2 ^ 64"
    and cert: "certificate_ok c ch (snapshot_build vs pool ms) (hdr_slot (blk_header blk)) (blk_commit_round blk)
      (block_hash c blk) (blk_commit_signatures blk)"
  shows "verify_commit_with_chain_id_and_min_stake c ch vs pool ms blk = Inr ()"
proof (cases "hdr_slot (blk_header blk) = 0")
  case True
  then show ?thesis
    by (simp add: verify_commit_with_chain_id_and_min_stake_def
        verify_commit_with_chain_id_and_min_stake_for_history_def)
next
  case False
  let ?sigs = "blk_commit_signatures blk" and ?valid = "commit_signature_valid c ch 0 blk"
  have "?valid cs" if "cs \<in> set ?sigs" for cs
    using cert that by (simp add: certificate_ok_def commit_signature_valid_def Let_def)
  then have "signers ?valid ?sigs = set (map cs_validator ?sigs)" by (auto simp: signers_def)
  then have "rules.quorum (vs, pool, ms) (signers ?valid ?sigs)"
    using cert snapshot_quorum_rules [OF s, of ms "set (map cs_validator ?sigs)"] by (simp add: certificate_ok_def)
  then show ?thesis
    unfolding verify_commit_with_chain_id_and_min_stake_def
    by (rule quorum_verifies_commit [OF False, rotated]) (use cert in \<open>simp add: certificate_ok_def\<close>)
qed


section \<open>BFT time\<close>

lemma median_loop_spec:
  assumes "sorted (map fst ws)" "cum \<le> half" "half < cum + sum_list (map snd ws)"
  shows "half < cum + sum_list (map snd (filter (\<lambda>w. fst w \<le> median_loop half cum m ws) ws)) \<and>
    cum + sum_list (map snd (filter (\<lambda>w. fst w < median_loop half cum m ws) ws)) \<le> half"
  using assms
proof (induction half cum m ws rule: median_loop.induct)
  case (2 half cum m ts stake ws)
  show ?case
  proof (cases "half < cum + stake")
    case True
    have "filter (\<lambda>w. fst w < ts) ws = []" using 2(2) by (auto simp: filter_empty_conv)
    with True 2(3) show ?thesis by (simp add: Let_def)
  next
    case False
    let ?m = "median_loop half (cum + stake) m ws"
    have ih: "half < cum + stake + sum_list (map snd (filter (\<lambda>w. fst w \<le> ?m) ws))"
      "cum + stake + sum_list (map snd (filter (\<lambda>w. fst w < ?m) ws)) \<le> half"
      using 2(1) [OF refl _ ] False 2(2-4) by auto
    have "\<exists>w \<in> set ws. fst w \<le> ?m"
    proof (rule ccontr)
      assume "\<not> ?thesis"
      then have "filter (\<lambda>w. fst w \<le> ?m) ws = []" by (auto simp: filter_empty_conv)
      with ih(1) False show False by simp
    qed
    with 2(2) have "ts \<le> ?m" by auto
    with ih False show ?thesis by (auto simp: Let_def add.assoc)
  qed
qed simp

definition stake_where :: "(u64 \<Rightarrow> bool) \<Rightarrow> (u64 \<times> u64) list \<Rightarrow> u128" where
  "stake_where P ws = sum_list (map snd (filter (\<lambda>w. P (fst w)) ws))"

lemma stake_where_sort: "stake_where P (sort_key fst ws) = stake_where P ws"
proof -
  have ins: "sum_list (map snd (filter (\<lambda>w. P (fst w)) (insort_key fst w xs))) =
      sum_list (map snd (filter (\<lambda>w. P (fst w)) (w # xs)))" for w and xs :: "(u64 \<times> u64) list"
    by (induction xs) auto
  show ?thesis
    by (induction ws) (simp_all add: stake_where_def ins)
qed

lemma stake_where_split: "stake_where P ws + stake_where (\<lambda>t. \<not> P t) ws = sum_list (map snd ws)"
  by (induction ws) (auto simp: stake_where_def)

lemma stake_where_mono: "(\<And>t. P t \<Longrightarrow> Q t) \<Longrightarrow> stake_where P ws \<le> stake_where Q ws"
  by (induction ws) (auto simp: stake_where_def)

lemma median_timestamp:
  assumes "compute_bft_timestamp sigs vs pool None = Some m" "0 < sum_list (map snd (commit_weights sigs vs pool))"
  shows "sum_list (map snd (commit_weights sigs vs pool)) < 2 * stake_where (\<lambda>t. t \<le> m) (commit_weights sigs vs pool)"
    and "2 * stake_where (\<lambda>t. t < m) (commit_weights sigs vs pool) \<le> sum_list (map snd (commit_weights sigs vs pool))"
proof -
  let ?ws = "commit_weights sigs vs pool"
  let ?total = "sum_list (map snd ?ws)"
  have total: "sum_list (map snd (sort_key fst ?ws)) = ?total"
    using stake_where_sort [of "\<lambda>_. True" ?ws] by (simp add: stake_where_def)
  have m: "m = median_loop (?total div 2) 0 (fst (sort_key fst ?ws ! 0)) (sort_key fst ?ws)"
    using assms(1) by (auto simp: compute_bft_timestamp_def Let_def total split: if_splits)
  have "?total div 2 < 0 + sum_list (map snd (sort_key fst ?ws))" using assms(2) total by simp
  from median_loop_spec [OF _ _ this, of "fst (sort_key fst ?ws ! 0)"] m
  have "?total div 2 < stake_where (\<lambda>t. t \<le> m) (sort_key fst ?ws)"
    "stake_where (\<lambda>t. t < m) (sort_key fst ?ws) \<le> ?total div 2"
    by (simp_all add: stake_where_def)
  then show "?total < 2 * stake_where (\<lambda>t. t \<le> m) ?ws" "2 * stake_where (\<lambda>t. t < m) ?ws \<le> ?total"
    by (simp_all add: stake_where_sort)
qed


section \<open>Canonical certificates\<close>

text \<open>
  C21: a certificate survives its transport in a block: the transaction built from a certificate
  is decoded to the same certificate, which therefore has the canonical shape.
\<close>

theorem certificate_transaction_roundtrip:
  assumes "cert_codec_laws k" "cert_to_transaction c k cert = Inr tx"
  shows "cert_from_transaction c k tx = Inr (Some cert)"
proof -
  from assms(2) obtain payload where p: "validate_canonical_shape c cert = Inr ()" "ser_certificate k cert = Inr payload"
    "length payload \<le> MAX_CANONICAL_COMMIT_ENVELOPE_BYTES"
    and tx: "is_consensus tx" "tx_signatures tx = []" "msg_compute_budget (tx_message tx) = None"
      "msg_compute_unit_price (tx_message tx) = None" "msg_recent_blockhash (tx_message tx) = cc_block_hash cert"
      "msg_instructions (tx_message tx) = [\<lparr>ix_program_id = SYSTEM_PROGRAM_ID,
         ix_accounts = [SYSTEM_PROGRAM_ID], ix_data = CANONICAL_COMMIT_ENVELOPE_OPCODE # payload\<rparr>]"
    by (auto simp: cert_to_transaction_def rbind_eq_Inr is_consensus_def split: if_splits)
  from assms(1) p(2) have "de_certificate k payload = Inr cert" by (simp add: cert_codec_laws_def)
  with p tx show ?thesis
    by (simp add: cert_from_transaction_def deserialize_legacy_bincode_strict_def Let_def)
qed

lemma strictly_ordered_sorted: "strictly_ordered xs \<longleftrightarrow> sorted_wrt (<) xs"
proof (induction xs rule: strictly_ordered.induct)
  case (1 x y rest)
  have "\<not> x \<ge> y \<and> sorted_wrt (<) (y # rest) \<longleftrightarrow> sorted_wrt (<) (x # y # rest)" by (auto simp: not_le)
  with 1 show ?case by simp
qed simp_all

lemma strictly_ordered_distinct: "strictly_ordered xs \<Longrightarrow> distinct xs"
  by (simp add: strictly_ordered_sorted strict_sorted_iff)

lemma hm_insert_new: "k \<notin> fst ` set m \<Longrightarrow> hm_insert k v m = m @ [(k, v)]"
  by (induction m) auto

lemma eligible_powers_list:
  assumes "distinct (map cvp_validator powers)"
  shows "eligible_powers ms powers =
    map (\<lambda>p. (cvp_validator p, cvp_power p)) (filter (\<lambda>p. ms \<le> cvp_power p) powers)"
proof -
  let ?kv = "\<lambda>p. (cvp_validator p, cvp_power p)"
  have "foldl (\<lambda>m p. hm_insert (cvp_validator p) (cvp_power p) m) m ps = m @ map ?kv ps"
    if "distinct (map cvp_validator ps)" "fst ` set m \<inter> cvp_validator ` set ps = {}"
    for m and ps :: "canonical_validator_power list"
    using that
  proof (induction ps arbitrary: m)
    case (Cons p ps)
    then have n: "cvp_validator p \<notin> fst ` set m" by auto
    show ?case using Cons by (auto simp: hm_insert_new [OF n])
  qed simp
  moreover have "distinct (map cvp_validator (filter (\<lambda>p. ms \<le> cvp_power p) powers))"
    using assms by (simp add: distinct_map_filter)
  ultimately show ?thesis by (simp add: eligible_powers_def)
qed

lemma committed_power_loop_eq:
  "acc \<le> u128_max \<Longrightarrow> committed_power_loop valid powers acc sigs =
     min (acc + sum_list (map (hm_get_or 0 powers) (map cs_validator (filter valid sigs)))) u128_max"
proof (induction sigs arbitrary: acc)
  case (Cons cs sigs)
  have "saturating_add128 acc p \<le> u128_max" for p by (simp add: saturating_add128_def)
  with Cons show ?case
    by (auto simp: hm_get_or_def saturating_add128_def min_def split: option.splits)
qed simp

lemma verify_parent_iff:
  assumes "validate_canonical_shape c cert = Inr ()" "cc_height cert = hdr_slot (blk_header parent)"
    and "cc_block_hash cert = block_hash c parent" "cc_validators_hash cert = hdr_validators_hash (blk_header parent)"
    and "cc_round cert = blk_commit_round parent"
    and powers_def: "powers = eligible_powers ms (cc_validator_powers cert)"
    and "0 < hm_sum id powers" "2 * hm_sum id powers \<le>
    3 * sum (hm_get_or 0 powers) (signers (commit_signature_valid c ch 0 parent) (cc_signatures cert))"
  shows "verify_parent c ch ms parent cert = Inr ()"
proof -
  let ?valid = "\<lambda>cs. precommit_verify_signature_with_chain_id c ch (certified_precommit cert cs)"
  have valid: "?valid = commit_signature_valid c ch 0 parent"
    using assms(2,3,5) by (simp add: fun_eq_iff precommit_verify_signature_with_chain_id_def certified_precommit_def
        commit_signature_valid_def Let_def)
  have "distinct (map cs_validator (cc_signatures cert))"
    using assms(1) by (auto simp: validate_canonical_shape_def strictly_ordered_distinct split: if_splits)
  then have d: "distinct (map cs_validator (filter ?valid (cc_signatures cert)))" by (rule distinct_map_filter)
  have "committed_power_loop ?valid powers 0 (cc_signatures cert) =
      min (sum (hm_get_or 0 powers) (signers ?valid (cc_signatures cert))) u128_max"
    using sum_list_distinct_conv_sum_set [OF d, of "hm_get_or 0 powers"]
    by (simp add: committed_power_loop_eq signers_def)
  then have "saturating_mul128 (hm_sum id powers) 2 \<le>
      saturating_mul128 (committed_power_loop ?valid powers 0 (cc_signatures cert)) 3"
    using assms(8) by (simp add: saturating_mul128_def valid min_def)
  then show ?thesis
    using assms(1-4,7) unfolding verify_parent_def powers_def [symmetric] by (simp add: Let_def)
qed

text \<open>Without Staking V2 and pending validators, canonical powers are the verifier's stakes.\<close>

definition plain_power :: "stake_pool \<Rightarrow> validator_info \<Rightarrow> u64" where
  "plain_power pool v = (case sp_get_stake pool (vi_pubkey v) of Some s \<Rightarrow> si_total_stake s | None \<Rightarrow> 0)"

definition plain_powers :: "stake_pool \<Rightarrow> u64 \<Rightarrow> validator_info list \<Rightarrow> (pubkey, u64) hmap" where
  "plain_powers pool ms xs = map (\<lambda>v. (vi_pubkey v, plain_power pool v)) (filter (\<lambda>v. ms \<le> plain_power pool v) xs)"

lemma plain_powers_sum:
  "hm_sum id (plain_powers pool ms xs) = sum_list (map (\<lambda>v. if ms \<le> plain_power pool v then plain_power pool v else 0) xs)"
  by (induction xs) (simp_all add: plain_powers_def)

lemma plain_powers_Cons:
  "plain_powers pool ms (a # xs) =
     (if ms \<le> plain_power pool a then [(vi_pubkey a, plain_power pool a)] else []) @ plain_powers pool ms xs"
  by (simp add: plain_powers_def)

lemma plain_powers_get:
  "distinct (map vi_pubkey xs) \<Longrightarrow> v \<in> set xs \<Longrightarrow>
     hm_get_or 0 (plain_powers pool ms xs) (vi_pubkey v) = (if ms \<le> plain_power pool v then plain_power pool v else 0)"
proof (induction xs)
  case (Cons a xs)
  have none: "hm_get (plain_powers pool ms xs) (vi_pubkey a) = None"
    using Cons.prems(1) by (auto simp: plain_powers_def map_of_eq_None_iff)
  show ?case
  proof (cases "v = a")
    case True
    then show ?thesis using none by (simp add: plain_powers_Cons hm_get_or_def)
  next
    case False
    with Cons.prems(2) have "v \<in> set xs" by simp
    moreover from this Cons.prems(1) have "vi_pubkey v \<noteq> vi_pubkey a" by (metis distinct.simps(2) image_eqI list.map(2) set_map)
    ultimately
    show ?thesis using Cons by (simp add: plain_powers_Cons hm_get_or_def)
  qed
qed simp

lemma canonical_powers_plain:
  assumes "sp_staking_v2_state pool = None" "distinct (map vi_pubkey (vs_validators vs))"
  shows "eligible_powers ms (canonical_validator_powers vs pool) = plain_powers pool ms (vs_sorted_validators vs)"
proof -
  have "distinct (map vi_pubkey (vs_sorted_validators vs))"
    using assms(2) by (simp add: vs_sorted_validators_def distinct_map)
  then show ?thesis
    using assms(1) by (simp add: eligible_powers_list canonical_validator_powers_def comp_def filter_map
        plain_powers_def plain_power_def)
qed

lemma rule_weight_plain:
  assumes "sp_staking_v2_state pool = None" "distinct (map vi_pubkey (vs_validators vs))"
    and "v \<in> set (vs_validators vs)" "\<not> vi_pending_activation v"
  shows "rule_weight (vs, pool, ms) (vi_pubkey v) = (if ms \<le> plain_power pool v then plain_power pool v else 0)"
  using find_pubkey_distinct [OF assms(2,3)] assms(1,4)
  by (auto simp: rule_weight_def rule_stake_def eligible_validator_stake_def vs_get_validator_def plain_power_def
      split: option.splits)

lemma canonical_powers_rules:
  assumes v2: "sp_staking_v2_state pool = None" and d: "distinct (map vi_pubkey (vs_validators vs))"
    and act: "\<forall>v \<in> set (vs_validators vs). \<not> vi_pending_activation v"
  shows "hm_get_or 0 (eligible_powers ms (canonical_validator_powers vs pool)) = rule_weight (vs, pool, ms)"
    and "hm_sum id (eligible_powers ms (canonical_validator_powers vs pool)) = rule_total (vs, pool, ms)"
proof -
  let ?xs = "vs_sorted_validators vs"
  have set: "set ?xs = set (vs_validators vs)" and ds: "distinct (map vi_pubkey ?xs)"
    using d by (simp_all add: vs_sorted_validators_def distinct_map)
  note w = rule_weight_plain [OF v2 d]
  have "map (\<lambda>v. if ms \<le> plain_power pool v then plain_power pool v else 0) ?xs =
      map (rule_weight (vs, pool, ms)) (map vi_pubkey ?xs)"
    using set act by (simp add: w)
  then show "hm_sum id (eligible_powers ms (canonical_validator_powers vs pool)) = rule_total (vs, pool, ms)"
    using sum_list_distinct_conv_sum_set [OF ds, of "rule_weight (vs, pool, ms)"]
      rule_total_sum [of "(vs, pool, ms)"] d set
    by (simp only: canonical_powers_plain [OF v2 d] plain_powers_sum) (simp add: rule_ok_def)
  have "hm_get_or 0 (plain_powers pool ms ?xs) pk = rule_weight (vs, pool, ms) pk" for pk
  proof (cases "pk \<in> vi_pubkey ` set ?xs")
    case True
    then show ?thesis using plain_powers_get [OF ds] w set act by auto
  next
    case False
    then have "hm_get (plain_powers pool ms ?xs) pk = None" by (auto simp: plain_powers_def map_of_eq_None_iff)
    then show ?thesis
      using False set find_pubkey_None [of pk "vs_validators vs"]
      by (simp add: hm_get_or_def rule_weight_def rule_stake_def eligible_validator_stake_def vs_get_validator_def)
  qed
  then show "hm_get_or 0 (eligible_powers ms (canonical_validator_powers vs pool)) = rule_weight (vs, pool, ms)"
    by (simp add: canonical_powers_plain [OF v2 d] fun_eq_iff)
qed


section \<open>Evaluation on a one-validator network\<close>

definition demo_committed :: "u8 \<Rightarrow> block" where
  "demo_committed ph =
     (let blk = (demo_block 1)\<lparr>blk_header := (blk_header (demo_block 1))\<lparr>hdr_parent_hash := Hash (ph # replicate 31 0),
            hdr_validators_hash := compute_validators_hash demo_crypto (demo_set [1]) (demo_pool [1])\<rparr>\<rparr>
      in blk\<lparr>blk_commit_signatures := [\<lparr>cs_validator = demo_pubkey 1,
           cs_signature = keypair_sign demo_crypto (demo_keypair 1)
             (precommit_signing_bytes_for_chain_id ''lichen'' 5 0 (Some (block_hash demo_crypto blk)) 100),
           cs_timestamp = 100\<rparr>]\<rparr>)"

lemma demo_committed_sel [simp]:
  "hdr_slot (blk_header (demo_committed ph)) = 5" "blk_commit_round (demo_committed ph) = 0"
  "hdr_parent_hash (blk_header (demo_committed ph)) = Hash (ph # replicate 31 0)"
  "hdr_validators_hash (blk_header (demo_committed ph)) = compute_validators_hash demo_crypto (demo_set [1]) (demo_pool [1])"
  "map cs_validator (blk_commit_signatures (demo_committed ph)) = [demo_pubkey 1]"
  "map cs_timestamp (blk_commit_signatures (demo_committed ph)) = [100]"
  by (simp_all add: demo_committed_def demo_block_def block_sign_with_chain_id_def Let_def)

lemma demo_committed_hash: "hash_bytes (block_hash demo_crypto (demo_committed ph)) ! 8 = ph"
  by (simp add: block_hash_def header_signable_hash_def hash_data_def header_signable_data_def nth_append
      demo_crypto_def)

lemma demo_rules:
  "sp_staking_v2_state (demo_pool ks) = None" "map vi_pubkey (vs_validators (demo_set [1])) = [demo_pubkey 1]"
  "vs_validators (demo_set [1]) = [vi_new (demo_pubkey 1) 0]" "\<not> vi_pending_activation (vi_new (demo_pubkey 1) 0)"
  by (simp_all add: demo_pool_def sp_new_def demo_set_def vi_new_def)

lemma demo_stake:
  "eligible_validator_stake (demo_pubkey 1) (demo_set [1]) (demo_pool [1]) MIN_VALIDATOR_STAKE = Some BOOTSTRAP_GRANT_AMOUNT"
  using fun_cong [OF snapshot_is_rules(1) [of "demo_pool [1]" "demo_set [1]" MIN_VALIDATOR_STAKE], of "demo_pubkey 1"]
  by (simp add: demo_rules demo_snapshot rule_stake_def)

lemma demo_committed_verifies:
  "verify_commit_with_chain_id_and_min_stake demo_crypto ''lichen'' (demo_set [1]) (demo_pool [1]) MIN_VALIDATOR_STAKE
     (demo_committed ph) = Inr ()"
proof (rule certified_block_verifies)
  have "block_hash demo_crypto (blk\<lparr>blk_commit_signatures := sigs\<rparr>) = block_hash demo_crypto blk" for blk :: block and sigs
    by (simp add: block_hash_def)
  then show "certificate_ok demo_crypto ''lichen'' (snapshot_build (demo_set [1]) (demo_pool [1]) MIN_VALIDATOR_STAKE)
      (hdr_slot (blk_header (demo_committed ph))) (blk_commit_round (demo_committed ph))
      (block_hash demo_crypto (demo_committed ph)) (blk_commit_signatures (demo_committed ph))"
    by (simp add: certificate_ok_def demo_quorum) (simp add: demo_committed_def Let_def)
qed (simp_all add: demo_rules)



text \<open>A codec that serialises one certificate and the empty metadata.\<close>

definition demo_cert :: canonical_commit_certificate where
  "demo_cert = \<lparr>cc_version = 2, cc_height = 5, cc_round = 0,
     cc_block_hash = block_hash demo_crypto (demo_committed 1),
     cc_validators_hash = compute_validators_hash demo_crypto (demo_set [1]) (demo_pool [1]),
     cc_validator_powers = canonical_validator_powers (demo_set [1]) (demo_pool [1]),
     cc_parent_post_state_root = Hash [1],
     cc_child_metadata_hash = hash_data demo_crypto (str_bytes ''LICHEN_BLOCK_METADATA_V1''),
     cc_signatures = blk_commit_signatures (demo_committed 1)\<rparr>"

definition demo_cert_codec :: cert_codec where
  "demo_cert_codec = \<lparr>ser_certificate = (\<lambda>cert. if cert = demo_cert then Inr [7] else Inl ''unsupported''),
     de_certificate = (\<lambda>bytes. Inr demo_cert), ser_metadata = (\<lambda>_. Inr [])\<rparr>"

lemma demo_metadata_hash: "hash_data demo_crypto (str_bytes ''LICHEN_BLOCK_METADATA_V1'') \<noteq> hash_default"
proof -
  have "hd (hash_bytes (hash_data demo_crypto (str_bytes ''LICHEN_BLOCK_METADATA_V1''))) = of_char CHR ''L''"
    by (simp add: hash_data_def str_bytes_def demo_sha256_hd)
  then show ?thesis by (auto simp: hash_default_def)
qed

lemma demo_cert_built:
  "from_committed_block demo_crypto demo_cert_codec (demo_committed 1)
     (canonical_validator_powers (demo_set [1]) (demo_pool [1])) (Hash [1]) = Inr demo_cert"
  and demo_cert_shape: "validate_canonical_shape demo_crypto demo_cert = Inr ()"
proof -
  have s: "sort_key cs_validator (blk_commit_signatures (demo_committed 1)) = blk_commit_signatures (demo_committed 1)"
    "blk_commit_signatures (demo_committed 1) \<noteq> []"
    by (simp_all add: demo_committed_def Let_def)
  have p: "map cvp_validator (canonical_validator_powers (demo_set [1]) (demo_pool [1])) = [demo_pubkey 1]"
    by (simp add: canonical_validator_powers_def demo_rules demo_sorted Let_def vi_new_def)
  then have p': "canonical_validator_powers (demo_set [1]) (demo_pool [1]) \<noteq> []" by auto
  show shape: "validate_canonical_shape demo_crypto demo_cert = Inr ()"
    by (simp add: validate_canonical_shape_def demo_cert_def CANONICAL_COMMIT_ENVELOPE_VERSION_def s p p'
        demo_metadata_hash compute_validators_hash_def) (auto simp: hash_default_def dest: arg_cong [of _ _ length])
  then show "from_committed_block demo_crypto demo_cert_codec (demo_committed 1)
      (canonical_validator_powers (demo_set [1]) (demo_pool [1])) (Hash [1]) = Inr demo_cert"
    by (simp add: from_committed_block_def canonical_block_metadata_hash_def demo_cert_codec_def s Let_def
        CANONICAL_COMMIT_ENVELOPE_VERSION_def demo_cert_def)
qed


theorem certificate_transaction_roundtrip_witness:
  "\<exists>tx. cert_to_transaction demo_crypto demo_cert_codec demo_cert = Inr tx \<and>
     cert_from_transaction demo_crypto demo_cert_codec tx = Inr (Some demo_cert)"
proof -
  obtain tx where tx: "cert_to_transaction demo_crypto demo_cert_codec demo_cert = Inr tx"
    by (simp add: cert_to_transaction_def demo_cert_shape demo_cert_codec_def MAX_CANONICAL_COMMIT_ENVELOPE_BYTES_def)
  have "cert_codec_laws demo_cert_codec" by (simp add: cert_codec_laws_def demo_cert_codec_def)
  from certificate_transaction_roundtrip [OF this tx] tx show ?thesis by blast
qed

text \<open>A commit reached while proposing is the header of a stored proposal.\<close>

lemma do_precommit_commit_header:
  assumes "(h, r, blk, bh) \<in> set (commits_of (snd (do_precommit env o' e)))"
  shows "\<exists>b. hm_get (en_proposal_blocks e) bh = Some b \<and> blk_header blk = blk_header b"
  using assms by (auto simp: do_precommit_def Let_def start_round_def committed_block_def
      split: if_splits option.splits prod.splits)

lemma do_prevote_commit_header:
  assumes "(h, r, blk, bh) \<in> set (commits_of (snd (do_prevote env o' e)))"
  shows "\<exists>b. hm_get (en_proposal_blocks e) bh = Some b \<and> blk_header blk = blk_header b"
  using assms by (auto simp: do_prevote_def Let_def lock_on_def case_prod_beta
      split: if_splits option.splits dest!: do_precommit_commit_header)

lemma demo_commit_slot:
  assumes "(5, 0, blk, block_hash demo_crypto (demo_block 1))
      \<in> set (commits_of (snd (handle (demo_env [1]) (Ev_propose (demo_block 1)) (demo_engine 1))))"
  shows "hdr_slot (blk_header blk) = 5"
proof -
  have slot: "hdr_slot (blk_header (demo_block 1)) = 5" by (simp add: demo_block_def block_sign_with_chain_id_def Let_def)
  show ?thesis
    using assms entered_sel [OF demo_entered, of 1]
    by (auto simp: create_proposal_def proposal_value_def Let_def case_prod_beta slot
        dest!: do_prevote_commit_header)
qed


end
