(* ===== verification/Vote_Tracking.thy ===== *)
theory Vote_Tracking
  imports Commit_Certificate "HOL-Library.Multiset"
begin

text \<open>
  Slot votes, commitment levels and fork choice of \<open>src/core/src/consensus.rs\<close>: the vote
  aggregator with its equivocation index, the finality tracker shared with the RPC threads
  (two atomic counters, so its update is two steps that other threads interleave with), and
  the choice of the canonical head. The lemmas show that an aggregator never confirms two
  blocks in a slot, that the commitment levels stay ordered under every interleaving, and
  that the chosen head does not depend on the order in which heads arrive.
\<close>

section \<open>Vote aggregator\<close>

record vote_aggregator =
  ag_votes :: "(u64 \<times> hash, vote list) hmap"
  ag_voted_in_slot :: "(u64 \<times> pubkey, bool) hmap"

definition ag_new :: vote_aggregator where
  "ag_new = \<lparr>ag_votes = [], ag_voted_in_slot = []\<rparr>"

definition ag_add_vote :: "crypto \<Rightarrow> vote \<Rightarrow> vote_aggregator \<Rightarrow> vote_aggregator \<times> bool" where
  "ag_add_vote c vote a =
     (if \<not> vote_verify c vote then (a, False)
      else if hm_contains (ag_voted_in_slot a) (vt_slot vote, vt_validator vote) then (a, False)
      else (a\<lparr>ag_voted_in_slot := hm_insert (vt_slot vote, vt_validator vote) True (ag_voted_in_slot a),
              ag_votes := hm_push (vt_slot vote, vt_block_hash vote) vote (ag_votes a)\<rparr>, True))"

definition ag_add_vote_validated ::
  "crypto \<Rightarrow> vote \<Rightarrow> validator_set \<Rightarrow> vote_aggregator \<Rightarrow> vote_aggregator \<times> bool" where
  "ag_add_vote_validated c vote vs a =
     (if vs_get_validator vs (vt_validator vote) = None then (a, False) else ag_add_vote c vote a)"

definition ag_add_vote_validated_with_min_stake ::
  "crypto \<Rightarrow> vote \<Rightarrow> validator_set \<Rightarrow> stake_pool \<Rightarrow> u64 \<Rightarrow> vote_aggregator \<Rightarrow> vote_aggregator \<times> bool" where
  "ag_add_vote_validated_with_min_stake c vote vs pool min_stake a =
     (if eligible_validator_stake (vt_validator vote) vs pool min_stake = None then (a, False)
      else ag_add_vote c vote a)"

definition ag_get_votes :: "vote_aggregator \<Rightarrow> u64 \<Rightarrow> hash \<Rightarrow> vote list option" where
  "ag_get_votes a slot bh = hm_get (ag_votes a) (slot, bh)"

definition ag_has_supermajority_with_min_stake ::
  "vote_aggregator \<Rightarrow> u64 \<Rightarrow> hash \<Rightarrow> validator_set \<Rightarrow> stake_pool \<Rightarrow> u64 \<Rightarrow> bool" where
  "ag_has_supermajority_with_min_stake a slot bh vs pool min_stake =
     (case ag_get_votes a slot bh of
        None \<Rightarrow> False
      | Some votes \<Rightarrow>
          (let total_stake = total_eligible_validator_stake vs pool min_stake in
           if total_stake = 0 then False
           else
             let vote_stake = sum_list (List.map_filter
                   (\<lambda>vote. eligible_validator_stake (vt_validator vote) vs pool min_stake) votes)
             in vote_stake * 3 \<ge> total_stake * 2))"

definition ag_has_supermajority :: "vote_aggregator \<Rightarrow> u64 \<Rightarrow> hash \<Rightarrow> validator_set \<Rightarrow> stake_pool \<Rightarrow> bool" where
  "ag_has_supermajority a slot bh vs pool =
     ag_has_supermajority_with_min_stake a slot bh vs pool MIN_VALIDATOR_STAKE"

definition ag_vote_count :: "vote_aggregator \<Rightarrow> u64 \<Rightarrow> hash \<Rightarrow> nat" where
  "ag_vote_count a slot bh = (case ag_get_votes a slot bh of Some vs \<Rightarrow> length vs | None \<Rightarrow> 0)"

definition ag_prune_old_votes :: "u64 \<Rightarrow> u64 \<Rightarrow> vote_aggregator \<Rightarrow> vote_aggregator" where
  "ag_prune_old_votes current_slot keep_slots a =
     (let cutoff_slot = saturating_sub current_slot keep_slots
      in a\<lparr>ag_votes := hm_retain (\<lambda>(slot, _). slot \<ge> cutoff_slot) (ag_votes a),
           ag_voted_in_slot := hm_retain (\<lambda>(slot, _). slot \<ge> cutoff_slot) (ag_voted_in_slot a)\<rparr>)"

text \<open>The calls that change an aggregator, in the order in which they happen.\<close>

datatype ag_call =
    Ag_add vote
  | Ag_add_validated vote validator_set
  | Ag_add_with_stake vote validator_set stake_pool u64
  | Ag_prune u64 u64

fun ag_step :: "crypto \<Rightarrow> ag_call \<Rightarrow> vote_aggregator \<Rightarrow> vote_aggregator" where
  "ag_step c (Ag_add v) a = fst (ag_add_vote c v a)"
| "ag_step c (Ag_add_validated v vs) a = fst (ag_add_vote_validated c v vs a)"
| "ag_step c (Ag_add_with_stake v vs pool ms) a = fst (ag_add_vote_validated_with_min_stake c v vs pool ms a)"
| "ag_step c (Ag_prune cur keep) a = ag_prune_old_votes cur keep a"

section \<open>Finality tracker\<close>

definition FINALITY_DEPTH :: u64 where "FINALITY_DEPTH = 0"

record finality_tracker =
  ft_confirmed_slot :: u64
  ft_finalized_slot :: u64

definition ft_new :: "u64 \<Rightarrow> u64 \<Rightarrow> finality_tracker" where
  "ft_new initial_confirmed initial_finalized =
     \<lparr>ft_confirmed_slot = initial_confirmed,
      ft_finalized_slot = max initial_finalized (saturating_sub initial_confirmed FINALITY_DEPTH)\<rparr>"

text \<open>The two atomic operations of \<open>mark_confirmed\<close>, and the call when nothing interferes.\<close>

definition ft_fetch_max_confirmed :: "u64 \<Rightarrow> finality_tracker \<Rightarrow> finality_tracker \<times> u64" where
  "ft_fetch_max_confirmed slot t =
     (t\<lparr>ft_confirmed_slot := max (ft_confirmed_slot t) slot\<rparr>, ft_confirmed_slot t)"

definition ft_fetch_max_finalized :: "u64 \<Rightarrow> finality_tracker \<Rightarrow> finality_tracker" where
  "ft_fetch_max_finalized slot t =
     t\<lparr>ft_finalized_slot := max (ft_finalized_slot t) (saturating_sub slot FINALITY_DEPTH)\<rparr>"

definition ft_mark_confirmed :: "u64 \<Rightarrow> finality_tracker \<Rightarrow> finality_tracker \<times> bool" where
  "ft_mark_confirmed slot t =
     (case ft_fetch_max_confirmed slot t of (t, prev) \<Rightarrow>
        if slot > prev then (ft_fetch_max_finalized slot t, True) else (t, False))"

datatype commitment = Processed | Confirmed | Finalized

definition commitment_level :: "u64 \<Rightarrow> u64 \<Rightarrow> u64 \<Rightarrow> commitment" where
  "commitment_level finalized confirmed slot =
     (if slot \<le> finalized then Finalized else if slot \<le> confirmed then Confirmed else Processed)"

definition ft_commitment_for_slot :: "finality_tracker \<Rightarrow> u64 \<Rightarrow> commitment" where
  "ft_commitment_for_slot t slot = commitment_level (ft_finalized_slot t) (ft_confirmed_slot t) slot"

text \<open>
  Concurrent calls: each thread performs the first atomic operation and later the second one,
  which it owes while it is between the two. The state carries the slots still owed.
\<close>

inductive ft_atomic :: "finality_tracker \<times> u64 list \<Rightarrow> finality_tracker \<times> u64 list \<Rightarrow> bool" where
  confirm_new: "ft_fetch_max_confirmed slot t = (t', prev) \<Longrightarrow> prev < slot \<Longrightarrow>
     ft_atomic (t, owed) (t', slot # owed)"
| confirm_old: "ft_fetch_max_confirmed slot t = (t', prev) \<Longrightarrow> \<not> prev < slot \<Longrightarrow>
     ft_atomic (t, owed) (t', owed)"
| finalize: "slot \<in> set owed \<Longrightarrow>
     ft_atomic (t, owed) (ft_fetch_max_finalized slot t, remove1 slot owed)"

inductive_cases ft_atomicE: "ft_atomic s s'"

section \<open>Fork choice\<close>

record fork_choice =
  fc_heads :: "(u64 \<times> hash \<times> u64) list"

definition fc_new :: fork_choice where "fc_new = \<lparr>fc_heads = []\<rparr>"

fun bump_head :: "hash \<Rightarrow> u64 \<Rightarrow> (u64 \<times> hash \<times> u64) list \<Rightarrow> (u64 \<times> hash \<times> u64) list option" where
  "bump_head bh w [] = None"
| "bump_head bh w ((slot, h, w') # heads) =
     (if h = bh then Some ((slot, h, saturating_add w' w) # heads)
      else map_option (\<lambda>hs. (slot, h, w') # hs) (bump_head bh w heads))"

definition fc_add_head :: "u64 \<Rightarrow> hash \<Rightarrow> u64 \<Rightarrow> fork_choice \<Rightarrow> fork_choice" where
  "fc_add_head slot bh stake_weight f =
     (let heads = (case bump_head bh stake_weight (fc_heads f) of
                     Some hs \<Rightarrow> hs | None \<Rightarrow> fc_heads f @ [(slot, bh, stake_weight)]);
          max_slot = foldl max 0 (map fst heads)
      in f\<lparr>fc_heads := filter (\<lambda>(s, _, _). wrapping_add64 s 100 \<ge> max_slot) heads\<rparr>)"

text \<open>The comparison of the sources: slot, then stake weight, then the bytes of the hash.\<close>

definition head_le :: "u64 \<times> hash \<times> u64 \<Rightarrow> u64 \<times> hash \<times> u64 \<Rightarrow> bool" where
  "head_le a b =
     (case (a, b) of ((s1, h1, w1), (s2, h2, w2)) \<Rightarrow>
        s1 < s2 \<or> s1 = s2 \<and> (w1 < w2 \<or> w1 = w2 \<and> h1 \<le> h2))"

fun max_by :: "('a \<Rightarrow> 'a \<Rightarrow> bool) \<Rightarrow> 'a list \<Rightarrow> 'a option" where
  "max_by le [] = None"
| "max_by le (x # xs) = Some (foldl (\<lambda>m y. if le m y then y else m) x xs)"

definition fc_select_head :: "fork_choice \<Rightarrow> (u64 \<times> hash) option" where
  "fc_select_head f = map_option (\<lambda>(slot, bh, _). (slot, bh)) (max_by head_le (fc_heads f))"

definition fc_select_head_respecting_finality :: "u64 \<Rightarrow> fork_choice \<Rightarrow> (u64 \<times> hash) option" where
  "fc_select_head_respecting_finality finalized_slot f =
     map_option (\<lambda>(slot, bh, _). (slot, bh))
       (max_by head_le (filter (\<lambda>(slot, _, _). slot > finalized_slot) (fc_heads f)))"

definition fc_clear :: "fork_choice \<Rightarrow> fork_choice" where
  "fc_clear f = f\<lparr>fc_heads := []\<rparr>"

definition fc_get_weight :: "fork_choice \<Rightarrow> hash \<Rightarrow> u64" where
  "fc_get_weight f bh =
     (case find (\<lambda>(_, h, _). h = bh) (fc_heads f) of Some (_, _, w) \<Rightarrow> w | None \<Rightarrow> 0)"

definition fc_observe :: "(u64 \<times> hash \<times> u64) list \<Rightarrow> fork_choice \<Rightarrow> fork_choice" where
  "fc_observe hs f = foldl (\<lambda>f (slot, bh, w). fc_add_head slot bh w f) f hs"

section \<open>One block per slot\<close>

abbreviation ag_bucket :: "vote_aggregator \<Rightarrow> u64 \<Rightarrow> hash \<Rightarrow> vote list" where
  "ag_bucket a slot bh \<equiv> hm_get_or [] (ag_votes a) (slot, bh)"

definition ag_inv :: "crypto \<Rightarrow> vote_aggregator \<Rightarrow> bool" where
  "ag_inv c a \<longleftrightarrow>
     (\<forall>slot bh. \<forall>v \<in> set (ag_bucket a slot bh). vt_slot v = slot \<and> vt_block_hash v = bh \<and> vote_verify c v \<and>
        (slot, vt_validator v) \<in> fst ` set (ag_voted_in_slot a)) \<and>
     (\<forall>slot bh. distinct (map vt_validator (ag_bucket a slot bh))) \<and>
     (\<forall>slot bh bh'. bh \<noteq> bh' \<longrightarrow> (\<forall>v \<in> set (ag_bucket a slot bh). \<forall>v' \<in> set (ag_bucket a slot bh').
        vt_validator v \<noteq> vt_validator v'))"

lemma hm_get_or_retain: "hm_get_or d (hm_retain P m) k = (if P k then hm_get_or d m k else d)"
  by (simp add: hm_get_or_def)

lemma keys_retain: "fst ` set (hm_retain P m) = {k \<in> fst ` set m. P k}"
  by (force simp: hm_retain_def)

lemma ag_new_inv: "ag_inv c ag_new"
  by (simp add: ag_inv_def ag_new_def)

lemma ag_invD:
  assumes "ag_inv c a"
  shows "v \<in> set (ag_bucket a slot bh) \<Longrightarrow> vt_slot v = slot \<and> vt_block_hash v = bh \<and> vote_verify c v \<and>
      (slot, vt_validator v) \<in> fst ` set (ag_voted_in_slot a)"
    and "distinct (map vt_validator (ag_bucket a slot bh))"
    and "bh \<noteq> bh' \<Longrightarrow> v \<in> set (ag_bucket a slot bh) \<Longrightarrow> v' \<in> set (ag_bucket a slot bh') \<Longrightarrow>
      vt_validator v \<noteq> vt_validator v'"
  using assms unfolding ag_inv_def by blast+

lemma ag_add_vote_inv:
  assumes "ag_inv c a"
  shows "ag_inv c (fst (ag_add_vote c v a))"
proof (cases "vote_verify c v \<and> \<not> hm_contains (ag_voted_in_slot a) (vt_slot v, vt_validator v)")
  case True
  let ?a = "fst (ag_add_vote c v a)"
  have new: "vt_validator w \<noteq> vt_validator v" if "w \<in> set (ag_bucket a (vt_slot v) bh)" for w bh
    using ag_invD(1) [OF assms that] True by force
  have bucket: "ag_bucket ?a slot bh = (if (slot, bh) = (vt_slot v, vt_block_hash v) then ag_bucket a slot bh @ [v]
      else ag_bucket a slot bh)" for slot bh
    using True by (simp add: ag_add_vote_def)
  have voted: "fst ` set (ag_voted_in_slot ?a) = insert (vt_slot v, vt_validator v) (fst ` set (ag_voted_in_slot a))"
    using True by (simp add: ag_add_vote_def)
  show ?thesis
    unfolding ag_inv_def bucket voted
  proof (intro conjI allI impI ballI)
    fix slot bh bh' w w'
    assume "bh \<noteq> bh'"
      and "w \<in> set (if (slot, bh) = (vt_slot v, vt_block_hash v) then ag_bucket a slot bh @ [v] else ag_bucket a slot bh)"
      and "w' \<in> set (if (slot, bh') = (vt_slot v, vt_block_hash v) then ag_bucket a slot bh' @ [v] else ag_bucket a slot bh')"
    then show "vt_validator w \<noteq> vt_validator w'"
      using ag_invD(3) [OF assms, of bh bh' w slot w'] new [of w bh] new [of w' bh'] by (auto split: if_splits)
  qed (use ag_invD(1,2) [OF assms] new True in \<open>auto split: if_splits\<close>)
qed (use assms in \<open>auto simp: ag_add_vote_def\<close>)

lemma ag_prune_inv:
  assumes "ag_inv c a"
  shows "ag_inv c (ag_prune_old_votes cur keep a)"
proof -
  let ?a = "ag_prune_old_votes cur keep a" and ?P = "\<lambda>slot. saturating_sub cur keep \<le> slot"
  have bucket: "ag_bucket ?a slot bh = (if ?P slot then ag_bucket a slot bh else [])" for slot bh
    by (simp add: ag_prune_old_votes_def Let_def hm_get_or_retain)
  have voted: "fst ` set (ag_voted_in_slot ?a) = {k \<in> fst ` set (ag_voted_in_slot a). ?P (fst k)}"
    by (simp add: ag_prune_old_votes_def Let_def keys_retain case_prod_beta)
  show ?thesis
    unfolding ag_inv_def bucket voted using ag_invD [OF assms] by (auto split: if_splits)
qed

lemma ag_step_inv: "ag_inv c a \<Longrightarrow> ag_inv c (ag_step c op a)"
  by (cases op) (simp_all add: ag_add_vote_inv ag_prune_inv ag_add_vote_validated_def
      ag_add_vote_validated_with_min_stake_def)

lemma ag_run_inv: "ag_inv c (fold (ag_step c) ops ag_new)"
proof -
  have "ag_inv c a \<Longrightarrow> ag_inv c (fold (ag_step c) ops a)" for a
    by (induction ops arbitrary: a) (simp_all add: ag_step_inv)
  then show ?thesis using ag_new_inv .
qed

lemma ag_supermajority_quorum:
  assumes "ag_inv c a" "ag_has_supermajority_with_min_stake a slot bh vs pool ms"
  shows "rules.quorum (vs, pool, ms) (vt_validator ` set (ag_bucket a slot bh))"
proof -
  let ?s = "(vs, pool, ms)" and ?votes = "ag_bucket a slot bh"
  from assms(2) have "ag_get_votes a slot bh = Some ?votes" "rule_total ?s \<noteq> 0"
    and *: "rule_total ?s * 2 \<le> sum_list (List.map_filter (\<lambda>v. rule_stake ?s (vt_validator v)) ?votes) * 3"
    by (auto simp: ag_has_supermajority_with_min_stake_def ag_get_votes_def hm_get_or_def rule_total_def
        rule_stake_def Let_def split: option.splits if_splits)
  have "sum_list (List.map_filter (\<lambda>v. rule_stake ?s (vt_validator v)) ?votes)
      = sum_list (map (rule_weight ?s) (map vt_validator ?votes))"
    by (simp add: sum_list_map_filter rule_weight_def comp_def)
  also have "\<dots> = sum (rule_weight ?s) (set (map vt_validator ?votes))"
    by (rule sum_list_distinct_conv_sum_set) (use assms(1) in \<open>simp add: ag_inv_def\<close>)
  finally show ?thesis
    using * \<open>rule_total ?s \<noteq> 0\<close> by (simp add: rules.quorum_def rules_power_of)
qed

text \<open>
  C24: whatever votes arrive, in whatever order, through whichever of the three entry points and
  with pruning in between, an aggregator never shows a supermajority for two different blocks
  of one slot: it counts each validator once per slot, and two quorums would have to share one.
\<close>

theorem aggregator_confirms_one_block:
  assumes "distinct (map vi_pubkey (vs_validators vs))"
    and "ag_has_supermajority_with_min_stake (fold (ag_step c) calls ag_new) slot h1 vs pool ms"
    and "ag_has_supermajority_with_min_stake (fold (ag_step c) calls ag_new) slot h2 vs pool ms"
  shows "h1 = h2"
proof (rule ccontr)
  let ?a = "fold (ag_step c) calls ag_new" and ?s = "(vs, pool, ms)"
  assume "h1 \<noteq> h2"
  with ag_run_inv [of c calls]
  have disj: "vt_validator ` set (ag_bucket ?a slot h1) \<inter> vt_validator ` set (ag_bucket ?a slot h2) = {}"
    by (auto simp: ag_inv_def)
  note q = ag_supermajority_quorum [OF ag_run_inv]
  have "rule_ok ?s" using assms(1) by (simp add: rule_ok_def)
  from rules.quorum_intersection [OF this q [OF assms(2)] q [OF assms(3)]] disj
  have "rule_total ?s = 0" by (simp add: rules.power_of_def)
  with q [OF assms(2)] show False by (simp add: rules.quorum_def)
qed

text \<open>Two votes for different blocks of a slot, by the two validators of a set.\<close>

definition demo_vote :: "u8 \<Rightarrow> hash \<Rightarrow> vote" where
  "demo_vote n bh = \<lparr>vt_slot = 5, vt_block_hash = bh, vt_validator = demo_pubkey n,
     vt_signature = keypair_sign demo_crypto (demo_keypair n) (vote_message 5 bh), vt_timestamp = 0\<rparr>"

lemma demo_vote_sel [simp]:
  "vt_slot (demo_vote n bh) = 5" "vt_block_hash (demo_vote n bh) = bh" "vt_validator (demo_vote n bh) = demo_pubkey n"
  "vote_verify demo_crypto (demo_vote n bh)"
  by (simp_all add: vote_verify_def demo_vote_def)

lemma demo_total: "total_eligible_validator_stake (demo_set [1]) (demo_pool [1]) MIN_VALIDATOR_STAKE = BOOTSTRAP_GRANT_AMOUNT"
proof -
  have "vi_pubkey (vi_new (demo_pubkey 1) 0) = demo_pubkey 1" by (simp add: vi_new_def)
  then show ?thesis by (simp add: total_eligible_validator_stake_def demo_rules(3) demo_stake map_filter_simps)
qed

lemma demo_supermajority:
  "ag_has_supermajority_with_min_stake (fold (ag_step demo_crypto) [Ag_add (demo_vote 1 bh), Ag_add (demo_vote 1 bh')]
     ag_new) 5 bh (demo_set [1]) (demo_pool [1]) MIN_VALIDATOR_STAKE"
proof -
  have "ag_get_votes (fold (ag_step demo_crypto) [Ag_add (demo_vote 1 bh), Ag_add (demo_vote 1 bh')] ag_new) 5 bh
      = Some [demo_vote 1 bh]"
    by (simp add: ag_get_votes_def ag_add_vote_def ag_new_def hm_push_def)
  moreover have "BOOTSTRAP_GRANT_AMOUNT \<noteq> 0" by (simp add: BOOTSTRAP_GRANT_AMOUNT_def)
  ultimately show ?thesis
    unfolding ag_has_supermajority_with_min_stake_def by (simp add: demo_total demo_stake map_filter_simps del: ag_step.simps)
qed

theorem aggregator_confirms_one_block_witness:
  "\<not> ag_has_supermajority_with_min_stake (fold (ag_step demo_crypto)
       [Ag_add (demo_vote 1 (Hash [1])), Ag_add (demo_vote 1 (Hash [2]))] ag_new) 5 (Hash [2])
       (demo_set [1]) (demo_pool [1]) MIN_VALIDATOR_STAKE"
  using aggregator_confirms_one_block [OF _ demo_supermajority [of "Hash [1]" "Hash [2]"], of "Hash [2]"]
  by (auto simp: demo_rules)

section \<open>Commitment levels\<close>

lemma ft_atomic_mono:
  assumes "ft_atomic\<^sup>*\<^sup>* s s'"
  shows "ft_confirmed_slot (fst s) \<le> ft_confirmed_slot (fst s') \<and> ft_finalized_slot (fst s) \<le> ft_finalized_slot (fst s')"
  using assms
  by (induction rule: rtranclp_induct)
    (auto elim!: ft_atomicE simp: ft_fetch_max_confirmed_def ft_fetch_max_finalized_def)

lemma ft_atomic_owed:
  assumes "ft_atomic\<^sup>*\<^sup>* (ft_new confirmed0 finalized0, []) s" "finalized0 \<le> confirmed0"
  shows "ft_finalized_slot (fst s) \<le> ft_confirmed_slot (fst s) \<and> (\<forall>slot \<in> set (snd s). slot \<le> ft_confirmed_slot (fst s)) \<and>
     (ft_confirmed_slot (fst s) = ft_finalized_slot (fst s) \<or> ft_confirmed_slot (fst s) \<in> set (snd s))"
  using assms(1)
proof (induction rule: rtranclp_induct)
  case base
  then show ?case using assms(2) by (simp add: ft_new_def FINALITY_DEPTH_def saturating_sub_def)
next
  case (step s s')
  from step.hyps(2) step.IH show ?case
  proof (cases rule: ft_atomic.cases)
    case (finalize slot owed t)
    then show ?thesis using step.IH
      by (cases "slot = ft_confirmed_slot t")
        (auto simp: ft_fetch_max_finalized_def FINALITY_DEPTH_def saturating_sub_def in_set_remove1 dest: notin_set_remove1)
  qed (auto simp: ft_fetch_max_confirmed_def)
qed

text \<open>
  C26: under every interleaving of concurrent \<open>mark_confirmed\<close> calls, the finalized slot never
  passes the confirmed one, the commitment level of a slot never goes back, and when no call is
  between its two atomic operations every confirmed slot is finalized.
\<close>

theorem commitment_levels_consistent:
  assumes "ft_atomic\<^sup>*\<^sup>* (ft_new confirmed0 finalized0, []) (t, owed)" "finalized0 \<le> confirmed0"
    and "ft_atomic\<^sup>*\<^sup>* (t, owed) (t', owed')"
  shows "ft_finalized_slot t \<le> ft_confirmed_slot t \<and>
    (ft_commitment_for_slot t slot = Finalized \<longrightarrow> ft_commitment_for_slot t' slot = Finalized) \<and>
    (ft_commitment_for_slot t slot \<noteq> Processed \<longrightarrow> ft_commitment_for_slot t' slot \<noteq> Processed) \<and>
    (owed = [] \<longrightarrow> ft_commitment_for_slot t slot \<noteq> Confirmed)"
  using ft_atomic_owed [OF assms(1,2)] ft_atomic_mono [OF assms(3)]
  by (auto simp: ft_commitment_for_slot_def commitment_level_def split: if_splits)

theorem commitment_levels_consistent_witness:
  "ft_commitment_for_slot (fst (ft_mark_confirmed 7 (ft_new 3 2))) 7 = Finalized"
proof -
  let ?t = "ft_new 3 2\<lparr>ft_confirmed_slot := 7\<rparr>"
  have "ft_atomic (ft_new 3 2, []) (?t, [7])"
    by (rule ft_atomic.confirm_new [where prev = 3]) (simp_all add: ft_fetch_max_confirmed_def ft_new_def)
  moreover have "ft_atomic (?t, [7]) (ft_fetch_max_finalized 7 ?t, remove1 7 [7])"
    by (rule ft_atomic.finalize) simp
  ultimately have "ft_atomic\<^sup>*\<^sup>* (ft_new 3 2, []) (ft_fetch_max_finalized 7 ?t, [])" by simp
  from commitment_levels_consistent [OF this _ rtranclp.rtrancl_refl, of 7]
  show ?thesis
    by (auto simp: ft_mark_confirmed_def ft_fetch_max_confirmed_def ft_fetch_max_finalized_def ft_new_def
        ft_commitment_for_slot_def commitment_level_def FINALITY_DEPTH_def saturating_sub_def)
qed

section \<open>Order independence of the fork choice\<close>

abbreviation head_hash :: "u64 \<times> hash \<times> u64 \<Rightarrow> hash" where
  "head_hash h \<equiv> fst (snd h)"

lemma max_by_Some:
  assumes "\<And>x y z. le x y \<Longrightarrow> le y z \<Longrightarrow> le x z" "\<And>x y. le x y \<or> le y x" "max_by le xs = Some m"
  shows "m \<in> set xs \<and> (\<forall>x \<in> set xs. le x m)"
proof -
  let ?f = "\<lambda>m y. if le m y then y else m"
  have "foldl ?f x xs \<in> insert x (set xs) \<and> le x (foldl ?f x xs) \<and> (\<forall>y \<in> set xs. le y (foldl ?f x xs))" for x xs
  proof (induction xs arbitrary: x)
    case Nil
    then show ?case using assms(2) [of x x] by simp
  next
    case (Cons y xs)
    show ?case
    proof (cases "le x y")
      case True
      with Cons.IH [of y] assms(1) [of x y "foldl ?f y xs"] show ?thesis by auto
    next
      case False
      then have "le y x" using assms(2) by blast
      with False Cons.IH [of x] assms(1) [of y x "foldl ?f x xs"] show ?thesis by auto
    qed
  qed
  with assms(3) show ?thesis by (cases xs) auto
qed

lemma head_le_order: "head_le x y \<Longrightarrow> head_le y z \<Longrightarrow> head_le x z" "head_le x y \<or> head_le y x"
  by (auto simp: head_le_def split: prod.splits)

lemma max_head: "max_by head_le xs = Some m \<Longrightarrow> m \<in> set xs \<and> (\<forall>x \<in> set xs. head_le x m)"
  by (rule max_by_Some) (erule (1) head_le_order(1), rule head_le_order(2))

lemma foldl_max: "foldl max a xs \<in> insert a (set xs) \<and> a \<le> foldl max a xs \<and> (\<forall>x \<in> set xs. x \<le> foldl max a xs)"
  for a :: nat
proof (induction xs arbitrary: a)
  case (Cons x xs)
  from Cons.IH [of "max a x"] show ?case by (auto simp: max_def split: if_splits)
qed simp

lemma foldl_max_eqI: "m \<in> set xs \<Longrightarrow> (\<forall>x \<in> set xs. x \<le> m) \<Longrightarrow> foldl max 0 xs = m" for m :: nat
  using foldl_max [of 0 xs] by force

text \<open>The heads as a map from the block hash to slot and weight.\<close>

definition heads_map :: "(u64 \<times> hash \<times> u64) list \<Rightarrow> hash \<Rightarrow> (u64 \<times> u64) option" where
  "heads_map hs = map_of (map (\<lambda>(s, h, w). (h, s, w)) hs)"

lemma heads_map_simps [simp]:
  "heads_map [] h = None"
  "heads_map ((s, h', w) # hs) h = (if h = h' then Some (s, w) else heads_map hs h)"
  by (simp_all add: heads_map_def)

lemma heads_map_None: "heads_map hs h = None \<longleftrightarrow> h \<notin> set (map head_hash hs)"
  by (induction hs) (auto split: if_splits)

lemma heads_map_mem: "heads_map hs h = Some (s, w) \<Longrightarrow> (s, h, w) \<in> set hs"
  by (induction hs) (auto split: if_splits)

lemma heads_map_Some: "distinct (map head_hash hs) \<Longrightarrow> heads_map hs h = Some (s, w) \<longleftrightarrow> (s, h, w) \<in> set hs"
proof (induction hs)
  case (Cons x hs)
  obtain s' h' w' where x: "x = (s', h', w')" by (cases x) auto
  have "(s, h', w) \<notin> set hs" using Cons.prems x by force
  then show ?case using Cons x by auto
qed simp

lemma heads_map_append [simp]:
  "heads_map (hs @ [(s, bh, w)]) h = (case heads_map hs h of Some x \<Rightarrow> Some x | None \<Rightarrow> if h = bh then Some (s, w) else None)"
  by (induction hs) auto

lemma heads_map_filter:
  "distinct (map head_hash hs) \<Longrightarrow> heads_map (filter (\<lambda>(s, _, _). P s) hs) h =
     (case heads_map hs h of Some (s, w) \<Rightarrow> if P s then Some (s, w) else None | None \<Rightarrow> None)"
proof (induction hs)
  case (Cons x hs)
  obtain s' h' w' where x: "x = (s', h', w')" by (cases x) auto
  have "heads_map hs h' = None" using Cons.prems x by (simp add: heads_map_None)
  with Cons x show ?case by auto
qed simp

lemma bump_head_None: "bump_head bh w hs = None \<longleftrightarrow> heads_map hs bh = None"
  by (induction bh w hs rule: bump_head.induct) auto

lemma bump_head_Some:
  "bump_head bh w hs = Some hs' \<Longrightarrow> map head_hash hs' = map head_hash hs \<and>
     heads_map hs' h = (case heads_map hs h of
        Some (s, w') \<Rightarrow> Some (s, if h = bh then saturating_add w' w else w') | None \<Rightarrow> None)"
  by (induction bh w hs arbitrary: hs' rule: bump_head.induct) (auto split: if_splits option.splits)

text \<open>The slot of the tip and the accumulated weight of a block, over all heads observed.\<close>

definition top_slot :: "(u64 \<times> hash \<times> u64) list \<Rightarrow> u64" where
  "top_slot hs = foldl max 0 (map fst hs)"

definition seen_weight :: "(u64 \<times> hash \<times> u64) list \<Rightarrow> hash \<Rightarrow> u64" where
  "seen_weight hs bh = min (sum_list (map (\<lambda>(_, h, w). if h = bh then w else 0) hs)) u64_max"

definition heads_inv :: "(hash \<Rightarrow> u64) \<Rightarrow> (u64 \<times> hash \<times> u64) list \<Rightarrow> (u64 \<times> hash \<times> u64) list \<Rightarrow> bool" where
  "heads_inv sl seen hs \<longleftrightarrow>
     distinct (map head_hash hs) \<and>
     (\<forall>h s w. heads_map hs h = Some (s, w) \<longrightarrow> heads_map seen h \<noteq> None \<and> s = sl h \<and>
        (s = top_slot seen \<longrightarrow> w = seen_weight seen h)) \<and>
     (\<forall>h. heads_map seen h \<noteq> None \<longrightarrow> sl h = top_slot seen \<longrightarrow> heads_map hs h \<noteq> None)"

definition head_ok :: "(hash \<Rightarrow> u64) \<Rightarrow> u64 \<times> hash \<times> u64 \<Rightarrow> bool" where
  "head_ok sl x \<longleftrightarrow> fst x = sl (head_hash x) \<and> fst x + 100 \<le> u64_max \<and> snd (snd x) \<le> u64_max"

lemma top_slot_snoc: "top_slot (seen @ [(s, h, w)]) = max (top_slot seen) s"
  by (simp add: top_slot_def)

lemma top_slot_ge: "(s, h, w) \<in> set seen \<Longrightarrow> s \<le> top_slot seen"
  using foldl_max [of 0 "map fst seen"] by (force simp: top_slot_def)

lemma top_slot_in: "seen \<noteq> [] \<Longrightarrow> \<exists>h w. (top_slot seen, h, w) \<in> set seen"
  using foldl_max [of 0 "map fst seen"] by (cases seen) (force simp: top_slot_def)+

lemma seen_weight_snoc:
  "seen_weight (seen @ [(s, h, w)]) bh = (if bh = h then saturating_add (seen_weight seen bh) w else seen_weight seen bh)"
  by (auto simp: seen_weight_def saturating_add_def)

lemma seen_weight_new: "heads_map seen bh = None \<Longrightarrow> seen_weight seen bh = 0"
  by (induction seen) (auto simp: seen_weight_def split: if_splits)

lemma add_head_map:
  assumes "distinct (map head_hash hs)"
    and "hs' = (case bump_head bh w hs of Some hs' \<Rightarrow> hs' | None \<Rightarrow> hs @ [(slot, bh, w)])"
  shows "distinct (map head_hash hs') \<and> heads_map hs' h = (if h \<noteq> bh then heads_map hs h
    else case heads_map hs bh of Some (s, w0) \<Rightarrow> Some (s, saturating_add w0 w) | None \<Rightarrow> Some (slot, w))"
proof (cases "bump_head bh w hs")
  case None
  with bump_head_None [of bh w hs] have "heads_map hs bh = None" by simp
  moreover from this have "bh \<notin> set (map head_hash hs)" by (rule heads_map_None [THEN iffD1])
  ultimately show ?thesis using assms None by (auto split: option.splits)
next
  case (Some hs1)
  with bump_head_None [of bh w hs] obtain s w0 where bh: "heads_map hs bh = Some (s, w0)" by (cases "heads_map hs bh") auto
  have hs': "hs' = hs1" using assms(2) Some by simp
  from bump_head_Some [OF Some, of h] assms(1) bh show ?thesis unfolding hs'
    by (cases "h = bh") (auto split: option.splits)
qed

lemma seen_slot:
  assumes "\<forall>x \<in> set seen. head_ok sl x" "heads_map seen h \<noteq> None"
  shows "sl h \<le> top_slot seen \<and> sl h + 100 \<le> u64_max"
proof -
  from assms(2) obtain s w where m: "(s, h, w) \<in> set seen" by (auto dest: heads_map_mem)
  with assms(1) have "s = sl h" "s + 100 \<le> u64_max" by (auto simp: head_ok_def)
  with top_slot_ge [OF m] show ?thesis by simp
qed

lemma heads_inv_weights:
  assumes inv: "heads_inv sl seen H" and ok: "\<forall>x \<in> set (seen @ [(s, h, w)]). head_ok sl x"
    and hs: "hs = (case bump_head h w H of Some hs' \<Rightarrow> hs' | None \<Rightarrow> H @ [(s, h, w)])"
    and m: "heads_map hs h' = Some (s', w')" and top: "s' = top_slot (seen @ [(s, h, w)])"
  shows "w' = seen_weight (seen @ [(s, h, w)]) h'"
proof -
  have d: "distinct (map head_hash H)" using inv by (simp add: heads_inv_def)
  note add = add_head_map [OF d hs]
  have le: "sl x \<le> top_slot seen" if "heads_map seen x \<noteq> None" for x using seen_slot [OF _ that, of sl] ok by simp
  have Hm: "heads_map seen x \<noteq> None \<and> t = sl x \<and> (t = top_slot seen \<longrightarrow> v = seen_weight seen x)"
    if "heads_map H x = Some (t, v)" for x t v using inv that by (simp add: heads_inv_def)
  have s: "s = sl h" "w \<le> u64_max" using ok by (simp_all add: head_ok_def)
  consider (other) "h' \<noteq> h" "heads_map H h' = Some (s', w')" | (old) w0 where "h' = h" "heads_map H h = Some (s', w0)"
    "w' = saturating_add w0 w" | (fresh) "h' = h" "heads_map H h = None" "s' = s" "w' = w"
    using m add by (auto split: if_splits option.splits)
  then show ?thesis
  proof cases
    case other
    with Hm [of h'] le [of h'] top have "w' = seen_weight seen h'" by (auto simp: top_slot_snoc)
    with other show ?thesis by (simp add: seen_weight_snoc)
  next
    case old
    with Hm [of h] le [of h] top s have "w0 = seen_weight seen h" by (auto simp: top_slot_snoc)
    with old show ?thesis by (simp add: seen_weight_snoc)
  next
    case fresh
    have "heads_map seen h = None"
    proof (rule ccontr)
      assume n: "heads_map seen h \<noteq> None"
      with le [OF n] fresh top s have "sl h = top_slot seen" by (simp add: top_slot_snoc)
      moreover have "\<forall>h. heads_map seen h \<noteq> None \<longrightarrow> sl h = top_slot seen \<longrightarrow> heads_map H h \<noteq> None"
        using inv unfolding heads_inv_def by blast
      ultimately show False using n fresh by blast
    qed
    from seen_weight_new [OF this] fresh s show ?thesis by (simp add: seen_weight_snoc saturating_add_def)
  qed
qed

lemma heads_inv_step:
  assumes inv: "heads_inv sl seen (fc_heads f)" and ok: "\<forall>x \<in> set (seen @ [(s, h, w)]). head_ok sl x"
  shows "heads_inv sl (seen @ [(s, h, w)]) (fc_heads (fc_add_head s h w f))"
proof -
  let ?seen = "seen @ [(s, h, w)]"
  define hs where "hs = (case bump_head h w (fc_heads f) of Some hs \<Rightarrow> hs | None \<Rightarrow> fc_heads f @ [(s, h, w)])"
  have d: "distinct (map head_hash (fc_heads f))" using inv by (simp add: heads_inv_def)
  note add = add_head_map [OF d hs_def]
  have s: "s = sl h" using ok by (simp add: head_ok_def)
  have Hm: "heads_map seen x \<noteq> None \<and> t = sl x" if "heads_map (fc_heads f) x = Some (t, v)" for x t v
    using inv that by (simp add: heads_inv_def)
  have slots: "t = sl x \<and> heads_map ?seen x \<noteq> None" if "heads_map hs x = Some (t, v)" for x t v
    using that add Hm s by (fastforce split: if_splits option.splits)
  have keep: "heads_map hs x \<noteq> None" if "heads_map ?seen x \<noteq> None" "sl x = top_slot ?seen" for x
  proof (cases "x = h")
    case False
    with that(1) have n: "heads_map seen x \<noteq> None" by (auto split: option.splits)
    with seen_slot [OF _ n, of sl] ok that(2) have "sl x = top_slot seen" by (simp add: top_slot_snoc)
    with inv n have "heads_map (fc_heads f) x \<noteq> None" unfolding heads_inv_def by blast
    with add False show ?thesis by simp
  qed (use add in \<open>auto split: option.splits\<close>)
  have "foldl max 0 (map fst hs) = top_slot ?seen"
  proof (rule foldl_max_eqI)
    from top_slot_in [of ?seen] obtain x v where x: "(top_slot ?seen, x, v) \<in> set ?seen" by auto
    with ok have t: "sl x = top_slot ?seen" by (auto simp: head_ok_def)
    from x have "heads_map ?seen x \<noteq> None" unfolding heads_map_None by force
    from keep [OF this t] obtain p where "heads_map hs x = Some p" by blast
    then have m: "heads_map hs x = Some (fst p, snd p)" by simp
    from slots [OF m] t have "fst p = top_slot ?seen" by simp
    with heads_map_mem [OF m] show "top_slot ?seen \<in> set (map fst hs)" by (metis fst_conv image_eqI set_map)
    show "\<forall>t \<in> set (map fst hs). t \<le> top_slot ?seen"
      using seen_slot [OF ok] slots add heads_map_Some [of hs] by fastforce
  qed
  then have heads: "fc_heads (fc_add_head s h w f) = filter (\<lambda>(t, _, _). top_slot ?seen \<le> wrapping_add64 t 100) hs"
    by (simp add: fc_add_head_def hs_def [symmetric] Let_def)
  have dist: "distinct (map head_hash hs)" using add by simp
  have map': "heads_map (fc_heads (fc_add_head s h w f)) x = (case heads_map hs x of
      Some (t, v) \<Rightarrow> if top_slot ?seen \<le> wrapping_add64 t 100 then Some (t, v) else None | None \<Rightarrow> None)" for x
    unfolding heads by (rule heads_map_filter [OF dist])
  have room: "top_slot ?seen \<le> wrapping_add64 t 100" if "heads_map hs x = Some (t, v)" "t = top_slot ?seen" for x t v
    using seen_slot [OF ok, of x] slots [OF that(1)] that(2) by (simp add: wrapping_add64_def u64_max_def)
  show ?thesis unfolding heads_inv_def
  proof (intro conjI allI impI)
    show "distinct (map head_hash (fc_heads (fc_add_head s h w f)))"
      unfolding heads by (rule distinct_map_filter [OF dist])
    fix x t v assume "heads_map (fc_heads (fc_add_head s h w f)) x = Some (t, v)"
    then have m: "heads_map hs x = Some (t, v)" unfolding map' by (auto split: option.splits if_splits)
    then show "heads_map ?seen x \<noteq> None" "t = sl x" using slots by blast+
    show "v = seen_weight ?seen x" if "t = top_slot ?seen" by (rule heads_inv_weights [OF inv ok hs_def m that])
  next
    fix x assume "heads_map ?seen x \<noteq> None" "sl x = top_slot ?seen"
    from keep [OF this] this(2) obtain t v where m: "heads_map hs x = Some (t, v)" "t = top_slot ?seen"
      using slots by fastforce
    with room show "heads_map (fc_heads (fc_add_head s h w f)) x \<noteq> None" unfolding map' by auto
  qed
qed

lemma heads_inv_observe:
  assumes "\<forall>x \<in> set seen. head_ok sl x"
  shows "heads_inv sl seen (fc_heads (fc_observe seen fc_new))"
  using assms
proof (induction seen rule: rev_induct)
  case (snoc x seen)
  obtain s h w where x: "x = (s, h, w)" by (cases x) auto
  have "heads_inv sl seen (fc_heads (fc_observe seen fc_new))" using snoc by simp
  from heads_inv_step [OF this, of s h w] snoc.prems show ?case by (simp add: fc_observe_def x)
qed (simp add: heads_inv_def fc_observe_def fc_new_def)

text \<open>What the choice depends on: the tip slot, and weight and hash among the blocks of that slot.\<close>

lemma select_head_spec:
  assumes ok: "\<forall>x \<in> set seen. head_ok sl x" and ne: "seen \<noteq> []"
  shows "\<exists>h. fc_select_head (fc_observe seen fc_new) = Some (top_slot seen, h) \<and> h \<in> set (map head_hash seen) \<and>
    sl h = top_slot seen \<and> (\<forall>x \<in> set (map head_hash seen). sl x = top_slot seen \<longrightarrow>
      seen_weight seen x < seen_weight seen h \<or> seen_weight seen x = seen_weight seen h \<and> x \<le> h)"
proof -
  let ?hs = "fc_heads (fc_observe seen fc_new)"
  note inv = heads_inv_observe [OF ok]
  have d: "distinct (map head_hash ?hs)" using inv by (simp add: heads_inv_def)
  have Hm: "heads_map seen x \<noteq> None \<and> t = sl x \<and> (t = top_slot seen \<longrightarrow> v = seen_weight seen x)"
    if "heads_map ?hs x = Some (t, v)" for x t v using inv that by (simp add: heads_inv_def)
  have tops: "(top_slot seen, x, seen_weight seen x) \<in> set ?hs"
    if "x \<in> set (map head_hash seen)" "sl x = top_slot seen" for x
  proof -
    have "heads_map seen x \<noteq> None" using that(1) by (simp only: heads_map_None not_not)
    with inv that(2) have "heads_map ?hs x \<noteq> None" unfolding heads_inv_def by blast
    then obtain t v where m: "heads_map ?hs x = Some (t, v)" by auto
    with Hm [OF m] that(2) heads_map_mem [OF m] show ?thesis by simp
  qed
  from top_slot_in [OF ne] obtain x0 w0 where "(top_slot seen, x0, w0) \<in> set seen" by blast
  then have x0: "x0 \<in> set (map head_hash seen)" "sl x0 = top_slot seen" using ok by (force simp: head_ok_def)+
  with tops have "?hs \<noteq> []" by force
  then obtain p where "max_by head_le ?hs = Some p" by (cases ?hs) simp_all
  then obtain t h v where m: "max_by head_le ?hs = Some (t, h, v)" by (cases p) simp
  note max = max_head [OF m]
  from max have hm: "heads_map ?hs h = Some (t, v)" using heads_map_Some [OF d] by blast
  note h = Hm [OF hm]
  have "top_slot seen \<le> t" using max tops [OF x0] by (auto simp: head_le_def)
  moreover have "t \<le> top_slot seen" using seen_slot [OF ok, of h] h by simp
  ultimately have t: "t = top_slot seen" by simp
  have "h \<in> set (map head_hash seen)" using h by (simp only: heads_map_None not_not)
  moreover have "seen_weight seen x < seen_weight seen h \<or> seen_weight seen x = seen_weight seen h \<and> x \<le> h"
    if "x \<in> set (map head_hash seen)" "sl x = top_slot seen" for x
    using max tops [OF that] h t by (auto simp: head_le_def)
  ultimately show ?thesis using m t h by (intro exI [of _ h]) (auto simp: fc_select_head_def)
qed

lemma top_slot_cong: "set xs = set ys \<Longrightarrow> top_slot xs = top_slot ys"
proof -
  have *: "top_slot xs \<le> top_slot ys" if "set xs = set ys" for xs ys
    using top_slot_in [of xs] top_slot_ge [of "top_slot xs" _ _ ys] that by (cases "xs = []") (auto simp: top_slot_def)
  assume "set xs = set ys"
  with * [of xs ys] * [of ys xs] show ?thesis by simp
qed

lemma seen_weight_cong: "mset xs = mset ys \<Longrightarrow> seen_weight xs h = seen_weight ys h"
  unfolding seen_weight_def by (simp flip: sum_mset_sum_list)

text \<open>
  C25: nodes that observe the same heads agree on the canonical one: the selected head does not
  depend on the order in which the heads arrived, nor on what was pruned in between. Slots stay
  100 below the end of the 64-bit range, where the pruning test would wrap around.
\<close>

theorem fork_choice_order_independent:
  assumes "mset xs = mset ys" "\<forall>x \<in> set xs. head_ok sl x"
  shows "fc_select_head (fc_observe xs fc_new) = fc_select_head (fc_observe ys fc_new)"
proof (cases "xs = []")
  case False
  have eq: "set xs = set ys" using assms(1) by (rule mset_eq_setD)
  with False have "ys \<noteq> []" by auto
  let ?heavier = "\<lambda>x h. seen_weight xs x < seen_weight xs h \<or> seen_weight xs x = seen_weight xs h \<and> x \<le> h"
  have hashes: "set (map head_hash ys) = set (map head_hash xs)" using eq by simp
  have ok: "\<forall>x \<in> set ys. head_ok sl x" using assms(2) eq by simp
  note cong = top_slot_cong [OF eq, symmetric] seen_weight_cong [OF assms(1), symmetric] hashes
  from select_head_spec [OF assms(2) False] obtain h where
    h: "fc_select_head (fc_observe xs fc_new) = Some (top_slot xs, h)" "h \<in> set (map head_hash xs)"
      "sl h = top_slot xs" "\<And>x. x \<in> set (map head_hash xs) \<Longrightarrow> sl x = top_slot xs \<Longrightarrow> ?heavier x h" by blast
  from select_head_spec [OF ok \<open>ys \<noteq> []\<close>, unfolded cong] obtain h' where
    h': "fc_select_head (fc_observe ys fc_new) = Some (top_slot xs, h')" "h' \<in> set (map head_hash xs)"
      "sl h' = top_slot xs" "\<And>x. x \<in> set (map head_hash xs) \<Longrightarrow> sl x = top_slot xs \<Longrightarrow> ?heavier x h'" by blast
  have "h = h'" using h(4) [OF h'(2,3)] h'(4) [OF h(2,3)] by auto
  with h(1) h'(1) show ?thesis by simp
qed (use assms(1) in simp)

theorem fork_choice_order_independent_witness:
  "fc_select_head (fc_observe [(5, Hash [1], 10), (5, Hash [2], 7), (5, Hash [2], 6)] fc_new) =
     fc_select_head (fc_observe [(5, Hash [2], 6), (5, Hash [2], 7), (5, Hash [1], 10)] fc_new) \<and>
   fc_select_head (fc_observe [(5, Hash [1], 10), (5, Hash [2], 7), (5, Hash [2], 6)] fc_new) = Some (5, Hash [2])"
  by (intro conjI fork_choice_order_independent [where sl = "\<lambda>_. 5"])
    (simp_all add: head_ok_def u64_max_def fc_select_head_def fc_observe_def fc_add_head_def fc_new_def Let_def
      wrapping_add64_def saturating_add_def head_le_def)

text \<open>A head at or below the finalized slot is never selected.\<close>

lemma select_head_finality:
  assumes "fc_select_head_respecting_finality finalized_slot f = Some (slot, bh)"
  shows "finalized_slot < slot \<and> (\<exists>w. (slot, bh, w) \<in> set (fc_heads f))"
proof -
  from assms obtain w where "max_by head_le (filter (\<lambda>(slot, _, _). slot > finalized_slot) (fc_heads f)) = Some (slot, bh, w)"
    by (auto simp: fc_select_head_respecting_finality_def)
  from max_head [OF this] show ?thesis by auto
qed

end
