(* ===== verification/Slashing_Tracker.thy ===== *)
theory Slashing_Tracker
  imports Bft_Engine Stake_Pool_Invariant
begin

text \<open>
  The slashing tracker of \<open>src/core/src/consensus.rs\<close>: verified evidence without duplicates,
  the three-tier escalation for downtime with forgiveness, suspensions and repayment boosts,
  the slashed and banned sets and the economic penalty, with the consensus parameters of
  \<open>src/core/src/genesis.rs\<close> that set the percentages. The lemmas show that evidence is never
  counted twice, that a ban is permanent, and that a penalty never takes a validator below
  the minimum stake; pruning hides later downtime from the escalation.
\<close>

section \<open>Consensus parameters\<close>

record consensus_params =
  cp_slot_duration_ms :: u64
  cp_propose_timeout_base_ms :: u64
  cp_prevote_timeout_base_ms :: u64
  cp_precommit_timeout_base_ms :: u64
  cp_max_phase_timeout_ms :: u64
  cp_epoch_slots :: u64
  cp_min_validator_stake :: u64
  cp_validator_bootstrap_grants_enabled :: bool
  cp_validator_reward_per_block :: u64
  cp_slashing_percentage_double_sign :: u64
  cp_slashing_downtime_per_100_missed :: u64
  cp_slashing_downtime_max_percent :: u64
  cp_slashing_percentage_invalid_state :: u64
  cp_slashing_percentage_double_vote :: u64
  cp_slashing_percentage_censorship :: u64
  cp_finality_threshold_percent :: u64

definition consensus_params_default :: consensus_params where
  "consensus_params_default = \<lparr>
     cp_slot_duration_ms = 400, cp_propose_timeout_base_ms = DEFAULT_BFT_PROPOSE_TIMEOUT_BASE_MS,
     cp_prevote_timeout_base_ms = DEFAULT_BFT_PREVOTE_TIMEOUT_BASE_MS,
     cp_precommit_timeout_base_ms = DEFAULT_BFT_PRECOMMIT_TIMEOUT_BASE_MS,
     cp_max_phase_timeout_ms = DEFAULT_BFT_MAX_PHASE_TIMEOUT_MS, cp_epoch_slots = 432000,
     cp_min_validator_stake = 75000000000, cp_validator_bootstrap_grants_enabled = False,
     cp_validator_reward_per_block = 20000000, cp_slashing_percentage_double_sign = 50,
     cp_slashing_downtime_per_100_missed = 1, cp_slashing_downtime_max_percent = 10,
     cp_slashing_percentage_invalid_state = 100, cp_slashing_percentage_double_vote = 30,
     cp_slashing_percentage_censorship = 25, cp_finality_threshold_percent = 66\<rparr>"

section \<open>Evidence and escalation\<close>

abbreviation DOWNTIME_FORGIVENESS_SLOTS :: u64 where "DOWNTIME_FORGIVENESS_SLOTS \<equiv> 50000"
abbreviation DOWNTIME_SUSPENSION_SLOTS :: u64 where "DOWNTIME_SUSPENSION_SLOTS \<equiv> 100"
abbreviation DOWNTIME_TIER2_SLASH_BPS :: u64 where "DOWNTIME_TIER2_SLASH_BPS \<equiv> 50"
abbreviation PENALTY_REPAYMENT_BOOST_SLOTS :: u64 where "PENALTY_REPAYMENT_BOOST_SLOTS \<equiv> 216000"

record slashing_tracker =
  tr_evidence :: "(pubkey, slashing_evidence list) hmap"
  tr_slashed :: "pubkey set"
  tr_permanently_banned :: "pubkey set"
  tr_downtime_offense_count :: "(pubkey, u64) hmap"
  tr_last_downtime_offense_slot :: "(pubkey, u64) hmap"
  tr_penalty_repayment_boost :: "(pubkey, u64) hmap"
  tr_suspended_until :: "(pubkey, u64) hmap"
  tr_last_processed_downtime_evidence_count :: "(pubkey, nat) hmap"

definition tr_new :: slashing_tracker where
  "tr_new = \<lparr>tr_evidence = [], tr_slashed = {}, tr_permanently_banned = {}, tr_downtime_offense_count = [],
     tr_last_downtime_offense_slot = [], tr_penalty_repayment_boost = [], tr_suspended_until = [],
     tr_last_processed_downtime_evidence_count = []\<rparr>"

definition is_downtime :: "slashing_evidence \<Rightarrow> bool" where
  "is_downtime e = (case se_offense e of Downtime _ _ _ \<Rightarrow> True | _ \<Rightarrow> False)"

definition is_collusion :: "slashing_evidence \<Rightarrow> bool" where
  "is_collusion e = (case se_offense e of Collusion _ _ \<Rightarrow> True | _ \<Rightarrow> False)"

text \<open>Two records of one offense: the same kind at the same slot, round or start of an outage.\<close>

definition same_offense :: "slashing_offense \<Rightarrow> slashing_offense \<Rightarrow> bool" where
  "same_offense o1 o2 =
     (case o1 of
        DoubleBlock s1 _ _ \<Rightarrow> (case o2 of DoubleBlock s2 _ _ \<Rightarrow> s1 = s2 | _ \<Rightarrow> False)
      | DoubleVote _ v1 _ \<Rightarrow> (case o2 of DoubleVote _ v2 _ \<Rightarrow> vt_slot v1 = vt_slot v2 | _ \<Rightarrow> False)
      | DoubleBlockV2 h1 _ \<Rightarrow> (case o2 of DoubleBlockV2 h2 _ \<Rightarrow> hdr_slot h1 = hdr_slot h2 | _ \<Rightarrow> False)
      | DoublePrevoteV2 v1 _ \<Rightarrow> (case o2 of DoublePrevoteV2 v2 _ \<Rightarrow>
            pv_height v1 = pv_height v2 \<and> pv_round v1 = pv_round v2 | _ \<Rightarrow> False)
      | DoublePrecommitV2 v1 _ \<Rightarrow> (case o2 of DoublePrecommitV2 v2 _ \<Rightarrow>
            pc_height v1 = pc_height v2 \<and> pc_round v1 = pc_round v2 | _ \<Rightarrow> False)
      | InvalidStateTransition s1 _ \<Rightarrow> (case o2 of InvalidStateTransition s2 _ \<Rightarrow> s1 = s2 | _ \<Rightarrow> False)
      | Censorship s1 _ \<Rightarrow> (case o2 of Censorship s2 _ \<Rightarrow> s1 = s2 | _ \<Rightarrow> False)
      | Collusion s1 _ \<Rightarrow> (case o2 of Collusion s2 _ \<Rightarrow> s1 = s2 | _ \<Rightarrow> False)
      | Downtime la1 _ _ \<Rightarrow> (case o2 of Downtime la2 _ _ \<Rightarrow> la1 = la2 | _ \<Rightarrow> False))"

definition tr_add_verified_evidence :: "slashing_evidence \<Rightarrow> slashing_tracker \<Rightarrow> slashing_tracker \<times> bool" where
  "tr_add_verified_evidence evidence t =
     (let validator_evidence = hm_get_or [] (tr_evidence t) (se_validator evidence)
      in if list_ex (\<lambda>e. same_offense (se_offense e) (se_offense evidence)) validator_evidence
         then (t\<lparr>tr_evidence := hm_insert (se_validator evidence) validator_evidence (tr_evidence t)\<rparr>, False)
         else (t\<lparr>tr_evidence := hm_insert (se_validator evidence) (validator_evidence @ [evidence]) (tr_evidence t)\<rparr>, True))"

definition tr_add_evidence :: "crypto \<Rightarrow> slashing_evidence \<Rightarrow> slashing_tracker \<Rightarrow> slashing_tracker \<times> bool" where
  "tr_add_evidence c evidence t =
     (if \<not> se_verify c evidence then (t, False) else tr_add_verified_evidence evidence t)"

definition tr_add_evidence_with_chain_id ::
  "crypto \<Rightarrow> slashing_evidence \<Rightarrow> string \<Rightarrow> slashing_tracker \<Rightarrow> slashing_tracker \<times> bool" where
  "tr_add_evidence_with_chain_id c evidence chain_id t =
     (if \<not> se_verify_with_chain_id c chain_id evidence then (t, False) else tr_add_verified_evidence evidence t)"

definition tr_evidence_count :: "slashing_tracker \<Rightarrow> nat" where
  "tr_evidence_count t = hm_sum length (tr_evidence t)"

definition tr_get_downtime_offense_tier :: "slashing_tracker \<Rightarrow> pubkey \<Rightarrow> u64 \<Rightarrow> u64" where
  "tr_get_downtime_offense_tier t validator current_slot =
     (let raw_count = hm_get_or 0 (tr_downtime_offense_count t) validator in
      if raw_count = 0 then 0
      else case hm_get (tr_last_downtime_offense_slot t) validator of
             Some last_slot \<Rightarrow>
               if saturating_sub current_slot last_slot \<ge> DOWNTIME_FORGIVENESS_SLOTS then 0 else raw_count
           | None \<Rightarrow> raw_count)"

definition severe :: "slashing_evidence \<Rightarrow> bool" where
  "severe e \<longleftrightarrow> se_severity e \<ge> 70 \<and> \<not> is_downtime e"

definition tr_should_slash :: "slashing_tracker \<Rightarrow> pubkey \<Rightarrow> u64 \<Rightarrow> bool" where
  "tr_should_slash t validator current_slot =
     (case hm_get (tr_evidence t) validator of
        Some evidence_list \<Rightarrow>
          if list_ex severe evidence_list then True
          else if list_ex is_downtime evidence_list
          then tr_get_downtime_offense_tier t validator current_slot \<ge> 2
          else False
      | None \<Rightarrow> False)"

definition tr_record_downtime_offense :: "pubkey \<Rightarrow> u64 \<Rightarrow> slashing_tracker \<Rightarrow> slashing_tracker \<times> u64" where
  "tr_record_downtime_offense validator current_slot t =
     (let counts = (case hm_get (tr_last_downtime_offense_slot t) validator of
                      Some last_slot \<Rightarrow>
                        if saturating_sub current_slot last_slot \<ge> DOWNTIME_FORGIVENESS_SLOTS
                        then hm_insert validator 0 (tr_downtime_offense_count t)
                        else tr_downtime_offense_count t
                    | None \<Rightarrow> tr_downtime_offense_count t);
          count = wrapping_add64 (hm_get_or 0 counts validator) 1
      in (t\<lparr>tr_downtime_offense_count := hm_insert validator count counts,
            tr_last_downtime_offense_slot :=
              hm_insert validator current_slot (tr_last_downtime_offense_slot t)\<rparr>, count))"

definition tr_has_new_downtime_evidence :: "pubkey \<Rightarrow> slashing_tracker \<Rightarrow> slashing_tracker \<times> bool" where
  "tr_has_new_downtime_evidence validator t =
     (let current_downtime_count = length (filter is_downtime (hm_get_or [] (tr_evidence t) validator));
          last_count = hm_get_or 0 (tr_last_processed_downtime_evidence_count t) validator
      in if current_downtime_count > last_count
         then (t\<lparr>tr_last_processed_downtime_evidence_count :=
                   hm_insert validator current_downtime_count (tr_last_processed_downtime_evidence_count t)\<rparr>, True)
         else (t, False))"

definition until_active :: "(pubkey, u64) hmap \<Rightarrow> pubkey \<Rightarrow> u64 \<Rightarrow> bool" where
  "until_active m validator current_slot =
     (case hm_get m validator of Some end_slot \<Rightarrow> current_slot < end_slot | None \<Rightarrow> False)"

definition tr_is_suspended :: "slashing_tracker \<Rightarrow> pubkey \<Rightarrow> u64 \<Rightarrow> bool" where
  "tr_is_suspended t = until_active (tr_suspended_until t)"

definition tr_has_penalty_repayment_boost :: "slashing_tracker \<Rightarrow> pubkey \<Rightarrow> u64 \<Rightarrow> bool" where
  "tr_has_penalty_repayment_boost t = until_active (tr_penalty_repayment_boost t)"

definition tr_suspend_validator :: "pubkey \<Rightarrow> u64 \<Rightarrow> slashing_tracker \<Rightarrow> slashing_tracker" where
  "tr_suspend_validator validator current_slot t =
     t\<lparr>tr_suspended_until := hm_insert validator (wrapping_add64 current_slot DOWNTIME_SUSPENSION_SLOTS)
         (tr_suspended_until t)\<rparr>"

definition tr_apply_penalty_repayment_boost :: "pubkey \<Rightarrow> u64 \<Rightarrow> slashing_tracker \<Rightarrow> slashing_tracker" where
  "tr_apply_penalty_repayment_boost validator current_slot t =
     t\<lparr>tr_penalty_repayment_boost := hm_insert validator (wrapping_add64 current_slot PENALTY_REPAYMENT_BOOST_SLOTS)
         (tr_penalty_repayment_boost t)\<rparr>"

definition tr_clear_slashed :: "pubkey \<Rightarrow> slashing_tracker \<Rightarrow> slashing_tracker" where
  "tr_clear_slashed validator t =
     (if validator \<notin> tr_permanently_banned t then t\<lparr>tr_slashed := tr_slashed t - {validator}\<rparr> else t)"

definition tr_cleanup_expired :: "u64 \<Rightarrow> slashing_tracker \<Rightarrow> slashing_tracker" where
  "tr_cleanup_expired current_slot t =
     t\<lparr>tr_suspended_until := filter (\<lambda>(_, e). current_slot < e) (tr_suspended_until t),
       tr_penalty_repayment_boost := filter (\<lambda>(_, e). current_slot < e) (tr_penalty_repayment_boost t)\<rparr>"

definition tr_slash :: "pubkey \<Rightarrow> u64 \<Rightarrow> slashing_tracker \<Rightarrow> slashing_tracker \<times> bool" where
  "tr_slash validator current_slot t =
     (if tr_should_slash t validator current_slot then
        (let t = t\<lparr>tr_slashed := insert validator (tr_slashed t)\<rparr> in
         (if list_ex is_collusion (hm_get_or [] (tr_evidence t) validator)
          then t\<lparr>tr_permanently_banned := insert validator (tr_permanently_banned t)\<rparr> else t, True))
      else (t, False))"

definition tr_calculate_penalty :: "slashing_tracker \<Rightarrow> pubkey \<Rightarrow> u64" where
  "tr_calculate_penalty t validator =
     (case hm_get (tr_evidence t) validator of
        Some evidence_list \<Rightarrow> as_u64 (sum_list (map se_severity evidence_list)) | None \<Rightarrow> 0)"

definition tr_prune_old_evidence :: "u64 \<Rightarrow> u64 \<Rightarrow> slashing_tracker \<Rightarrow> slashing_tracker" where
  "tr_prune_old_evidence current_slot keep_slots t =
     (let cutoff_slot = saturating_sub current_slot keep_slots;
          evidence = map (\<lambda>(v, es). (v, filter (\<lambda>e. se_evidence_slot e \<ge> cutoff_slot) es)) (tr_evidence t)
      in t\<lparr>tr_evidence := filter (\<lambda>(_, es). es \<noteq> []) evidence\<rparr>)"

section \<open>Economic penalties\<close>

definition percent_of :: "u64 \<Rightarrow> u64 \<Rightarrow> u64" where
  "percent_of stake pct = as_u64 (stake * pct div 100)"

definition worst_downtime :: "slashing_evidence list \<Rightarrow> u64 option" where
  "worst_downtime es =
     (case List.map_filter (\<lambda>e. case se_offense e of Downtime _ _ missed \<Rightarrow> Some missed | _ \<Rightarrow> None) es of
        [] \<Rightarrow> None | m # ms \<Rightarrow> Some (foldl max m ms))"

definition downtime_penalty :: "consensus_params \<Rightarrow> u64 \<Rightarrow> u64 \<Rightarrow> u64 \<Rightarrow> u64" where
  "downtime_penalty params stake tier missed_slots =
     (if tier = 0 \<or> tier = 1 then 0
      else if tier = 2 then as_u64 (stake * DOWNTIME_TIER2_SLASH_BPS div 10000)
      else
        let dp = min (missed_slots div 100) (cp_slashing_downtime_max_percent params)
        in as_u64 ((stake * dp * cp_slashing_downtime_per_100_missed params) mod 2 ^ 128 div 100))"

definition offense_penalty :: "consensus_params \<Rightarrow> u64 \<Rightarrow> slashing_offense \<Rightarrow> u64" where
  "offense_penalty params stake offense =
     (case offense of
        DoubleBlock _ _ _ \<Rightarrow> percent_of stake (cp_slashing_percentage_double_sign params)
      | DoubleVote _ _ _ \<Rightarrow> percent_of stake (cp_slashing_percentage_double_vote params)
      | Downtime _ _ _ \<Rightarrow> 0
      | InvalidStateTransition _ _ \<Rightarrow> percent_of stake (cp_slashing_percentage_invalid_state params)
      | Censorship _ _ \<Rightarrow> percent_of stake (cp_slashing_percentage_censorship params)
      | Collusion _ _ \<Rightarrow> stake
      | DoubleBlockV2 _ _ \<Rightarrow> percent_of stake (cp_slashing_percentage_double_sign params)
      | DoublePrevoteV2 _ _ \<Rightarrow> percent_of stake (cp_slashing_percentage_double_vote params)
      | DoublePrecommitV2 _ _ \<Rightarrow> percent_of stake (cp_slashing_percentage_double_vote params))"

definition total_penalty :: "consensus_params \<Rightarrow> u64 \<Rightarrow> u64 \<Rightarrow> slashing_evidence list \<Rightarrow> u64" where
  "total_penalty params stake tier es =
     (let p = (case worst_downtime es of
                 Some missed \<Rightarrow> saturating_add 0 (downtime_penalty params stake tier missed) | None \<Rightarrow> 0)
      in foldl (\<lambda>p e. saturating_add p (offense_penalty params stake (se_offense e))) p es)"

definition apply_economic_slashing_with_params ::
  "pubkey \<Rightarrow> consensus_params \<Rightarrow> u64 \<Rightarrow> slashing_tracker \<times> stake_pool \<Rightarrow> (slashing_tracker \<times> stake_pool) \<times> u64" where
  "apply_economic_slashing_with_params validator params current_slot s =
     (case s of (t, pool) \<Rightarrow>
        let original_stake = (case sp_get_stake pool validator of Some si \<Rightarrow> si_total_stake si | None \<Rightarrow> 0) in
        if original_stake = 0 then ((t, pool), 0)
        else
          let offense_tier = tr_get_downtime_offense_tier t validator current_slot;
              evidence_list = hm_get_or [] (tr_evidence t) validator
          in if \<not> list_ex severe evidence_list \<and> \<not> offense_tier \<ge> 2 then ((t, pool), 0)
             else
               let penalty = total_penalty params original_stake offense_tier evidence_list;
                   slash_budget = saturating_sub original_stake MIN_VALIDATOR_STAKE;
                   capped_penalty = min penalty slash_budget
               in case (if capped_penalty > 0 then sp_slash_validator validator capped_penalty pool else (pool, 0)) of
                    (pool, total_slashed) \<Rightarrow>
                      ((if total_slashed > 0 then fst (tr_slash validator current_slot t) else t, pool), total_slashed))"

definition apply_economic_slashing ::
  "pubkey \<Rightarrow> slashing_tracker \<times> stake_pool \<Rightarrow> (slashing_tracker \<times> stake_pool) \<times> u64" where
  "apply_economic_slashing validator s =
     apply_economic_slashing_with_params validator consensus_params_default 0 s"

text \<open>The calls that change a tracker and the pool it slashes.\<close>

datatype tr_call =
    Tr_add_evidence slashing_evidence
  | Tr_add_evidence_chain slashing_evidence string
  | Tr_record_downtime pubkey u64
  | Tr_new_downtime pubkey
  | Tr_suspend pubkey u64
  | Tr_boost pubkey u64
  | Tr_clear pubkey
  | Tr_cleanup u64
  | Tr_slash pubkey u64
  | Tr_prune u64 u64
  | Tr_economic pubkey consensus_params u64

fun tr_step :: "crypto \<Rightarrow> tr_call \<Rightarrow> slashing_tracker \<times> stake_pool \<Rightarrow> slashing_tracker \<times> stake_pool" where
  "tr_step c (Tr_add_evidence e) (t, p) = (fst (tr_add_evidence c e t), p)"
| "tr_step c (Tr_add_evidence_chain e ch) (t, p) = (fst (tr_add_evidence_with_chain_id c e ch t), p)"
| "tr_step c (Tr_record_downtime v slot) (t, p) = (fst (tr_record_downtime_offense v slot t), p)"
| "tr_step c (Tr_new_downtime v) (t, p) = (fst (tr_has_new_downtime_evidence v t), p)"
| "tr_step c (Tr_suspend v slot) (t, p) = (tr_suspend_validator v slot t, p)"
| "tr_step c (Tr_boost v slot) (t, p) = (tr_apply_penalty_repayment_boost v slot t, p)"
| "tr_step c (Tr_clear v) (t, p) = (tr_clear_slashed v t, p)"
| "tr_step c (Tr_cleanup slot) (t, p) = (tr_cleanup_expired slot t, p)"
| "tr_step c (Tr_slash v slot) (t, p) = (fst (tr_slash v slot t), p)"
| "tr_step c (Tr_prune cur keep) (t, p) = (tr_prune_old_evidence cur keep t, p)"
| "tr_step c (Tr_economic v params slot) (t, p) = fst (apply_economic_slashing_with_params v params slot (t, p))"

section \<open>Evidence is verified and counted once; bans are permanent\<close>

definition evidence_ok :: "crypto \<Rightarrow> pubkey \<Rightarrow> slashing_evidence list \<Rightarrow> bool" where
  "evidence_ok c v es \<longleftrightarrow>
     sorted_wrt (\<lambda>e e'. \<not> same_offense (se_offense e) (se_offense e')) es \<and>
     (\<forall>e \<in> set es. se_validator e = v \<and> (se_verify c e \<or> (\<exists>ch. se_verify_with_chain_id c ch e)))"

definition tr_inv :: "crypto \<Rightarrow> slashing_tracker \<Rightarrow> bool" where
  "tr_inv c t \<longleftrightarrow> tr_permanently_banned t \<subseteq> tr_slashed t \<and>
     (\<forall>(v, es) \<in> set (tr_evidence t). evidence_ok c v es)"

lemma evidence_ok_get:
  "\<forall>(v, es) \<in> set m. evidence_ok c v es \<Longrightarrow> evidence_ok c v (hm_get_or [] m v)"
  by (auto simp: hm_get_or_def evidence_ok_def split: option.splits dest!: map_of_SomeD)

lemma tr_inv_new: "tr_inv c tr_new"
  by (simp add: tr_inv_def tr_new_def)

lemma tr_inv_add:
  assumes "tr_inv c t" "se_verify c e \<or> se_verify_with_chain_id c ch e"
  shows "tr_inv c (fst (tr_add_verified_evidence e t)) \<and>
    tr_permanently_banned (fst (tr_add_verified_evidence e t)) = tr_permanently_banned t"
proof -
  let ?es = "hm_get_or [] (tr_evidence t) (se_validator e)"
  have m: "\<forall>(v, es) \<in> set (tr_evidence t). evidence_ok c v es" using assms(1) by (simp add: tr_inv_def)
  from evidence_ok_get [OF m] have es: "evidence_ok c (se_validator e) ?es" .
  moreover have "evidence_ok c (se_validator e) (?es @ [e])"
    if "\<not> list_ex (\<lambda>e'. same_offense (se_offense e') (se_offense e)) ?es"
    using es that assms(2) by (auto simp: evidence_ok_def sorted_wrt_append list_ex_iff)
  ultimately show ?thesis
    using assms(1) m set_update_sub [of "se_validator e" ?es "tr_evidence t"]
      set_update_sub [of "se_validator e" "?es @ [e]" "tr_evidence t"]
    by (auto simp: tr_inv_def tr_add_verified_evidence_def Let_def)
qed

lemma tr_inv_slash:
  "tr_inv c t \<Longrightarrow> tr_inv c (fst (tr_slash v slot t)) \<and>
     tr_permanently_banned t \<subseteq> tr_permanently_banned (fst (tr_slash v slot t))"
  by (auto simp: tr_inv_def tr_slash_def Let_def)

lemma tr_inv_prune: "tr_inv c t \<Longrightarrow> tr_inv c (tr_prune_old_evidence cur keep t)"
  by (force simp: tr_inv_def tr_prune_old_evidence_def Let_def evidence_ok_def intro: sorted_wrt_filter)

lemma tr_inv_economic:
  assumes "tr_inv c t"
  shows "tr_inv c (fst (fst (apply_economic_slashing_with_params v params slot (t, p)))) \<and>
    tr_permanently_banned t \<subseteq> tr_permanently_banned (fst (fst (apply_economic_slashing_with_params v params slot (t, p))))"
  using assms tr_inv_slash [OF assms, of v slot]
  by (auto simp: apply_economic_slashing_with_params_def Let_def split: prod.splits)

lemma tr_inv_same:
  assumes "tr_inv c t" "tr_evidence t' = tr_evidence t" "tr_slashed t' = tr_slashed t"
    "tr_permanently_banned t' = tr_permanently_banned t"
  shows "tr_inv c t' \<and> tr_permanently_banned t \<subseteq> tr_permanently_banned t'"
  using assms by (simp add: tr_inv_def)

lemma tr_step_inv:
  assumes t: "tr_inv c t"
  shows "tr_inv c (fst (tr_step c call (t, p))) \<and> tr_permanently_banned t \<subseteq> tr_permanently_banned (fst (tr_step c call (t, p)))"
proof (cases call)
  case (Tr_add_evidence e)
  then show ?thesis using t tr_inv_add [OF t, of e] by (simp add: tr_add_evidence_def)
next
  case (Tr_add_evidence_chain e ch)
  then show ?thesis using t tr_inv_add [OF t, of e ch] by (simp add: tr_add_evidence_with_chain_id_def)
next
  case (Tr_record_downtime v slot)
  show ?thesis unfolding Tr_record_downtime tr_step.simps fst_conv
    by (rule tr_inv_same [OF t]) (simp_all add: tr_record_downtime_offense_def Let_def)
next
  case (Tr_new_downtime v)
  show ?thesis unfolding Tr_new_downtime tr_step.simps fst_conv
    by (rule tr_inv_same [OF t]) (simp_all add: tr_has_new_downtime_evidence_def Let_def)
next
  case (Tr_suspend v slot)
  show ?thesis unfolding Tr_suspend tr_step.simps fst_conv
    by (rule tr_inv_same [OF t]) (simp_all add: tr_suspend_validator_def)
next
  case (Tr_boost v slot)
  show ?thesis unfolding Tr_boost tr_step.simps fst_conv
    by (rule tr_inv_same [OF t]) (simp_all add: tr_apply_penalty_repayment_boost_def)
next
  case (Tr_clear v)
  then show ?thesis using t by (auto simp: tr_inv_def tr_clear_slashed_def)
next
  case (Tr_cleanup slot)
  show ?thesis unfolding Tr_cleanup tr_step.simps fst_conv
    by (rule tr_inv_same [OF t]) (simp_all add: tr_cleanup_expired_def)
next
  case (Tr_slash v slot)
  then show ?thesis using tr_inv_slash [OF t] by simp
next
  case (Tr_prune cur keep)
  then show ?thesis using tr_inv_prune [OF t] by (simp add: tr_prune_old_evidence_def Let_def)
next
  case (Tr_economic v params slot)
  then show ?thesis using tr_inv_economic [OF t] by simp
qed

lemma tr_run_inv:
  "tr_inv c (fst s) \<Longrightarrow> tr_inv c (fst (fold (tr_step c) calls s)) \<and>
     tr_permanently_banned (fst s) \<subseteq> tr_permanently_banned (fst (fold (tr_step c) calls s))"
proof (induction calls arbitrary: s)
  case (Cons call calls)
  obtain t p where s: "s = (t, p)" by (cases s)
  from tr_step_inv [of c t call p] Cons.prems s Cons.IH [of "tr_step c call s"] show ?case by auto
qed simp

text \<open>
  C28: through every sequence of tracker calls, pruning and economic slashing included, a banned
  validator stays banned and slashed (no call clears the flag), each recorded evidence is about
  the validator it is filed under and was verified, and no offense is recorded twice.
\<close>

theorem bans_permanent_evidence_once:
  assumes "fst (fold (tr_step c) calls (tr_new, pool)) = t" "fst (fold (tr_step c) calls' (t, pool')) = t'"
  shows "tr_permanently_banned t \<subseteq> tr_permanently_banned t' \<and> tr_permanently_banned t' \<subseteq> tr_slashed t' \<and>
    (\<forall>(v, es) \<in> set (tr_evidence t'). evidence_ok c v es)"
proof -
  from tr_run_inv [of c "(tr_new, pool)" calls] assms(1) have "tr_inv c t" by (simp add: tr_inv_new)
  from tr_run_inv [of c "(t, pool')" calls'] this assms(2) show ?thesis by (simp add: tr_inv_def)
qed

section \<open>The economic penalty\<close>

lemma si_slash_keeps:
  assumes "si_slash a si = (si', slashed)" "si_amount si \<le> u64_max"
  shows "slashed \<le> a \<and> si_total_stake si - a \<le> si_total_stake si'"
  using assms by (auto simp: si_slash_def si_total_stake_def Let_def saturating_add_def saturating_sub_def split: if_splits)

text \<open>
  C27: an economic penalty never takes a validator from above the minimum stake to below it, takes
  at most what exceeds the minimum, leaves every other validator alone, and takes nothing for
  downtime before the second offense.
\<close>

theorem economic_slashing_keeps_minimum:
  assumes "apply_economic_slashing_with_params v params slot (t, pool) = ((t', pool'), slashed)"
    and "sp_get_stake pool v = Some si" "si_amount si \<le> u64_max"
  shows "\<exists>si'. sp_get_stake pool' v = Some si' \<and> min (si_total_stake si) MIN_VALIDATOR_STAKE \<le> si_total_stake si' \<and>
    slashed \<le> si_total_stake si - MIN_VALIDATOR_STAKE \<and>
    (\<forall>w. w \<noteq> v \<longrightarrow> sp_get_stake pool' w = sp_get_stake pool w) \<and>
    (tr_get_downtime_offense_tier t v slot < 2 \<and> (\<forall>e \<in> set (hm_get_or [] (tr_evidence t) v). is_downtime e)
       \<longrightarrow> slashed = 0 \<and> pool' = pool)"
proof -
  have mild: "\<not> list_ex severe (hm_get_or [] (tr_evidence t) v)"
    if "\<forall>e \<in> set (hm_get_or [] (tr_evidence t) v). is_downtime e"
    using that by (auto simp: list_ex_iff severe_def)
  show ?thesis
  proof (cases "slashed = 0 \<and> pool' = pool")
    case True
    with assms(2) show ?thesis by simp
  next
    case False
    then obtain a where a: "sp_slash_validator v a pool = (pool', slashed)"
        "a \<le> si_total_stake si - MIN_VALIDATOR_STAKE"
      and hit: "list_ex severe (hm_get_or [] (tr_evidence t) v) \<or> 2 \<le> tr_get_downtime_offense_tier t v slot"
      using assms(1,2)
      by (fastforce simp: apply_economic_slashing_with_params_def Let_def saturating_sub_def split: if_splits prod.splits)
    obtain si' where si': "si_slash a si = (si', slashed)" "pool' = pool\<lparr>sp_stakes := hm_insert v si' (sp_stakes pool),
        sp_total_staked := saturating_sub (sp_total_staked pool) slashed,
        sp_total_slashed := saturating_add (sp_total_slashed pool) slashed\<rparr>"
      using a(1) assms(2) by (auto simp: sp_slash_validator_def split: prod.splits)
    with si_slash_keeps [OF si'(1) assms(3)] a(2) hit mild show ?thesis by auto
  qed
qed

section \<open>Pruning and the escalation\<close>

lemma map_of_prune:
  assumes "hm_get m v = Some es" "\<forall>e \<in> set es. \<not> P e" "distinct (map fst m)"
  shows "map_of (filter (\<lambda>(_, es). es \<noteq> []) (map (\<lambda>(v, es). (v, filter P es)) m)) v = None"
  using assms by (induction m) (auto simp: map_of_eq_None_iff filter_empty_conv image_iff split: if_splits)

text \<open>
  Once the downtime evidence of a validator has been processed and pruned, its next outage is not
  recognised as new: the count of processed records is not lowered with the evidence, so
  \<open>has_new_downtime_evidence\<close> answers \<open>False\<close> for evidence that \<open>add_evidence\<close> has just accepted.
\<close>

theorem pruned_downtime_goes_unnoticed:
  assumes "distinct (map fst (tr_evidence t))" "hm_get (tr_evidence t) v = Some [e1]" "is_downtime e1"
    and "tr_has_new_downtime_evidence v t = (t1, True)" "se_evidence_slot e1 < cur - keep"
    and "se_verify c e2" "se_validator e2 = v" "is_downtime e2"
    and "tr_add_evidence c e2 (tr_prune_old_evidence cur keep t1) = (t2, added)"
  shows "added \<and> \<not> snd (tr_has_new_downtime_evidence v t2)"
proof -
  let ?p = "tr_prune_old_evidence cur keep t1"
  have t1: "tr_evidence t1 = tr_evidence t" "hm_get_or 0 (tr_last_processed_downtime_evidence_count t1) v = 1"
    using assms(2-4) by (auto simp: tr_has_new_downtime_evidence_def hm_get_or_def Let_def split: if_splits option.splits)
  have "hm_get (tr_evidence ?p) v = None"
    using map_of_prune [OF assms(2) _ assms(1), of "\<lambda>e. cur - keep \<le> se_evidence_slot e"] assms(5)
    by (simp add: tr_prune_old_evidence_def Let_def t1 saturating_sub_def)
  moreover have "tr_last_processed_downtime_evidence_count ?p = tr_last_processed_downtime_evidence_count t1"
    by (simp add: tr_prune_old_evidence_def Let_def)
  ultimately show ?thesis
    using assms(6-9) t1(2)
    by (auto simp: tr_add_evidence_def tr_add_verified_evidence_def tr_has_new_downtime_evidence_def Let_def hm_get_or_def
        split: option.splits)
qed

section \<open>Examples\<close>

definition demo_offense :: "u64 \<Rightarrow> slashing_offense \<Rightarrow> slashing_evidence" where
  "demo_offense slot off = \<lparr>se_offense = off, se_validator = demo_pubkey 1, se_evidence_slot = slot,
     se_reporter = demo_pubkey 2, se_timestamp = 0\<rparr>"

theorem bans_permanent_evidence_once_witness:
  "demo_pubkey 1 \<in> tr_slashed (fst (fold (tr_step demo_crypto) [Tr_clear (demo_pubkey 1)]
     (fst (fold (tr_step demo_crypto) [Tr_add_evidence (demo_offense 5 (Collusion 5 [demo_pubkey 1, demo_pubkey 3])),
        Tr_slash (demo_pubkey 1) 6] (tr_new, sp_new)), sp_new)))"
proof -
  let ?t = "fst (fold (tr_step demo_crypto) [Tr_add_evidence (demo_offense 5 (Collusion 5 [demo_pubkey 1, demo_pubkey 3])),
      Tr_slash (demo_pubkey 1) 6] (tr_new, sp_new))"
  have "demo_pubkey 1 \<in> tr_permanently_banned ?t"
    by (simp add: tr_add_evidence_def tr_add_verified_evidence_def se_verify_def demo_offense_def tr_new_def tr_slash_def
        tr_should_slash_def severe_def se_severity_def is_downtime_def is_collusion_def hm_get_or_def Let_def)
  with bans_permanent_evidence_once [of demo_crypto _ sp_new ?t "[Tr_clear (demo_pubkey 1)]" sp_new, OF refl refl]
  show ?thesis by blast
qed

theorem economic_slashing_keeps_minimum_witness:
  "\<exists>pool' si'. snd (fst (apply_economic_slashing (demo_pubkey 1)
       (fst (tr_add_evidence demo_crypto (demo_offense 5 (DoubleBlock 5 (Hash [1]) (Hash [2]))) tr_new), demo_pool [1]))) = pool' \<and>
     sp_get_stake pool' (demo_pubkey 1) = Some si' \<and> MIN_VALIDATOR_STAKE \<le> si_total_stake si'"
proof -
  let ?t = "fst (tr_add_evidence demo_crypto (demo_offense 5 (DoubleBlock 5 (Hash [1]) (Hash [2]))) tr_new)"
    and ?si = "si_new (demo_pubkey 1) BOOTSTRAP_GRANT_AMOUNT 0"
  obtain t' pool' slashed where r: "apply_economic_slashing_with_params (demo_pubkey 1) consensus_params_default 0
      (?t, demo_pool [1]) = ((t', pool'), slashed)" by (metis prod.collapse)
  have si: "sp_get_stake (demo_pool [1]) (demo_pubkey 1) = Some ?si" by (simp add: demo_pool_def)
  have "si_amount ?si \<le> u64_max" "MIN_VALIDATOR_STAKE \<le> si_total_stake ?si"
    by (simp_all add: si_new_def si_with_bootstrap_index_def si_total_stake_def policy_constants u64_max_def saturating_add_def)
  with economic_slashing_keeps_minimum [OF r si] r show ?thesis by (auto simp: apply_economic_slashing_def)
qed

theorem pruned_downtime_goes_unnoticed_witness:
  "\<exists>t2. snd (tr_has_new_downtime_evidence (demo_pubkey 1) t2) = False \<and>
     t2 = fst (fold (tr_step demo_crypto) [Tr_add_evidence (demo_offense 200 (Downtime 0 200 200)),
       Tr_new_downtime (demo_pubkey 1), Tr_prune 1000 100,
       Tr_add_evidence (demo_offense 1200 (Downtime 1000 1200 200))] (tr_new, sp_new))"
proof -
  let ?e1 = "demo_offense 200 (Downtime 0 200 200)" and ?e2 = "demo_offense 1200 (Downtime 1000 1200 200)"
  let ?t = "fst (tr_add_evidence demo_crypto ?e1 tr_new)"
  have v: "se_verify demo_crypto ?e1" "se_verify demo_crypto ?e2" "is_downtime ?e1" "is_downtime ?e2"
    "se_validator ?e1 = demo_pubkey 1" "se_validator ?e2 = demo_pubkey 1" "se_evidence_slot ?e1 = 200"
    by (simp_all add: se_verify_def demo_offense_def is_downtime_def saturating_sub_def)
  have ev: "tr_evidence ?t = [(demo_pubkey 1, [?e1])]" "tr_last_processed_downtime_evidence_count ?t = []"
    by (simp_all add: tr_add_evidence_def v tr_add_verified_evidence_def tr_new_def Let_def)
  obtain t1 where t1: "tr_has_new_downtime_evidence (demo_pubkey 1) ?t = (t1, True)"
    using v ev by (auto simp: tr_has_new_downtime_evidence_def hm_get_or_def Let_def)
  obtain t2 added where t2: "tr_add_evidence demo_crypto ?e2 (tr_prune_old_evidence 1000 100 t1) = (t2, added)" by force
  have "added \<and> \<not> snd (tr_has_new_downtime_evidence (demo_pubkey 1) t2)"
    by (rule pruned_downtime_goes_unnoticed [OF _ _ v(3) t1 _ v(2,6,4) t2]) (simp_all add: ev v)
  with t1 t2 show ?thesis by (intro exI [of _ t2]) simp
qed

end
