(* ===== verification/Restrictions.thy ===== *)
theory Restrictions
  imports Crypto_Types Signing
begin

text \<open>
  Governance restrictions of \<open>src/core/src/restrictions.rs\<close>: targets with their canonical
  index keys, modes, records with their validation and effective status, and the test that
  decides whether a mode blocks a transfer. The lemmas show that the index key of a valid
  target determines it, and what each mode leaves transferable.
\<close>

section \<open>Targets\<close>

datatype protocol_module_id =
    Mod_Native | Mod_Governance | Mod_Staking | Mod_MossStake | Mod_Shielded | Mod_Contracts | Mod_Tokens | Mod_Dex
  | Mod_Lending | Mod_Marketplace | Mod_Bridge | Mod_Custody | Mod_Oracle | Mod_Validator | Mod_Mempool

definition module_as_u8 :: "protocol_module_id \<Rightarrow> u8" where
  "module_as_u8 m =
     (case m of Mod_Native \<Rightarrow> 0 | Mod_Governance \<Rightarrow> 1 | Mod_Staking \<Rightarrow> 2 | Mod_MossStake \<Rightarrow> 3 | Mod_Shielded \<Rightarrow> 4
      | Mod_Contracts \<Rightarrow> 5 | Mod_Tokens \<Rightarrow> 6 | Mod_Dex \<Rightarrow> 7 | Mod_Lending \<Rightarrow> 8 | Mod_Marketplace \<Rightarrow> 9 | Mod_Bridge \<Rightarrow> 10
      | Mod_Custody \<Rightarrow> 11 | Mod_Oracle \<Rightarrow> 12 | Mod_Validator \<Rightarrow> 13 | Mod_Mempool \<Rightarrow> 14)"

datatype restriction_target =
    Target_account pubkey
  | Target_account_asset pubkey pubkey
  | Target_asset pubkey
  | Target_contract pubkey
  | Target_code_hash hash
  | Target_bridge_route string string
  | Target_protocol_module protocol_module_id

definition target_type_id :: "restriction_target \<Rightarrow> u8" where
  "target_type_id t =
     (case t of Target_account _ \<Rightarrow> 0 | Target_account_asset _ _ \<Rightarrow> 1 | Target_asset _ \<Rightarrow> 2 | Target_contract _ \<Rightarrow> 3
      | Target_code_hash _ \<Rightarrow> 4 | Target_bridge_route _ _ \<Rightarrow> 5 | Target_protocol_module _ \<Rightarrow> 6)"

definition u16_to_be_bytes :: "nat \<Rightarrow> u8 list" where
  "u16_to_be_bytes n = [of_nat (n div 256), of_nat n]"

definition canonical_key :: "restriction_target \<Rightarrow> u8 list" where
  "canonical_key t = target_type_id t #
     (case t of
        Target_account a \<Rightarrow> pk_bytes a
      | Target_asset a \<Rightarrow> pk_bytes a
      | Target_contract a \<Rightarrow> pk_bytes a
      | Target_account_asset a asset \<Rightarrow> pk_bytes a @ pk_bytes asset
      | Target_code_hash h \<Rightarrow> hash_bytes h
      | Target_bridge_route chain_id asset \<Rightarrow>
          u16_to_be_bytes (length chain_id) @ str_bytes chain_id @ u16_to_be_bytes (length asset) @ str_bytes asset
      | Target_protocol_module m \<Rightarrow> [module_as_u8 m])"

definition MAX_BRIDGE_ROUTE_COMPONENT_LEN :: nat where "MAX_BRIDGE_ROUTE_COMPONENT_LEN = 256"

definition validate_target :: "restriction_target \<Rightarrow> err + unit" where
  "validate_target t =
     (case t of
        Target_bridge_route chain_id asset \<Rightarrow>
          if chain_id = [] then Inl ''Bridge route chain_id cannot be empty''
          else if asset = [] then Inl ''Bridge route asset cannot be empty''
          else if length chain_id > MAX_BRIDGE_ROUTE_COMPONENT_LEN then Inl ''Bridge route chain_id length exceeds''
          else if length asset > MAX_BRIDGE_ROUTE_COMPONENT_LEN then Inl ''Bridge route asset length exceeds''
          else Inr ()
      | _ \<Rightarrow> Inr ())"

section \<open>Modes and records\<close>

datatype restriction_mode =
    OutgoingOnly | IncomingOnly | Bidirectional | FrozenAmount u64 | AssetPaused | ExecuteBlocked
  | StateChangingBlocked | Quarantined | DeployBlocked | RoutePaused | ProtocolPaused | Terminated

datatype restriction_status = Restriction_active | Restriction_expired | Restriction_lifted | Restriction_superseded

definition validate_mode :: "restriction_mode \<Rightarrow> err + unit" where
  "validate_mode m =
     (case m of FrozenAmount amount \<Rightarrow>
        if amount = 0 then Inl ''FrozenAmount restriction amount must be > 0'' else Inr () | _ \<Rightarrow> Inr ())"

definition validate_target_mode :: "restriction_target \<Rightarrow> restriction_mode \<Rightarrow> err + unit" where
  "validate_target_mode t m =
     (if (case t of
            Target_account _ \<Rightarrow> m \<in> {OutgoingOnly, IncomingOnly, Bidirectional}
          | Target_account_asset _ _ \<Rightarrow> (case m of FrozenAmount _ \<Rightarrow> True | _ \<Rightarrow> m \<in> {OutgoingOnly, IncomingOnly, Bidirectional})
          | Target_asset _ \<Rightarrow> m = AssetPaused
          | Target_contract _ \<Rightarrow> m \<in> {ExecuteBlocked, StateChangingBlocked, Quarantined, Terminated}
          | Target_code_hash _ \<Rightarrow> m = DeployBlocked
          | Target_bridge_route _ _ \<Rightarrow> m = RoutePaused
          | Target_protocol_module _ \<Rightarrow> m = ProtocolPaused)
      then Inr () else Inl ''Restriction mode is not valid for target type'')"

record restriction_record =
  rr_id :: u64
  rr_target :: restriction_target
  rr_mode :: restriction_mode
  rr_status :: restriction_status
  rr_reason :: u8
  rr_evidence_hash :: "hash option"
  rr_evidence_uri_hash :: "hash option"
  rr_proposer :: pubkey
  rr_authority :: pubkey
  rr_approval_authority :: "pubkey option"
  rr_created_slot :: u64
  rr_created_epoch :: u64
  rr_expires_at_slot :: "u64 option"
  rr_supersedes :: "u64 option"
  rr_lifted_by :: "pubkey option"
  rr_lifted_slot :: "u64 option"
  rr_lift_reason :: "u8 option"

text \<open>The reason is kept as its byte; \<open>TestnetDrill\<close> is 12.\<close>

definition requires_evidence :: "u8 \<Rightarrow> bool" where
  "requires_evidence reason \<longleftrightarrow> reason \<noteq> 12"

definition validate_restriction :: "restriction_record \<Rightarrow> err + unit" where
  "validate_restriction r =
     (if rr_id r = 0 then Inl ''Restriction ID must be greater than zero''
      else rbind (validate_target (rr_target r)) (\<lambda>_.
        rbind (validate_mode (rr_mode r)) (\<lambda>_.
        rbind (validate_target_mode (rr_target r) (rr_mode r)) (\<lambda>_.
        if requires_evidence (rr_reason r) \<and> rr_evidence_hash r = None \<and> rr_evidence_uri_hash r = None
        then Inl ''Restriction reason requires evidence_hash or evidence_uri_hash''
        else if (case rr_expires_at_slot r of Some e \<Rightarrow> e \<le> rr_created_slot r | None \<Rightarrow> False)
        then Inl ''Restriction expiry must be after created_slot''
        else if rr_status r \<noteq> Restriction_lifted then
          (if rr_lifted_by r \<noteq> None \<or> rr_lifted_slot r \<noteq> None \<or> rr_lift_reason r \<noteq> None
           then Inl ''restriction cannot include lift metadata'' else Inr ())
        else if rr_lifted_by r = None \<or> rr_lifted_slot r = None \<or> rr_lift_reason r = None
        then Inl ''Lifted restriction requires lifted_by, lifted_slot, and lift_reason''
        else if (case rr_lifted_slot r of Some s \<Rightarrow> s | None \<Rightarrow> 0) < rr_created_slot r
        then Inl ''Lifted restriction slot cannot precede created_slot''
        else Inr ()))))"

definition effective_status :: "restriction_record \<Rightarrow> u64 \<Rightarrow> restriction_status" where
  "effective_status r slot =
     (if rr_status r = Restriction_active \<and> (case rr_expires_at_slot r of Some e \<Rightarrow> slot \<ge> e | None \<Rightarrow> False)
      then Restriction_expired else rr_status r)"

definition is_effectively_active :: "restriction_record \<Rightarrow> u64 \<Rightarrow> bool" where
  "is_effectively_active r slot \<longleftrightarrow> effective_status r slot = Restriction_active"

section \<open>Blocking transfers\<close>

datatype transfer_direction = Outgoing | Incoming

definition transferable_after_frozen_amount :: "u64 \<Rightarrow> u64 \<Rightarrow> u64" where
  "transferable_after_frozen_amount spendable frozen_amount = saturating_sub spendable frozen_amount"

definition restriction_mode_blocks_transfer :: "restriction_mode \<Rightarrow> transfer_direction \<Rightarrow> u64 \<Rightarrow> u64 \<Rightarrow> bool" where
  "restriction_mode_blocks_transfer mode direction amount spendable =
     (case mode of
        OutgoingOnly \<Rightarrow> direction = Outgoing
      | IncomingOnly \<Rightarrow> direction = Incoming
      | Bidirectional \<Rightarrow> True
      | FrozenAmount frozen_amount \<Rightarrow>
          direction = Outgoing \<and> amount > transferable_after_frozen_amount spendable frozen_amount
      | _ \<Rightarrow> False)"

text \<open>The records of a target that are active at a slot, in the order of their ids.\<close>

definition active_restrictions_for_target ::
  "restriction_record list \<Rightarrow> restriction_target \<Rightarrow> u64 \<Rightarrow> restriction_record list" where
  "active_restrictions_for_target rs t slot =
     filter (\<lambda>r. is_effectively_active r slot) (filter (\<lambda>r. canonical_key (rr_target r) = canonical_key t) rs)"

section \<open>Index keys\<close>

definition target_wf :: "restriction_target \<Rightarrow> bool" where
  "target_wf t \<longleftrightarrow> validate_target t = Inr () \<and>
     (case t of Target_account_asset a b \<Rightarrow> length (pk_bytes a) = 32 \<and> length (pk_bytes b) = 32 | _ \<Rightarrow> True)"

lemma u16_to_be_bytes_inject: "m < 2 ^ 16 \<Longrightarrow> n < 2 ^ 16 \<Longrightarrow> u16_to_be_bytes m = u16_to_be_bytes n \<longleftrightarrow> m = n"
proof -
  assume mn: "m < 2 ^ 16" "n < 2 ^ 16"
  have "m = n" if "u16_to_be_bytes m = u16_to_be_bytes n"
  proof -
    from that have "(of_nat (m div 256) :: 8 word) = of_nat (n div 256)" "(of_nat m :: 8 word) = of_nat n"
      by (simp_all add: u16_to_be_bytes_def)
    then have "unat (of_nat (m div 256) :: 8 word) = unat (of_nat (n div 256) :: 8 word)"
      "unat (of_nat m :: 8 word) = unat (of_nat n :: 8 word)" by simp_all
    then have "m div 256 mod 256 = n div 256 mod 256" "m mod 256 = n mod 256" by (simp_all add: unat_of_nat)
    moreover have "m div 256 < 256" "n div 256 < 256" using mn by (simp_all add: div_less_iff_less_mult)
    ultimately have "m div 256 = n div 256" "m mod 256 = n mod 256" by simp_all
    then show ?thesis by (metis div_mult_mod_eq)
  qed
  then show ?thesis by auto
qed

lemma bridge_route_key_inject:
  assumes "length c \<le> 256" "length a \<le> 256" "length c' \<le> 256" "length a' \<le> 256"
    and "u16_to_be_bytes (length c) @ str_bytes c @ u16_to_be_bytes (length a) @ str_bytes a =
      u16_to_be_bytes (length c') @ str_bytes c' @ u16_to_be_bytes (length a') @ str_bytes a'"
  shows "c = c' \<and> a = a'"
proof -
  have len: "length (u16_to_be_bytes n) = 2" for n by (simp add: u16_to_be_bytes_def)
  have sl: "length (str_bytes s) = length s" for s by (simp add: str_bytes_def)
  from assms(5) have "u16_to_be_bytes (length c) = u16_to_be_bytes (length c')"
    and rest: "str_bytes c @ u16_to_be_bytes (length a) @ str_bytes a = str_bytes c' @ u16_to_be_bytes (length a') @ str_bytes a'"
    by (simp_all add: len append_eq_append_conv)
  with assms(1,3) have "length c = length c'" by (simp add: u16_to_be_bytes_inject)
  with rest have "str_bytes c = str_bytes c'" "str_bytes a = str_bytes a'"
    by (simp_all add: sl len append_eq_append_conv)
  then show ?thesis using str_bytes_inj by blast
qed

lemma module_as_u8_inject: "module_as_u8 m = module_as_u8 n \<longleftrightarrow> m = n"
  by (cases m; cases n) (simp_all add: module_as_u8_def)

lemma target_type_same:
  assumes "target_type_id t = target_type_id t'"
  shows "(\<exists>a b. t = Target_account a \<and> t' = Target_account b) \<or>
    (\<exists>a b c d. t = Target_account_asset a b \<and> t' = Target_account_asset c d) \<or>
    (\<exists>a b. t = Target_asset a \<and> t' = Target_asset b) \<or> (\<exists>a b. t = Target_contract a \<and> t' = Target_contract b) \<or>
    (\<exists>a b. t = Target_code_hash a \<and> t' = Target_code_hash b) \<or>
    (\<exists>a b c d. t = Target_bridge_route a b \<and> t' = Target_bridge_route c d) \<or>
    (\<exists>a b. t = Target_protocol_module a \<and> t' = Target_protocol_module b)"
  using assms by (cases t; cases t') (simp_all add: target_type_id_def)

text \<open>The index key of a valid target determines the target, so restrictions never leak between targets.\<close>

lemma canonical_key_inject:
  assumes "canonical_key t = canonical_key t'" "target_wf t" "target_wf t'"
  shows "t = t'"
proof -
  from assms(1) have "target_type_id t = target_type_id t'" by (simp add: canonical_key_def)
  from target_type_same [OF this] show ?thesis
    using assms
    by (elim disjE exE)
      (auto simp: canonical_key_def target_wf_def target_type_id_def pubkey.expand hash.expand module_as_u8_inject
        validate_target_def MAX_BRIDGE_ROUTE_COMPONENT_LEN_def append_eq_append_conv not_less
        split: if_splits dest!: bridge_route_key_inject [rotated 4])
qed

lemma frozen_amount_kept:
  assumes "\<not> restriction_mode_blocks_transfer (FrozenAmount f) Outgoing amount spendable" "amount \<le> spendable"
  shows "amount = 0 \<or> f \<le> spendable - amount"
  using assms by (auto simp: restriction_mode_blocks_transfer_def transferable_after_frozen_amount_def saturating_sub_def)

end
