(* ===== verification/Ledger.thy ===== *)
theory Ledger
  imports Restrictions Blocks
begin

text \<open>
  Accounts and the account store: the balance-separated account of \<open>src/core/src/account.rs\<close>,
  the committed store with the overlay of a pending batch (\<open>src/core/src/state/account_state.rs\<close>,
  \<open>batch_state.rs\<close>, \<open>src/core/src/processor/batch_access.rs\<close>) and native transfers with their
  restrictions. The lemmas show that every account operation keeps the balance invariant,
  and what a write does to the total supply. Reads and writes of RocksDB are taken to succeed.
\<close>

section \<open>Accounts\<close>

record account =
  ac_spores :: u64
  ac_spendable :: u64
  ac_staked :: u64
  ac_locked :: u64
  ac_data :: "u8 list"
  ac_public_key :: "pq_public_key option"
  ac_owner :: pubkey
  ac_executable :: bool
  ac_rent_epoch :: u64
  ac_dormant :: bool
  ac_missed_rent_epochs :: u64

definition fixup_legacy :: "account \<Rightarrow> account" where
  "fixup_legacy a =
     (if ac_spores a > 0 \<and> ac_spendable a = 0 \<and> ac_staked a = 0 \<and> ac_locked a = 0
      then a\<lparr>ac_spendable := ac_spores a\<rparr> else a)"

definition licn_to_spores :: "u64 \<Rightarrow> u64" where
  "licn_to_spores licn = saturating_mul licn 1000000000"

definition account_new :: "u64 \<Rightarrow> pubkey \<Rightarrow> account" where
  "account_new licn owner =
     (let spores = licn_to_spores licn
      in \<lparr>ac_spores = spores, ac_spendable = spores, ac_staked = 0, ac_locked = 0, ac_data = [], ac_public_key = None,
          ac_owner = owner, ac_executable = False, ac_rent_epoch = 0, ac_dormant = False, ac_missed_rent_epochs = 0\<rparr>)"

text \<open>
  \<open>&mut self\<close> methods return the account as they leave it next to the result: the check at
  the end of \<open>stake\<close>, \<open>unstake\<close>, \<open>lock\<close>, \<open>unlock\<close> and \<open>deduct_locked\<close> comes after the writes.
\<close>

definition balance_check :: "err \<Rightarrow> account \<Rightarrow> account \<times> (err + unit)" where
  "balance_check e a =
     (a, if ac_spores a \<noteq> wrapping_add64 (wrapping_add64 (ac_spendable a) (ac_staked a)) (ac_locked a)
         then Inl e else Inr ())"

definition account_stake :: "u64 \<Rightarrow> account \<Rightarrow> account \<times> (err + unit)" where
  "account_stake amount a =
     (if amount = 0 then (a, Inr ())
      else case checked_sub (ac_spendable a) amount of
          None \<Rightarrow> (a, Inl ''Insufficient spendable balance'')
        | Some new_spendable \<Rightarrow>
            (case checked_add (ac_staked a) amount of
               None \<Rightarrow> (a, Inl ''Overflow adding to staked balance'')
             | Some new_staked \<Rightarrow>
                 balance_check ''Account invariant violated after stake''
                   (a\<lparr>ac_spendable := new_spendable, ac_staked := new_staked\<rparr>)))"

definition account_unstake :: "u64 \<Rightarrow> account \<Rightarrow> account \<times> (err + unit)" where
  "account_unstake amount a =
     (if amount = 0 then (a, Inr ())
      else case checked_sub (ac_staked a) amount of
          None \<Rightarrow> (a, Inl ''Insufficient staked balance'')
        | Some new_staked \<Rightarrow>
            (case checked_add (ac_spendable a) amount of
               None \<Rightarrow> (a, Inl ''Overflow adding to spendable balance'')
             | Some new_spendable \<Rightarrow>
                 balance_check ''Account invariant violated after unstake''
                   (a\<lparr>ac_staked := new_staked, ac_spendable := new_spendable\<rparr>)))"

definition account_lock :: "u64 \<Rightarrow> account \<Rightarrow> account \<times> (err + unit)" where
  "account_lock amount a =
     (if amount = 0 then (a, Inr ())
      else case checked_sub (ac_spendable a) amount of
          None \<Rightarrow> (a, Inl ''Insufficient spendable balance'')
        | Some new_spendable \<Rightarrow>
            (case checked_add (ac_locked a) amount of
               None \<Rightarrow> (a, Inl ''Overflow adding to locked balance'')
             | Some new_locked \<Rightarrow>
                 balance_check ''Account invariant violated after lock''
                   (a\<lparr>ac_spendable := new_spendable, ac_locked := new_locked\<rparr>)))"

definition account_unlock :: "u64 \<Rightarrow> account \<Rightarrow> account \<times> (err + unit)" where
  "account_unlock amount a =
     (if amount = 0 then (a, Inr ())
      else case checked_sub (ac_locked a) amount of
          None \<Rightarrow> (a, Inl ''Insufficient locked balance'')
        | Some new_locked \<Rightarrow>
            (case checked_add (ac_spendable a) amount of
               None \<Rightarrow> (a, Inl ''Overflow adding to spendable balance'')
             | Some new_spendable \<Rightarrow>
                 balance_check ''Account invariant violated after unlock''
                   (a\<lparr>ac_locked := new_locked, ac_spendable := new_spendable\<rparr>)))"

definition deduct_locked :: "u64 \<Rightarrow> account \<Rightarrow> account \<times> (err + unit)" where
  "deduct_locked amount a =
     (case checked_sub (ac_locked a) amount of
        None \<Rightarrow> (a, Inl ''Insufficient locked balance'')
      | Some new_locked \<Rightarrow>
          (case checked_sub (ac_spores a) amount of
             None \<Rightarrow> (a, Inl ''Underflow subtracting from spores balance'')
           | Some new_spores \<Rightarrow>
               balance_check ''Account invariant violated after locked deduction''
                 (a\<lparr>ac_locked := new_locked, ac_spores := new_spores\<rparr>)))"

definition add_spendable :: "u64 \<Rightarrow> account \<Rightarrow> err + account" where
  "add_spendable amount a =
     rbind (ok_or (checked_add (ac_spores a) amount) ''Overflow adding to spores balance'') (\<lambda>new_spores.
     rbind (ok_or (checked_add (ac_spendable a) amount) ''Overflow adding to spendable balance'') (\<lambda>new_spendable.
     Inr (a\<lparr>ac_spores := new_spores, ac_spendable := new_spendable\<rparr>)))"

definition deduct_spendable :: "u64 \<Rightarrow> account \<Rightarrow> err + account" where
  "deduct_spendable amount a =
     rbind (ok_or (checked_sub (ac_spendable a) amount) ''Insufficient spendable balance'') (\<lambda>new_spendable.
     rbind (ok_or (checked_sub (ac_spores a) amount) ''Underflow subtracting from spores balance'') (\<lambda>new_spores.
     Inr (a\<lparr>ac_spendable := new_spendable, ac_spores := new_spores\<rparr>)))"

section \<open>The account store and its batch\<close>

record fee_config =
  fee_base_fee :: u64
  fee_contract_deploy_fee :: u64
  fee_contract_upgrade_fee :: u64
  fee_nft_mint_fee :: u64
  fee_nft_collection_fee :: u64
  fee_burn_percent :: u64
  fee_producer_percent :: u64
  fee_voters_percent :: u64
  fee_treasury_percent :: u64
  fee_community_percent :: u64
  fee_exempt_contracts :: "pubkey list"

text \<open>The part of the committed store that transaction processing reads and writes.\<close>

record store =
  st_accounts :: "(pubkey, account) hmap"
  st_total_burned :: u64
  st_treasury_pubkey :: "pubkey option"
  st_last_slot :: u64
  st_fee_config :: fee_config
  st_rent_rate :: u64
  st_governed_wallets :: "pubkey set"
  st_restrictions :: "restriction_record list"
  st_recent_blockhashes :: "hash list"
  st_transactions :: "hash set"
  st_cold_transactions :: "hash set"
  st_last_block_hash :: hash
  st_chain_id_metadata :: "u8 list option"
  st_activation_slot_metadata :: "u8 list option"

record state_batch =
  bt_account_overlay :: "(pubkey, account) hmap"
  bt_burned_delta :: u64
  bt_transactions :: "hash set"

record tx_processor =
  tp_state :: store
  tp_batch :: "state_batch option"
  tp_speculative :: bool

definition state_get_account :: "store \<Rightarrow> pubkey \<Rightarrow> account option" where
  "state_get_account s k = map_option fixup_legacy (hm_get (st_accounts s) k)"

definition batch_get_account :: "store \<Rightarrow> state_batch \<Rightarrow> pubkey \<Rightarrow> account option" where
  "batch_get_account s b k =
     (case hm_get (bt_account_overlay b) k of Some a \<Rightarrow> Some a | None \<Rightarrow> state_get_account s k)"

definition b_get_account :: "tx_processor \<Rightarrow> pubkey \<Rightarrow> account option" where
  "b_get_account p k =
     (case tp_batch p of Some b \<Rightarrow> batch_get_account (tp_state p) b k | None \<Rightarrow> state_get_account (tp_state p) k)"

definition state_put_account :: "pubkey \<Rightarrow> account \<Rightarrow> store \<Rightarrow> store" where
  "state_put_account k a s = s\<lparr>st_accounts := hm_insert k a (st_accounts s)\<rparr>"

definition b_put_account :: "pubkey \<Rightarrow> account \<Rightarrow> tx_processor \<Rightarrow> tx_processor" where
  "b_put_account k a p =
     (case tp_batch p of
        Some b \<Rightarrow> p\<lparr>tp_batch := Some (b\<lparr>bt_account_overlay := hm_insert k a (bt_account_overlay b)\<rparr>)\<rparr>
      | None \<Rightarrow> p\<lparr>tp_state := state_put_account k a (tp_state p)\<rparr>)"

definition b_add_burned :: "u64 \<Rightarrow> tx_processor \<Rightarrow> tx_processor" where
  "b_add_burned amount p =
     (if amount = 0 then p
      else case tp_batch p of
          Some b \<Rightarrow> p\<lparr>tp_batch := Some (b\<lparr>bt_burned_delta := saturating_add (bt_burned_delta b) amount\<rparr>)\<rparr>
        | None \<Rightarrow> p\<lparr>tp_state := (tp_state p)\<lparr>st_total_burned := saturating_add (st_total_burned (tp_state p)) amount\<rparr>\<rparr>)"

definition atomic_put_accounts :: "(pubkey \<times> account) list \<Rightarrow> u64 \<Rightarrow> store \<Rightarrow> store" where
  "atomic_put_accounts accounts burn_delta s =
     (let s = fold (\<lambda>(k, a). state_put_account k a) accounts s
      in if burn_delta > 0 then s\<lparr>st_total_burned := saturating_add (st_total_burned s) burn_delta\<rparr> else s)"

definition begin_batch :: "tx_processor \<Rightarrow> tx_processor" where
  "begin_batch p = p\<lparr>tp_batch := Some \<lparr>bt_account_overlay = [], bt_burned_delta = 0, bt_transactions = {}\<rparr>\<rparr>"

definition rollback_batch :: "tx_processor \<Rightarrow> tx_processor" where
  "rollback_batch p = p\<lparr>tp_batch := None\<rparr>"

definition commit_batch :: "tx_processor \<Rightarrow> err + tx_processor" where
  "commit_batch p =
     (case tp_batch p of
        None \<Rightarrow> Inl ''No active batch to commit''
      | Some b \<Rightarrow>
          (let s = fold (\<lambda>(k, a). state_put_account k a) (bt_account_overlay b) (tp_state p);
               s = s\<lparr>st_total_burned := saturating_add (st_total_burned s) (bt_burned_delta b),
                     st_transactions := st_transactions s \<union> bt_transactions b\<rparr>
           in Inr (p\<lparr>tp_state := s, tp_batch := None\<rparr>)))"

section \<open>Native transfers\<close>

definition NATIVE_LICN_ASSET_ID :: pubkey where
  "NATIVE_LICN_ASSET_ID = Pubkey (str_bytes ''LICN_NATIVE_ASSET_ID_V1'' @ replicate 9 0)"

definition ensure_native_transfer_not_restricted ::
  "store \<Rightarrow> pubkey \<Rightarrow> transfer_direction \<Rightarrow> u64 \<Rightarrow> u64 \<Rightarrow> u64 \<Rightarrow> err + unit" where
  "ensure_native_transfer_not_restricted s account direction amount spendable slot =
     (let blocks = list_ex (\<lambda>r. restriction_mode_blocks_transfer (rr_mode r) direction amount spendable)
      in if blocks (active_restrictions_for_target (st_restrictions s) (Target_account account) slot)
         then Inl ''Native transfer blocked by active account restriction''
         else if blocks (active_restrictions_for_target (st_restrictions s)
                  (Target_account_asset account NATIVE_LICN_ASSET_ID) slot)
         then Inl ''Native transfer blocked by active account-asset restriction''
         else Inr ())"

definition b_transfer :: "pubkey \<Rightarrow> pubkey \<Rightarrow> u64 \<Rightarrow> tx_processor \<Rightarrow> err + tx_processor" where
  "b_transfer from to spores p =
     (if from = to then Inr p
      else rbind (ok_or (b_get_account p from) ''Sender account not found'') (\<lambda>from_account.
        let slot = st_last_slot (tp_state p) in
        rbind (ensure_native_transfer_not_restricted (tp_state p) from Outgoing spores (ac_spendable from_account) slot) (\<lambda>_.
        rbind (ensure_native_transfer_not_restricted (tp_state p) to Incoming spores 0 slot) (\<lambda>_.
        case deduct_spendable spores from_account of
          Inl _ \<Rightarrow> Inl ''Insufficient spendable balance''
        | Inr from_account \<Rightarrow>
            rbind (add_spendable spores (case b_get_account p to of Some a \<Rightarrow> a | None \<Rightarrow> account_new 0 to)) (\<lambda>to_account.
            let to_account = (if ac_dormant to_account then to_account\<lparr>ac_dormant := False, ac_missed_rent_epochs := 0\<rparr>
                              else to_account)
            in Inr (b_put_account to to_account (b_put_account from from_account p)))))))"

section \<open>Account operations keep the balance split\<close>

definition acc_ok :: "account \<Rightarrow> bool" where
  "acc_ok a \<longleftrightarrow> ac_spores a = ac_spendable a + ac_staked a + ac_locked a \<and> ac_spores a \<le> u64_max"

lemma fixup_legacy_spores [simp]: "ac_spores (fixup_legacy a) = ac_spores a"
  by (simp add: fixup_legacy_def)

lemma fixup_legacy_id: "acc_ok a \<Longrightarrow> fixup_legacy a = a"
  by (simp add: fixup_legacy_def acc_ok_def)

lemma account_new_ok [simp]: "acc_ok (account_new licn k)"
  by (simp add: account_new_def acc_ok_def Let_def licn_to_spores_def saturating_mul_def)

lemma account_new_spores: "ac_spores (account_new 0 k) = 0" "ac_spendable (account_new 0 k) = 0"
  by (simp_all add: account_new_def licn_to_spores_def saturating_mul_def)

lemma balance_check_ok: "acc_ok a \<Longrightarrow> balance_check e a = (a, Inr ())"
  by (simp add: balance_check_def acc_ok_def wrapping_add64_def u64_max_def)

lemma add_spendable_Inr:
  "add_spendable n a = Inr a' \<Longrightarrow> a' = a\<lparr>ac_spores := ac_spores a + n, ac_spendable := ac_spendable a + n\<rparr> \<and>
     ac_spores a + n \<le> u64_max \<and> (acc_ok a \<longrightarrow> acc_ok a')"
  by (auto simp: add_spendable_def rbind_eq_Inr acc_ok_def)

lemma deduct_spendable_Inr:
  "deduct_spendable n a = Inr a' \<Longrightarrow> a' = a\<lparr>ac_spendable := ac_spendable a - n, ac_spores := ac_spores a - n\<rparr> \<and>
     n \<le> ac_spendable a \<and> n \<le> ac_spores a \<and> (acc_ok a \<longrightarrow> acc_ok a')"
  by (auto simp: deduct_spendable_def rbind_eq_Inr acc_ok_def)

lemma add_spendable_total: "acc_ok a \<Longrightarrow> ac_spores a + n \<le> u64_max \<Longrightarrow> \<exists>a'. add_spendable n a = Inr a'"
  by (simp add: add_spendable_def acc_ok_def ok_or_def checked_add_def)

text \<open>The four reclassifications of an account, and what they move from where to where.\<close>

datatype account_move = Move_stake u64 | Move_unstake u64 | Move_lock u64 | Move_unlock u64

fun account_moved :: "account_move \<Rightarrow> account \<Rightarrow> account \<times> (err + unit)" where
  "account_moved (Move_stake n) = account_stake n"
| "account_moved (Move_unstake n) = account_unstake n"
| "account_moved (Move_lock n) = account_lock n"
| "account_moved (Move_unlock n) = account_unlock n"

lemmas account_move_defs = account_stake_def account_unstake_def account_lock_def account_unlock_def

text \<open>
  C16: on an account whose total is the sum of its parts, staking, unstaking, locking and unlocking
  keep that invariant and the total whatever they return, change nothing when they fail, and
  fail exactly when the source part is too small: the invariant errors at the end of the four
  methods cannot occur, although those methods write before they check.
\<close>

theorem account_moves_total_and_atomic:
  assumes "acc_ok a" "account_moved m a = (a', r)"
  shows "acc_ok a' \<and> ac_spores a' = ac_spores a \<and> (\<forall>e. r = Inl e \<longrightarrow> a' = a) \<and>
    (r = Inr () \<longleftrightarrow> (case m of Move_stake n \<Rightarrow> n \<le> ac_spendable a | Move_unstake n \<Rightarrow> n \<le> ac_staked a
       | Move_lock n \<Rightarrow> n \<le> ac_spendable a | Move_unlock n \<Rightarrow> n \<le> ac_locked a))"
proof -
  have bc: "balance_check e b = (b, Inr ())" if "ac_spores b = ac_spores a"
      "ac_spendable b + ac_staked b + ac_locked b = ac_spores a" for e b
    using assms(1) that by (intro balance_check_ok) (simp add: acc_ok_def)
  show ?thesis
    using assms by (cases m) (auto simp: account_move_defs checked_sub_def checked_add_def acc_ok_def bc split: if_splits)
qed

definition demo_account :: "u64 \<Rightarrow> account" where
  "demo_account n = (account_new 0 (demo_pubkey 1))\<lparr>ac_spores := n, ac_spendable := n\<rparr>"

theorem account_moves_total_and_atomic_witness:
  "snd (account_moved (Move_stake 3) (demo_account 5)) = Inr () \<and>
   snd (account_moved (Move_stake 7) (demo_account 5)) \<noteq> Inr () \<and>
   ac_spores (fst (account_moved (Move_stake 3) (demo_account 5))) = 5"
proof -
  have ok: "acc_ok (demo_account 5)" by (simp add: acc_ok_def demo_account_def account_new_def Let_def u64_max_def)
  show ?thesis
    using account_moves_total_and_atomic [OF ok surjective_pairing, of "Move_stake 3"]
      account_moves_total_and_atomic [OF ok surjective_pairing, of "Move_stake 7"]
    by (simp add: demo_account_def)
qed

section \<open>Supply\<close>

definition balance :: "tx_processor \<Rightarrow> pubkey \<Rightarrow> u64" where
  "balance p k = (case b_get_account p k of Some a \<Rightarrow> ac_spores a | None \<Rightarrow> 0)"

definition holders :: "tx_processor \<Rightarrow> pubkey set" where
  "holders p = fst ` set (st_accounts (tp_state p)) \<union>
     (case tp_batch p of Some b \<Rightarrow> fst ` set (bt_account_overlay b) | None \<Rightarrow> {})"

definition burned :: "tx_processor \<Rightarrow> u64" where
  "burned p = st_total_burned (tp_state p) + (case tp_batch p of Some b \<Rightarrow> bt_burned_delta b | None \<Rightarrow> 0)"

definition total_supply :: "tx_processor \<Rightarrow> nat" where
  "total_supply p = sum (balance p) (holders p) + burned p"

definition tp_ok :: "tx_processor \<Rightarrow> bool" where
  "tp_ok p \<longleftrightarrow> (\<forall>(k, a) \<in> set (st_accounts (tp_state p)). acc_ok a) \<and>
     (\<forall>b. tp_batch p = Some b \<longrightarrow> distinct (map fst (bt_account_overlay b)) \<and> (\<forall>(k, a) \<in> set (bt_account_overlay b). acc_ok a))"

lemma holders_finite [simp]: "finite (holders p)"
  by (simp add: holders_def split: option.splits)

lemma balance_outside: "k \<notin> holders p \<Longrightarrow> balance p k = 0"
  by (auto simp: balance_def b_get_account_def batch_get_account_def state_get_account_def holders_def
      map_of_eq_None_iff [symmetric] split: option.splits)

lemma b_get_ok: "tp_ok p \<Longrightarrow> b_get_account p k = Some a \<Longrightarrow> acc_ok a"
  by (auto simp: tp_ok_def b_get_account_def batch_get_account_def state_get_account_def fixup_legacy_id
      split: option.splits dest!: map_of_SomeD)

lemma balance_put: "balance (b_put_account k a p) k' = (if k' = k then ac_spores a else balance p k')"
  by (auto simp: balance_def b_get_account_def batch_get_account_def state_get_account_def b_put_account_def
      state_put_account_def split: option.splits)

lemma b_get_put:
  "acc_ok a \<Longrightarrow> b_get_account (b_put_account k a p) k' = (if k' = k then Some a else b_get_account p k')"
  by (auto simp: b_get_account_def batch_get_account_def state_get_account_def b_put_account_def
      state_put_account_def fixup_legacy_id split: option.splits)

lemma holders_put: "holders (b_put_account k a p) = insert k (holders p)"
  by (auto simp: holders_def b_put_account_def state_put_account_def split: option.splits)

lemma burned_put [simp]: "burned (b_put_account k a p) = burned p"
  by (simp add: burned_def b_put_account_def state_put_account_def split: option.splits)

lemma sum_update:
  assumes "finite A" "k \<notin> A \<Longrightarrow> f k = 0"
  shows "sum (f(k := v)) (insert k A) + f k = sum f A + (v :: nat)"
proof (cases "k \<in> A")
  case True
  have "sum (f(k := v)) (A - {k}) = sum f (A - {k})" by (rule sum.cong) auto
  with True assms(1) show ?thesis by (simp add: sum.remove [of A k] insert_absorb)
next
  case False
  have "sum (f(k := v)) A = sum f A" by (rule sum.cong) (use False in auto)
  with False assms show ?thesis by simp
qed

lemma supply_put: "total_supply (b_put_account k a p) + balance p k = total_supply p + ac_spores a"
proof -
  have "balance (b_put_account k a p) = (balance p)(k := ac_spores a)" by (auto simp: balance_put)
  with sum_update [of "holders p" k "balance p" "ac_spores a"] balance_outside [of k p]
  show ?thesis by (simp add: total_supply_def holders_put)
qed

lemma tp_ok_put: "tp_ok p \<Longrightarrow> acc_ok a \<Longrightarrow> tp_ok (b_put_account k a p)"
  unfolding tp_ok_def b_put_account_def state_put_account_def
  using set_update_sub by (fastforce split: option.splits)

lemma balance_le_supply: "balance p k \<le> total_supply p"
proof (cases "k \<in> holders p")
  case True
  then have "balance p k \<le> sum (balance p) (holders p)" by (intro member_le_sum) simp_all
  then show ?thesis by (simp add: total_supply_def)
qed (simp add: balance_outside)

text \<open>Two writes, the pattern of every operation that moves value between two accounts.\<close>

lemma supply_move:
  assumes "tp_ok p" "f \<noteq> t" "acc_ok a" "acc_ok b"
    and "ac_spores a + n = balance p f" "ac_spores b = balance p t + n"
  shows "tp_ok (b_put_account t b (b_put_account f a p)) \<and>
    total_supply (b_put_account t b (b_put_account f a p)) = total_supply p"
  using supply_put [of t b "b_put_account f a p"] supply_put [of f a p] assms
  by (simp add: tp_ok_put balance_put)

lemma b_transfer_cases:
  assumes "b_transfer f t n p = Inr p'" "f \<noteq> t"
  obtains a b where "b_get_account p f = Some a" "n \<le> ac_spendable a" "n \<le> ac_spores a"
    "ensure_native_transfer_not_restricted (tp_state p) f Outgoing n (ac_spendable a) (st_last_slot (tp_state p)) = Inr ()"
    "ensure_native_transfer_not_restricted (tp_state p) t Incoming n 0 (st_last_slot (tp_state p)) = Inr ()"
    "acc_ok a \<Longrightarrow> acc_ok (a\<lparr>ac_spendable := ac_spendable a - n, ac_spores := ac_spores a - n\<rparr>)"
    "ac_spores b = balance p t + n" "tp_ok p \<Longrightarrow> acc_ok b"
    "p' = b_put_account t b (b_put_account f (a\<lparr>ac_spendable := ac_spendable a - n, ac_spores := ac_spores a - n\<rparr>) p)"
proof -
  let ?to = "case b_get_account p t of Some a \<Rightarrow> a | None \<Rightarrow> account_new 0 t"
  have to: "ac_spores ?to = balance p t" "tp_ok p \<Longrightarrow> acc_ok ?to"
    by (auto simp: balance_def account_new_spores dest: b_get_ok split: option.splits)
  from assms obtain a where a: "b_get_account p f = Some a" by (auto simp: b_transfer_def rbind_eq_Inr)
  from assms a obtain a' where a': "deduct_spendable n a = Inr a'"
    by (cases "deduct_spendable n a") (auto simp: b_transfer_def rbind_eq_Inr Let_def)
  from assms a a' obtain b where *: "b_get_account p f = Some a" "deduct_spendable n a = Inr a'"
    "ensure_native_transfer_not_restricted (tp_state p) f Outgoing n (ac_spendable a) (st_last_slot (tp_state p)) = Inr ()"
    "ensure_native_transfer_not_restricted (tp_state p) t Incoming n 0 (st_last_slot (tp_state p)) = Inr ()"
    "add_spendable n ?to = Inr b"
    "p' = b_put_account t (if ac_dormant b then b\<lparr>ac_dormant := False, ac_missed_rent_epochs := 0\<rparr> else b) (b_put_account f a' p)"
    by (auto simp: b_transfer_def rbind_eq_Inr Let_def)
  let ?b = "if ac_dormant b then b\<lparr>ac_dormant := False, ac_missed_rent_epochs := 0\<rparr> else b"
  note d = deduct_spendable_Inr [OF *(2)] and e = add_spendable_Inr [OF *(5)]
  have "acc_ok ?b \<longleftrightarrow> acc_ok b" "ac_spores ?b = ac_spores b" by (simp_all add: acc_ok_def)
  then show thesis using that [of a ?b] * d e to by force
qed

text \<open>
  C17: a transfer moves exactly its amount from the sender's spendable balance to the recipient,
  leaves every other balance alone, keeps the supply and the balance split of every account,
  and never takes a sender below an amount frozen by an active restriction.
\<close>

theorem transfer_conserves_and_respects_freeze:
  assumes "b_transfer f t n p = Inr p'" "tp_ok p"
  shows "tp_ok p' \<and> total_supply p' = total_supply p \<and> (\<forall>k. k \<noteq> f \<longrightarrow> k \<noteq> t \<longrightarrow> balance p' k = balance p k) \<and>
    (f \<noteq> t \<longrightarrow> balance p f = balance p' f + n \<and> balance p' t = balance p t + n) \<and>
    (\<forall>r \<in> set (st_restrictions (tp_state p)). rr_target r = Target_account_asset f NATIVE_LICN_ASSET_ID \<longrightarrow>
       is_effectively_active r (st_last_slot (tp_state p)) \<longrightarrow> rr_mode r = FrozenAmount m \<longrightarrow> f \<noteq> t \<longrightarrow> n \<noteq> 0 \<longrightarrow>
       (\<exists>a'. b_get_account p' f = Some a' \<and> m \<le> ac_spendable a'))"
proof (cases "f = t")
  case True
  then show ?thesis using assms by (simp add: b_transfer_def)
next
  case False
  let ?slot = "st_last_slot (tp_state p)"
  from b_transfer_cases [OF assms(1) False] obtain a b where c: "b_get_account p f = Some a" "n \<le> ac_spendable a"
    "n \<le> ac_spores a" "ensure_native_transfer_not_restricted (tp_state p) f Outgoing n (ac_spendable a) ?slot = Inr ()"
    "acc_ok a \<Longrightarrow> acc_ok (a\<lparr>ac_spendable := ac_spendable a - n, ac_spores := ac_spores a - n\<rparr>)"
    "ac_spores b = balance p t + n" "tp_ok p \<Longrightarrow> acc_ok b"
    "p' = b_put_account t b (b_put_account f (a\<lparr>ac_spendable := ac_spendable a - n, ac_spores := ac_spores a - n\<rparr>) p)"
    by blast
  let ?a = "a\<lparr>ac_spendable := ac_spendable a - n, ac_spores := ac_spores a - n\<rparr>"
  have ok: "acc_ok ?a" "acc_ok b" using c(5,7) b_get_ok [OF assms(2) c(1)] assms(2) by blast+
  have bal: "ac_spores ?a + n = balance p f" using c(1,3) by (simp add: balance_def)
  have get: "b_get_account p' f = Some ?a" unfolding c(8) using False ok by (simp add: b_get_put)
  have "m \<le> ac_spendable ?a" if r: "r \<in> set (st_restrictions (tp_state p))"
    "rr_target r = Target_account_asset f NATIVE_LICN_ASSET_ID" "is_effectively_active r ?slot"
    "rr_mode r = FrozenAmount m" "n \<noteq> 0" for r
  proof -
    from c(4) r have "\<not> restriction_mode_blocks_transfer (FrozenAmount m) Outgoing n (ac_spendable a)"
      by (force simp: ensure_native_transfer_not_restricted_def active_restrictions_for_target_def list_ex_iff Let_def
          split: if_splits)
    from frozen_amount_kept [OF this c(2)] r(5) show ?thesis by simp
  qed
  with supply_move [OF assms(2) False ok bal c(6)] get bal c(6) False show ?thesis
    by (auto simp: c(8) balance_put)
qed

section \<open>Commit and rollback\<close>

lemma fold_put_get:
  "distinct (map fst xs) \<Longrightarrow> hm_get (st_accounts (fold (\<lambda>(k, a). state_put_account k a) xs s)) k =
     (case map_of xs k of Some a \<Rightarrow> Some a | None \<Rightarrow> hm_get (st_accounts s) k)"
proof (induction xs arbitrary: s)
  case (Cons x xs)
  obtain k' a where x: "x = (k', a)" by force
  have "map_of xs k' = None" using Cons.prems x by (simp add: map_of_eq_None_iff)
  then show ?case using Cons x by (auto simp: state_put_account_def split: option.splits)
qed simp

lemma fold_put_sel [simp]:
  "st_total_burned (fold (\<lambda>(k, a). state_put_account k a) xs s) = st_total_burned s"
  "st_transactions (fold (\<lambda>(k, a). state_put_account k a) xs s) = st_transactions s"
  "fst ` set (st_accounts (fold (\<lambda>(k, a). state_put_account k a) xs s)) = fst ` set (st_accounts s) \<union> fst ` set xs"
  by (induction xs arbitrary: s) (simp_all add: state_put_account_def case_prod_beta insert_commute)

lemma fold_put_ok:
  "(\<forall>(k, a) \<in> set xs. acc_ok a) \<Longrightarrow> (\<forall>(k, a) \<in> set (st_accounts s). acc_ok a) \<Longrightarrow>
     \<forall>(k, a) \<in> set (st_accounts (fold (\<lambda>(k, a). state_put_account k a) xs s)). acc_ok a"
proof (induction xs arbitrary: s)
  case (Cons x xs)
  obtain k a where x: "x = (k, a)" by force
  have "\<forall>(k, a) \<in> set (st_accounts (state_put_account k a s)). acc_ok a"
    using Cons.prems x set_update_sub [of k a "st_accounts s"] by (auto simp: state_put_account_def)
  with Cons x show ?case by simp
qed simp

text \<open>Committing makes the pending view the stored one: the same accounts, the same supply.\<close>

lemma commit_batch_keeps:
  assumes "commit_batch p = Inr p'" "tp_ok p" "total_supply p \<le> u64_max"
  shows "tp_ok p' \<and> total_supply p' = total_supply p \<and> tp_batch p' = None \<and> (\<forall>k. b_get_account p' k = b_get_account p k)"
proof -
  from assms(1) obtain b where b: "tp_batch p = Some b" by (auto simp: commit_batch_def split: option.splits)
  let ?s = "fold (\<lambda>(k, a). state_put_account k a) (bt_account_overlay b) (tp_state p)"
  from assms(1) b have p': "p' = p\<lparr>tp_state := ?s\<lparr>st_total_burned := saturating_add (st_total_burned ?s) (bt_burned_delta b),
      st_transactions := st_transactions ?s \<union> bt_transactions b\<rparr>, tp_batch := None\<rparr>"
    by (simp add: commit_batch_def Let_def)
  have d: "distinct (map fst (bt_account_overlay b))" and okb: "\<forall>(k, a) \<in> set (bt_account_overlay b). acc_ok a"
    and oks: "\<forall>(k, a) \<in> set (st_accounts (tp_state p)). acc_ok a"
    using assms(2) b by (simp_all add: tp_ok_def)
  have get: "b_get_account p' k = b_get_account p k" for k
    using fold_put_get [OF d, of "tp_state p" k] okb b
    by (auto simp: p' b_get_account_def batch_get_account_def state_get_account_def fixup_legacy_id
        split: option.splits dest!: map_of_SomeD)
  have "holders p' = holders p" by (auto simp: holders_def p' b)
  moreover have "balance p' = balance p" by (rule ext) (simp add: balance_def get)
  moreover have "burned p' = burned p"
    using assms(3) by (simp add: burned_def p' b total_supply_def saturating_add_exact)
  ultimately show ?thesis
    using fold_put_ok [OF okb oks] get by (simp add: total_supply_def tp_ok_def p')
qed

lemma begin_batch_keeps:
  assumes "tp_batch p = None" "tp_ok p"
  shows "tp_ok (begin_batch p) \<and> total_supply (begin_batch p) = total_supply p \<and> (\<forall>k. b_get_account (begin_batch p) k = b_get_account p k)"
proof -
  have get: "b_get_account (begin_batch p) k = b_get_account p k" for k
    using assms(1) by (simp add: b_get_account_def batch_get_account_def begin_batch_def)
  have "holders (begin_batch p) = holders p" "burned (begin_batch p) = burned p"
    using assms(1) by (simp_all add: holders_def burned_def begin_batch_def)
  moreover have "balance (begin_batch p) = balance p" by (rule ext) (simp add: balance_def get)
  ultimately show ?thesis using get assms(2) by (simp add: total_supply_def tp_ok_def begin_batch_def)
qed

end
