(* ===== verification/Fees.thy ===== *)
theory Fees
  imports Ledger Monetary_Policy Commit_Certificate
begin

text \<open>
  Transaction fees and rent (\<open>src/core/src/processor/fees.rs\<close>, \<open>rent_collection.rs\<close> and the fee
  configuration of \<open>src/core/src/processor.rs\<close>): what a transaction is charged, how a fee is
  split between burn and treasury, the refund of premiums, and graduated rent. The lemmas show
  that a charge splits exactly, that rent moves value to the treasury without creating any,
  and where the direct charging path does not conserve the supply.
\<close>

section \<open>Fee configuration\<close>

definition CONTRACT_PROGRAM_ID :: pubkey where "CONTRACT_PROGRAM_ID = Pubkey (replicate 32 255)"
definition EVM_PROGRAM_ID :: pubkey where "EVM_PROGRAM_ID = Pubkey (replicate 32 238)"
definition BASE_FEE :: u64 where "BASE_FEE = 1000000"
definition CONTRACT_DEPLOY_FEE :: u64 where "CONTRACT_DEPLOY_FEE = 25000000000"
abbreviation CONTRACT_UPGRADE_FEE :: u64 where "CONTRACT_UPGRADE_FEE \<equiv> 10000000000"
abbreviation NFT_MINT_FEE :: u64 where "NFT_MINT_FEE \<equiv> 500000000"
abbreviation NFT_COLLECTION_FEE :: u64 where "NFT_COLLECTION_FEE \<equiv> 1000000000000"
abbreviation SLOTS_PER_MONTH :: u64 where "SLOTS_PER_MONTH \<equiv> 216000 * 30"
abbreviation RENT_FREE_BYTES :: u64 where "RENT_FREE_BYTES \<equiv> 2048"
abbreviation DORMANCY_THRESHOLD_EPOCHS :: u64 where "DORMANCY_THRESHOLD_EPOCHS \<equiv> 2"

definition fee_config_default :: fee_config where
  "fee_config_default = \<lparr>fee_base_fee = BASE_FEE, fee_contract_deploy_fee = CONTRACT_DEPLOY_FEE,
     fee_contract_upgrade_fee = CONTRACT_UPGRADE_FEE, fee_nft_mint_fee = NFT_MINT_FEE,
     fee_nft_collection_fee = NFT_COLLECTION_FEE, fee_burn_percent = 40, fee_producer_percent = 30,
     fee_voters_percent = 10, fee_treasury_percent = 10, fee_community_percent = 10, fee_exempt_contracts = []\<rparr>"

definition apply_governance_param :: "u8 \<Rightarrow> u64 \<Rightarrow> fee_config \<Rightarrow> fee_config \<times> bool" where
  "apply_governance_param param_id v c =
     (if param_id = 0 then (c\<lparr>fee_base_fee := v\<rparr>, True)
      else if param_id = 1 then (c\<lparr>fee_burn_percent := v\<rparr>, True)
      else if param_id = 2 then (c\<lparr>fee_producer_percent := v\<rparr>, True)
      else if param_id = 3 then (c\<lparr>fee_voters_percent := v\<rparr>, True)
      else if param_id = 4 then (c\<lparr>fee_treasury_percent := v\<rparr>, True)
      else if param_id = 5 then (c\<lparr>fee_community_percent := v\<rparr>, True)
      else (c, False))"

definition validate_distribution :: "fee_config \<Rightarrow> err + unit" where
  "validate_distribution c =
     (if list_ex (\<lambda>v. v > 100) [fee_burn_percent c, fee_producer_percent c, fee_voters_percent c,
           fee_treasury_percent c, fee_community_percent c]
      then Inl ''FeeConfig: percentage must be 0..=100''
      else if saturating_add (saturating_add (saturating_add (saturating_add (fee_burn_percent c)
           (fee_producer_percent c)) (fee_voters_percent c)) (fee_treasury_percent c)) (fee_community_percent c) \<noteq> 100
      then Inl ''FeeConfig: fee percentages must sum to 100'' else Inr ())"

section \<open>What a transaction is charged\<close>

datatype contract_instruction =
    Ci_deploy "u8 list" "u8 list"
  | Ci_call string "u8 list" u64
  | Ci_upgrade "u8 list"
  | Ci_close
  | Ci_set_upgrade_timelock u32
  | Ci_execute_upgrade
  | Ci_veto_upgrade

text \<open>
  The decoders that belong to third-party crates: JSON contract instructions (\<open>serde_json\<close>) and
  the spores an encoded EVM transaction offers for gas, price times limit (\<open>alloy\<close>).
\<close>

record ix_codec =
  de_contract_ix :: "u8 list \<Rightarrow> contract_instruction option"
  de_evm_gas_fee :: "u8 list \<Rightarrow> u64 option"

definition opcode :: "instruction \<Rightarrow> u8 option" where
  "opcode ix = (case ix_data ix of [] \<Rightarrow> None | k # _ \<Rightarrow> Some k)"

definition fee_free_kind :: "instruction \<Rightarrow> bool" where
  "fee_free_kind ix =
     (case opcode ix of
        None \<Rightarrow> False
      | Some kind \<Rightarrow>
          kind \<in> {2, 3, 4, 5, 19, 27, 30, 31} \<or>
          kind = 26 \<and> (if 33 < length (ix_data ix) then ix_data ix ! 33 else 0) = 0)"

definition exempt_call :: "ix_codec \<Rightarrow> fee_config \<Rightarrow> instruction \<Rightarrow> bool" where
  "exempt_call ic cfg ix \<longleftrightarrow> ix_program_id ix = CONTRACT_PROGRAM_ID \<and>
     (case de_contract_ix ic (ix_data ix) of Some (Ci_call _ _ _) \<Rightarrow> True | _ \<Rightarrow> False) \<and>
     length (ix_accounts ix) \<ge> 2 \<and> ix_accounts ix ! 1 \<in> set (fee_exempt_contracts cfg)"

abbreviation SHIELD_COMPUTE_UNITS :: u64 where "SHIELD_COMPUTE_UNITS \<equiv> 100000"
abbreviation UNSHIELD_COMPUTE_UNITS :: u64 where "UNSHIELD_COMPUTE_UNITS \<equiv> 150000"
abbreviation TRANSFER_COMPUTE_UNITS :: u64 where "TRANSFER_COMPUTE_UNITS \<equiv> 200000"

definition system_premium :: "fee_config \<Rightarrow> instruction \<Rightarrow> u64" where
  "system_premium cfg ix =
     (if ix_program_id ix \<noteq> SYSTEM_PROGRAM_ID then 0
      else case opcode ix of
          None \<Rightarrow> 0
        | Some k \<Rightarrow>
            if k = 6 then fee_nft_collection_fee cfg
            else if k = 7 then fee_nft_mint_fee cfg
            else if k = 17 then fee_contract_deploy_fee cfg
            else if k = 23 then SHIELD_COMPUTE_UNITS
            else if k = 24 then UNSHIELD_COMPUTE_UNITS
            else if k = 25 then TRANSFER_COMPUTE_UNITS
            else 0)"

definition contract_premium :: "ix_codec \<Rightarrow> fee_config \<Rightarrow> instruction \<Rightarrow> u64" where
  "contract_premium ic cfg ix =
     (if ix_program_id ix \<noteq> CONTRACT_PROGRAM_ID then 0
      else case de_contract_ix ic (ix_data ix) of
          Some (Ci_deploy _ _) \<Rightarrow> fee_contract_deploy_fee cfg
        | Some (Ci_upgrade _) \<Rightarrow> fee_contract_upgrade_fee cfg
        | Some Ci_execute_upgrade \<Rightarrow> fee_contract_upgrade_fee cfg
        | _ \<Rightarrow> 0)"

definition compute_base_fee :: "ix_codec \<Rightarrow> transaction \<Rightarrow> fee_config \<Rightarrow> u64" where
  "compute_base_fee ic tx cfg =
     (let ixs = msg_instructions (tx_message tx) in
      if (case ixs of ix # _ \<Rightarrow> ix_program_id ix = SYSTEM_PROGRAM_ID \<and> fee_free_kind ix | [] \<Rightarrow> False) then 0
      else if (case ixs of ix # _ \<Rightarrow> ix_program_id ix = EVM_PROGRAM_ID | [] \<Rightarrow> False)
      then (case de_evm_gas_fee ic (ix_data (hd ixs)) of
              Some estimated \<Rightarrow> if estimated > 0 then estimated else fee_base_fee cfg
            | None \<Rightarrow> fee_base_fee cfg)
      else if fee_exempt_contracts cfg \<noteq> [] \<and> ixs \<noteq> [] \<and> list_all (exempt_call ic cfg) ixs then 0
      else foldl (\<lambda>total ix. saturating_add (saturating_add total (system_premium cfg ix)) (contract_premium ic cfg ix))
             (fee_base_fee cfg) ixs)"

definition compute_priority_fee :: "transaction \<Rightarrow> u64" where
  "compute_priority_fee tx =
     (let cu_price = effective_compute_unit_price (tx_message tx) in
      if cu_price = 0 then 0
      else min (effective_compute_budget (tx_message tx) * cu_price div 1000000) u64_max)"

definition compute_transaction_fee :: "ix_codec \<Rightarrow> transaction \<Rightarrow> fee_config \<Rightarrow> u64" where
  "compute_transaction_fee ic tx cfg = saturating_add (compute_base_fee ic tx cfg) (compute_priority_fee tx)"

text \<open>\<open>std::str::from_utf8\<close>: the well-formed byte sequences of the Unicode standard.\<close>

fun utf8_valid :: "u8 list \<Rightarrow> bool" where
  "utf8_valid [] = True"
| "utf8_valid (a # rest) =
     (let cont = (\<lambda>lo hi b. lo \<le> b \<and> b \<le> (hi :: u8)) in
      if a < 128 then utf8_valid rest
      else case rest of
          [] \<Rightarrow> False
        | b # rest2 \<Rightarrow>
            if 194 \<le> a \<and> a \<le> 223 then cont 128 191 b \<and> utf8_valid rest2
            else case rest2 of
                [] \<Rightarrow> False
              | c # rest3 \<Rightarrow>
                  if 224 \<le> a \<and> a \<le> 239 then
                    (if a = 224 then cont 160 191 b else if a = 237 then cont 128 159 b else cont 128 191 b) \<and>
                    cont 128 191 c \<and> utf8_valid rest3
                  else case rest3 of
                      [] \<Rightarrow> False
                    | d # rest4 \<Rightarrow>
                        240 \<le> a \<and> a \<le> 244 \<and>
                        (if a = 240 then cont 144 191 b else if a = 244 then cont 128 143 b else cont 128 191 b) \<and>
                        cont 128 191 c \<and> cont 128 191 d \<and> utf8_valid rest4)"

definition starts_with :: "u8 list \<Rightarrow> string \<Rightarrow> bool" where
  "starts_with data s \<longleftrightarrow> take (length s) data = str_bytes s"

definition premium_of :: "fee_config \<Rightarrow> instruction \<Rightarrow> u64" where
  "premium_of cfg ix =
     saturating_add
       (if ix_program_id ix = SYSTEM_PROGRAM_ID then
          (case opcode ix of
             None \<Rightarrow> 0
           | Some k \<Rightarrow> if k = 6 then fee_nft_collection_fee cfg else if k = 7 then fee_nft_mint_fee cfg
               else if k = 17 then fee_contract_deploy_fee cfg else 0)
        else 0)
       (if ix_program_id ix = CONTRACT_PROGRAM_ID \<and> utf8_valid (ix_data ix) then
          (if starts_with (ix_data ix) (''{'' @ [CHR 0x22] @ ''Deploy'' @ [CHR 0x22]) then fee_contract_deploy_fee cfg
           else if starts_with (ix_data ix) (''{'' @ [CHR 0x22] @ ''Upgrade'' @ [CHR 0x22]) then fee_contract_upgrade_fee cfg
           else 0)
        else 0)"

definition compute_premium_fee :: "transaction \<Rightarrow> fee_config \<Rightarrow> u64" where
  "compute_premium_fee tx cfg = foldl (\<lambda>premium ix. saturating_add premium (premium_of cfg ix)) 0 (msg_instructions (tx_message tx))"

section \<open>Charging and refunding\<close>

text \<open>The burned part of a fee and the part credited to the treasury, common to both charging paths.\<close>

definition fee_split :: "fee_config \<Rightarrow> u64 \<Rightarrow> u64 \<Rightarrow> u64 \<times> u64" where
  "fee_split cfg total_fee priority_fee =
     (let base_portion = saturating_sub total_fee priority_fee;
          pct = (\<lambda>p. as_u64 (base_portion * p div 100));
          base_burn = pct (fee_burn_percent cfg);
          base_producer = pct (fee_producer_percent cfg);
          base_voters = pct (fee_voters_percent cfg);
          base_community = pct (fee_community_percent cfg);
          base_allocated = saturating_add (saturating_add (saturating_add base_burn base_producer) base_voters) base_community;
          base_treasury = saturating_sub base_portion base_allocated;
          priority_burn = priority_fee div 2;
          priority_producer = saturating_sub priority_fee priority_burn;
          burn_amount = saturating_add base_burn priority_burn;
          total_to_treasury = saturating_add (saturating_add (saturating_add (saturating_add base_treasury base_producer)
            base_voters) base_community) priority_producer
      in (burn_amount, min total_to_treasury (saturating_sub total_fee burn_amount)))"

definition charge_fee_with_priority_in_batch ::
  "pubkey \<Rightarrow> u64 \<Rightarrow> u64 \<Rightarrow> tx_processor \<Rightarrow> err + tx_processor" where
  "charge_fee_with_priority_in_batch payer total_fee priority_fee p =
     rbind (ok_or (b_get_account p payer) ''Payer account not found'') (\<lambda>payer_account.
     rbind (deduct_spendable total_fee payer_account) (\<lambda>payer_account.
     case fee_split (st_fee_config (tp_state p)) total_fee priority_fee of (burn_amount, capped_to_treasury) \<Rightarrow>
       let p = b_put_account payer payer_account p in
       if capped_to_treasury > 0 then
         rbind (ok_or (st_treasury_pubkey (tp_state p)) ''Treasury pubkey not set'') (\<lambda>treasury_pubkey.
         rbind (add_spendable capped_to_treasury
             (case b_get_account p treasury_pubkey of Some a \<Rightarrow> a | None \<Rightarrow> account_new 0 treasury_pubkey)) (\<lambda>treasury.
         Inr (b_add_burned burn_amount (b_put_account treasury_pubkey treasury p))))
       else Inr (b_add_burned burn_amount p)))"

definition charge_fee_with_priority ::
  "pubkey \<Rightarrow> u64 \<Rightarrow> u64 \<Rightarrow> tx_processor \<Rightarrow> err + tx_processor" where
  "charge_fee_with_priority payer total_fee priority_fee p =
     (if tp_speculative p then charge_fee_with_priority_in_batch payer total_fee priority_fee p
      else
        let s = tp_state p in
        rbind (ok_or (state_get_account s payer) ''Payer account not found'') (\<lambda>payer_account.
        rbind (deduct_spendable total_fee payer_account) (\<lambda>payer_account.
        case fee_split (st_fee_config s) total_fee priority_fee of (burn_amount, capped_to_treasury) \<Rightarrow>
          if capped_to_treasury > 0 then
            rbind (ok_or (st_treasury_pubkey s) ''Treasury pubkey not set'') (\<lambda>treasury_pubkey.
            rbind (add_spendable capped_to_treasury
                (case state_get_account s treasury_pubkey of Some a \<Rightarrow> a | None \<Rightarrow> account_new 0 treasury_pubkey)) (\<lambda>treasury.
            Inr (p\<lparr>tp_state := atomic_put_accounts [(payer, payer_account), (treasury_pubkey, treasury)] burn_amount s\<rparr>)))
          else Inr (p\<lparr>tp_state := atomic_put_accounts [(payer, payer_account)] burn_amount s\<rparr>))))"

definition refund_premium :: "pubkey \<Rightarrow> u64 \<Rightarrow> tx_processor \<Rightarrow> err + tx_processor" where
  "refund_premium payer amount p =
     (if tp_speculative p then
        rbind (ok_or (b_get_account p payer) ''Payer account not found for refund'') (\<lambda>a.
        rbind (add_spendable amount a) (\<lambda>a. Inr (b_put_account payer a p)))
      else
        rbind (ok_or (state_get_account (tp_state p) payer) ''Payer account not found for refund'') (\<lambda>a.
        rbind (add_spendable amount a) (\<lambda>a. Inr (p\<lparr>tp_state := state_put_account payer a (tp_state p)\<rparr>))))"

section \<open>Rent\<close>

definition compute_graduated_rent :: "u64 \<Rightarrow> u64 \<Rightarrow> u64" where
  "compute_graduated_rent data_len rate =
     (if data_len \<le> RENT_FREE_BYTES then 0
      else
        let billable = data_len - RENT_FREE_BYTES;
            tier1_cap = 8 * 1024; tier2_cap = 98 * 1024;
            tier1_kb = div_ceil (min billable tier1_cap) 1024;
            tier2_kb = div_ceil (min (saturating_sub billable tier1_cap) (tier2_cap - tier1_cap)) 1024;
            tier3_kb = div_ceil (saturating_sub billable tier2_cap) 1024
        in saturating_add (saturating_add (saturating_mul tier1_kb rate)
             (saturating_mul tier2_kb (saturating_mul rate 2))) (saturating_mul tier3_kb (saturating_mul rate 4)))"

text \<open>What an account pays of the rent it owes, and what it keeps missing.\<close>

definition settle_rent :: "u64 \<Rightarrow> u64 \<Rightarrow> account \<Rightarrow> err + (account \<times> u64)" where
  "settle_rent rent_due epochs_elapsed a =
     (let actual_rent = min rent_due (ac_spendable a) in
      rbind (if actual_rent > 0 then deduct_spendable actual_rent a else Inr a) (\<lambda>a.
      let a = (if actual_rent < rent_due then
                 (let missed = saturating_add (ac_missed_rent_epochs a) epochs_elapsed
                  in a\<lparr>ac_missed_rent_epochs := missed,
                       ac_dormant := (if missed \<ge> DORMANCY_THRESHOLD_EPOCHS then True else ac_dormant a)\<rparr>)
               else a\<lparr>ac_missed_rent_epochs := 0\<rparr>)
      in Inr (a, actual_rent)))"

text \<open>Rent of one account: the account to write back, if any, and the rent collected.\<close>

definition rent_account :: "u64 \<Rightarrow> u64 \<Rightarrow> account \<Rightarrow> err + (account option \<times> u64)" where
  "rent_account current_slot rate a =
     (let current_epoch = slot_to_epoch current_slot in
      if ac_rent_epoch a = 0 then Inr (Some (a\<lparr>ac_rent_epoch := current_slot\<rparr>), 0)
      else
        let last_rent_epoch = slot_to_epoch (ac_rent_epoch a) in
        if current_epoch \<le> last_rent_epoch then Inr (None, 0)
        else
          let epochs_elapsed = current_epoch - last_rent_epoch; data_len = length (ac_data a) in
          if data_len \<le> RENT_FREE_BYTES
          then Inr (Some (a\<lparr>ac_rent_epoch := current_slot, ac_missed_rent_epochs := 0\<rparr>), 0)
          else if ac_spores a = 0 \<and> data_len = 0 then Inr (Some (a\<lparr>ac_rent_epoch := current_slot\<rparr>), 0)
          else
            let rent_due = saturating_mul epochs_elapsed (compute_graduated_rent data_len rate)
            in rbind (if rent_due > 0 then settle_rent rent_due epochs_elapsed a else Inr (a, 0)) (\<lambda>(a, actual_rent).
               Inr (Some (a\<lparr>ac_rent_epoch := current_slot\<rparr>), actual_rent)))"

fun rent_loop :: "u64 \<Rightarrow> u64 \<Rightarrow> pubkey list \<Rightarrow> u64 \<Rightarrow> tx_processor \<Rightarrow> err + (u64 \<times> tx_processor)" where
  "rent_loop current_slot rate [] collected p = Inr (collected, p)"
| "rent_loop current_slot rate (k # ks) collected p =
     (case b_get_account p k of
        None \<Rightarrow> rent_loop current_slot rate ks collected p
      | Some a \<Rightarrow>
          (case rent_account current_slot rate a of
             Inl e \<Rightarrow> Inl e
           | Inr (written, rent) \<Rightarrow>
               rent_loop current_slot rate ks (saturating_add collected rent)
                 (case written of Some a \<Rightarrow> b_put_account k a p | None \<Rightarrow> p)))"

text \<open>The accounts are a \<open>HashSet\<close>; any order of the distinct accounts is a run of the loop.\<close>

definition apply_rent :: "pubkey list \<Rightarrow> tx_processor \<Rightarrow> err + tx_processor" where
  "apply_rent accounts p =
     (let current_slot = st_last_slot (tp_state p) in
      if current_slot = 0 then Inr p
      else
        let rent_rate_per_epoch = saturating_mul (st_rent_rate (tp_state p)) SLOTS_PER_EPOCH div SLOTS_PER_MONTH in
        rbind (rent_loop current_slot rent_rate_per_epoch accounts 0 p) (\<lambda>(total_rent_collected, p).
        if total_rent_collected > 0 then
          rbind (ok_or (st_treasury_pubkey (tp_state p)) ''Treasury pubkey not set for rent credit'') (\<lambda>treasury_pubkey.
          rbind (add_spendable total_rent_collected
              (case b_get_account p treasury_pubkey of Some a \<Rightarrow> a | None \<Rightarrow> account_new 0 treasury_pubkey)) (\<lambda>treasury.
          Inr (b_put_account treasury_pubkey treasury p)))
        else Inr p))"

section \<open>A fee splits exactly\<close>

lemma div_add_le: "a div c + b div c \<le> (a + b) div c" for a b c :: nat
  by (cases "c = 0") (simp_all add: less_eq_div_iff_mult_less_eq distrib_right add_mono)

lemma percent_sum_le:
  assumes "p1 + p2 + p3 + p4 \<le> 100"
  shows "b * p1 div 100 + b * p2 div 100 + b * p3 div 100 + b * p4 div 100 \<le> (b :: nat)"
proof -
  have "b * p1 div 100 + b * p2 div 100 + b * p3 div 100 + b * p4 div 100 \<le> (b * p1 + b * p2 + b * p3 + b * p4) div 100"
    using div_add_le [of "b * p1" 100 "b * p2"] div_add_le [of "b * p1 + b * p2" 100 "b * p3"]
      div_add_le [of "b * p1 + b * p2 + b * p3" 100 "b * p4"] by linarith
  also have "\<dots> = b * (p1 + p2 + p3 + p4) div 100" by (simp add: distrib_left)
  also have "\<dots> \<le> b * 100 div 100" using assms by (intro div_le_mono mult_le_mono2)
  finally show ?thesis by simp
qed

lemma validate_distribution_sum:
  assumes "validate_distribution cfg = Inr ()"
  shows "fee_burn_percent cfg + fee_producer_percent cfg + fee_voters_percent cfg + fee_community_percent cfg \<le> 100"
  using assms by (auto simp: validate_distribution_def saturating_add_def u64_max_def split: if_splits)

lemma fee_split_exact:
  assumes "validate_distribution cfg = Inr ()" "priority_fee \<le> total_fee" "total_fee \<le> u64_max"
    "fee_split cfg total_fee priority_fee = (burn, to_treasury)"
  shows "burn + to_treasury = total_fee"
proof -
  define b where "b = total_fee - priority_fee"
  define w x y z where "w = b * fee_burn_percent cfg div 100" and "x = b * fee_producer_percent cfg div 100"
    and "y = b * fee_voters_percent cfg div 100" and "z = b * fee_community_percent cfg div 100"
  note pct = w_def [symmetric] x_def [symmetric] y_def [symmetric] z_def [symmetric]
  have le: "w + x + y + z \<le> b" unfolding w_def x_def y_def z_def
    by (rule percent_sum_le [OF validate_distribution_sum [OF assms(1)]])
  have b: "b + priority_fee = total_fee" using assms(2) by (simp add: b_def)
  have as: "as_u64 w = w" "as_u64 x = x" "as_u64 y = y" "as_u64 z = z" using le b assms(3) by (simp_all add: as_u64_id)
  define t where "t = b - (w + x + y + z)"
  define q r where "q = priority_fee div 2" and "r = priority_fee - q"
  have sums: "t + (w + x + y + z) = b" "q + r = priority_fee" using le by (auto simp: t_def q_def r_def)
  have exact: "saturating_add w x = w + x" "saturating_add (w + x) y = w + x + y" "saturating_add (w + x + y) z = w + x + y + z"
    "saturating_add t x = t + x" "saturating_add (t + x) y = t + x + y" "saturating_add (t + x + y) z = t + x + y + z"
    "saturating_add (t + x + y + z) r = t + x + y + z + r" "saturating_add w q = w + q"
    using sums b assms(3) by (simp_all add: saturating_add_exact)
  have "(burn, to_treasury) = (w + q, min (t + x + y + z + r) (total_fee - (w + q)))"
    using assms(4) unfolding fee_split_def Let_def saturating_sub_def b_def [symmetric] pct as
    by (simp only: exact t_def [symmetric] q_def [symmetric] r_def [symmetric])
  moreover have "t + x + y + z + r = total_fee - (w + q)" using sums b by linarith
  ultimately have "(burn, to_treasury) = (w + priority_fee div 2, total_fee - (w + priority_fee div 2))"
    by (simp add: q_def)
  moreover have "w + priority_fee div 2 \<le> total_fee" using le b by simp
  ultimately show ?thesis by simp
qed

lemma supply_add_burned:
  "total_supply p + n \<le> u64_max \<Longrightarrow> total_supply (b_add_burned n p) = total_supply p + n \<and>
     (\<forall>k. b_get_account (b_add_burned n p) k = b_get_account p k) \<and> (tp_ok p \<longrightarrow> tp_ok (b_add_burned n p))"
proof -
  assume room: "total_supply p + n \<le> u64_max"
  have get: "b_get_account (b_add_burned n p) k = b_get_account p k" for k
    by (simp add: b_add_burned_def b_get_account_def batch_get_account_def state_get_account_def split: option.splits)
  have "holders (b_add_burned n p) = holders p" by (simp add: b_add_burned_def holders_def split: option.splits)
  moreover have "balance (b_add_burned n p) = balance p" by (rule ext) (simp add: balance_def get)
  moreover have "burned (b_add_burned n p) = burned p + n"
    using room by (auto simp: b_add_burned_def burned_def total_supply_def saturating_add_exact split: option.splits)
  moreover have "tp_ok p \<longrightarrow> tp_ok (b_add_burned n p)" by (auto simp: b_add_burned_def tp_ok_def split: option.splits)
  ultimately show ?thesis using get by (simp add: total_supply_def)
qed

lemma get_or_new_ok:
  assumes "tp_ok p"
  shows "acc_ok (case b_get_account p k of Some a \<Rightarrow> a | None \<Rightarrow> account_new 0 k) \<and>
    ac_spores (case b_get_account p k of Some a \<Rightarrow> a | None \<Rightarrow> account_new 0 k) = balance p k"
  using b_get_ok [OF assms] by (auto simp: balance_def account_new_spores split: option.splits)

lemma supply_credit:
  assumes "tp_ok p" "add_spendable n (case b_get_account p k of Some a \<Rightarrow> a | None \<Rightarrow> account_new 0 k) = Inr a"
  shows "tp_ok (b_put_account k a p) \<and> total_supply (b_put_account k a p) = total_supply p + n"
  using add_spendable_Inr [OF assms(2)] get_or_new_ok [OF assms(1), of k] tp_ok_put [OF assms(1), of a k]
    supply_put [of k a p] by auto

lemma supply_debit:
  assumes "tp_ok p" "b_get_account p k = Some a" "deduct_spendable n a = Inr a'"
  shows "tp_ok (b_put_account k a' p) \<and> total_supply (b_put_account k a' p) + n = total_supply p \<and> n \<le> total_supply p"
  using deduct_spendable_Inr [OF assms(3)] b_get_ok [OF assms(1,2)] tp_ok_put [OF assms(1), of a' k]
    supply_put [of k a' p] balance_le_supply [of p k] assms(2) by (auto simp: balance_def)

lemma charge_in_batch_keeps:
  assumes ok: "tp_ok p" "total_supply p \<le> u64_max" "validate_distribution (st_fee_config (tp_state p)) = Inr ()"
    and fee: "priority_fee \<le> total_fee"
    and charge: "charge_fee_with_priority_in_batch payer total_fee priority_fee p = Inr p'"
  shows "tp_ok p' \<and> total_supply p' = total_supply p"
proof -
  obtain burn tt where split: "fee_split (st_fee_config (tp_state p)) total_fee priority_fee = (burn, tt)" by force
  from charge obtain a a1 where a: "b_get_account p payer = Some a" "deduct_spendable total_fee a = Inr a1"
    by (auto simp: charge_fee_with_priority_in_batch_def rbind_eq_Inr)
  let ?p = "b_put_account payer a1 p"
  note d = supply_debit [OF ok(1) a]
  have exact: "burn + tt = total_fee" by (rule fee_split_exact [OF ok(3) fee _ split]) (use d ok(2) in linarith)
  show ?thesis
  proof (cases "tt > 0")
    case False
    with charge a split have "p' = b_add_burned burn ?p"
      by (auto simp: charge_fee_with_priority_in_batch_def Let_def rbind_eq_Inr)
    with supply_add_burned [of ?p burn] d exact False ok(2) show ?thesis by simp
  next
    case True
    with charge a split obtain t b where t: "add_spendable tt (case b_get_account ?p t of Some a \<Rightarrow> a | None \<Rightarrow> account_new 0 t) = Inr b"
      "p' = b_add_burned burn (b_put_account t b ?p)"
      by (auto simp: charge_fee_with_priority_in_batch_def Let_def rbind_eq_Inr)
    with supply_credit [OF _ t(1)] d supply_add_burned [of "b_put_account t b ?p" burn] exact ok(2)
    show ?thesis by simp
  qed
qed

section \<open>Rent keeps the supply\<close>

lemma acc_ok_rent_fields [simp]:
  "acc_ok (a\<lparr>ac_missed_rent_epochs := m\<rparr>) = acc_ok a" "acc_ok (a\<lparr>ac_rent_epoch := e\<rparr>) = acc_ok a"
  "acc_ok (a\<lparr>ac_missed_rent_epochs := m, ac_dormant := d\<rparr>) = acc_ok a"
  by (simp_all add: acc_ok_def)

lemma settle_rent_Inr:
  assumes "settle_rent due n a = Inr (a', rent)" "acc_ok a"
  shows "acc_ok a' \<and> ac_spores a' + rent = ac_spores a"
proof -
  from assms(1) obtain b where b: "if 0 < min due (ac_spendable a) then deduct_spendable (min due (ac_spendable a)) a = Inr b else b = a"
    and r: "rent = min due (ac_spendable a)" and a': "ac_spores a' = ac_spores b" "acc_ok a' = acc_ok b"
    unfolding settle_rent_def Let_def rbind_eq_Inr by (fastforce split: if_splits)
  show ?thesis
  proof (cases "0 < rent")
    case True
    with b r have "deduct_spendable rent a = Inr b" by simp
    from deduct_spendable_Inr [OF this] have "acc_ok b" "ac_spores b + rent = ac_spores a" using assms(2) by auto
    with a' show ?thesis by simp
  next
    case False
    with b r have "rent = 0" "b = a" by (auto split: if_splits)
    with a' assms(2) show ?thesis by simp
  qed
qed

lemma rent_account_Inr:
  assumes "rent_account slot rate a = Inr (w, rent)" "acc_ok a"
  shows "(w = None \<longrightarrow> rent = 0) \<and> (\<forall>a'. w = Some a' \<longrightarrow> acc_ok a' \<and> ac_spores a' + rent = ac_spores a)"
  using assms by (auto simp: rent_account_def Let_def rbind_eq_Inr split: if_splits dest!: settle_rent_Inr)

lemma rent_loop_keeps:
  "rent_loop slot rate ks c p = Inr (c', p') \<Longrightarrow> tp_ok p \<Longrightarrow> c + total_supply p \<le> u64_max \<Longrightarrow>
     tp_ok p' \<and> c' + total_supply p' = c + total_supply p"
proof (induction slot rate ks c p rule: rent_loop.induct)
  case (2 slot rate k ks c p)
  show ?case
  proof (cases "b_get_account p k")
    case None
    with 2 show ?thesis by simp
  next
    case (Some a)
    from 2(3) Some obtain w r where w: "rent_account slot rate a = Inr (w, r)"
      and run: "rent_loop slot rate ks (saturating_add c r) (case w of Some a \<Rightarrow> b_put_account k a p | None \<Rightarrow> p) = Inr (c', p')"
      by (auto split: sum.splits)
    note ra = rent_account_Inr [OF w b_get_ok [OF 2(4) Some]]
    let ?p = "case w of Some a \<Rightarrow> b_put_account k a p | None \<Rightarrow> p"
    have p: "tp_ok ?p" "r + total_supply ?p = total_supply p"
      using ra 2(4) Some supply_put [of k "the w" p] by (cases w; simp add: balance_def tp_ok_put; linarith)+
    have sat: "saturating_add c r = c + r" using p(2) 2(5) by (intro saturating_add_exact) linarith
    from 2(2) [OF Some w refl run p(1)] p(2) 2(5) show ?thesis by (simp add: sat)
  qed
qed simp

lemma apply_rent_keeps:
  assumes "apply_rent ks p = Inr p'" "tp_ok p" "total_supply p \<le> u64_max"
  shows "tp_ok p' \<and> total_supply p' = total_supply p"
proof (cases "st_last_slot (tp_state p) = 0")
  case False
  let ?rate = "saturating_mul (st_rent_rate (tp_state p)) SLOTS_PER_EPOCH div SLOTS_PER_MONTH"
  from assms(1) False obtain c q where q: "rent_loop (st_last_slot (tp_state p)) ?rate ks 0 p = Inr (c, q)"
    by (auto simp: apply_rent_def Let_def rbind_eq_Inr)
  from rent_loop_keeps [OF q assms(2)] assms(3) have keep: "tp_ok q" "c + total_supply q = total_supply p" by auto
  show ?thesis
  proof (cases "0 < c")
    case True
    with assms(1) False q obtain t a where
      t: "add_spendable c (case b_get_account q t of Some a \<Rightarrow> a | None \<Rightarrow> account_new 0 t) = Inr a" "p' = b_put_account t a q"
      by (auto simp: apply_rent_def Let_def rbind_eq_Inr)
    from supply_credit [OF keep(1) t(1)] t(2) keep(2) show ?thesis by simp
  next
    case False
    with assms(1) \<open>st_last_slot (tp_state p) \<noteq> 0\<close> q have "p' = q" by (simp add: apply_rent_def Let_def)
    with keep False show ?thesis by simp
  qed
qed (use assms in \<open>simp add: apply_rent_def\<close>)

section \<open>The direct charging path\<close>

lemma direct_put:
  "tp_batch p = None \<Longrightarrow> p\<lparr>tp_state := atomic_put_accounts [(k, a)] n (tp_state p)\<rparr> = b_add_burned n (b_put_account k a p)"
  "tp_batch p = None \<Longrightarrow> p\<lparr>tp_state := atomic_put_accounts [(k, a), (k', a')] n (tp_state p)\<rparr> =
     b_add_burned n (b_put_account k' a' (b_put_account k a p))"
  by (simp_all add: atomic_put_accounts_def b_add_burned_def b_put_account_def Let_def)

lemma direct_get: "tp_batch p = None \<Longrightarrow> state_get_account (tp_state p) k = b_get_account p k"
  by (simp add: b_get_account_def)

text \<open>
  Outside speculative execution the two writes of a fee charge are computed from the same
  snapshot of the store. When the treasury itself pays the fee, its credit overwrites its debit:
  the charge succeeds, the treasury ends richer and the supply has grown by the fee.
\<close>

theorem treasury_paying_directly_mints_its_fee:
  assumes "\<not> tp_speculative p" "tp_batch p = None" "tp_ok p" "total_supply p + total_fee \<le> u64_max"
    and "validate_distribution (st_fee_config (tp_state p)) = Inr ()" "priority_fee \<le> total_fee"
    and "st_treasury_pubkey (tp_state p) = Some t" "fee_split (st_fee_config (tp_state p)) total_fee priority_fee = (burn, tt)"
    and "0 < tt" "b_get_account p t = Some a" "total_fee \<le> ac_spendable a"
  shows "\<exists>p'. charge_fee_with_priority t total_fee priority_fee p = Inr p' \<and> balance p' t = balance p t + tt \<and>
    total_supply p' = total_supply p + total_fee"
proof -
  have ok: "acc_ok a" by (rule b_get_ok [OF assms(3,10)])
  then have "deduct_spendable total_fee a = Inr (a\<lparr>ac_spendable := ac_spendable a - total_fee, ac_spores := ac_spores a - total_fee\<rparr>)"
    using assms(11) by (simp add: deduct_spendable_def acc_ok_def ok_or_def checked_sub_def)
  then obtain a1 where a1: "deduct_spendable total_fee a = Inr a1" by blast
  have exact: "burn + tt = total_fee"
    by (rule fee_split_exact [OF assms(5,6) _ assms(8)]) (use assms(4) in linarith)
  have "ac_spores a + tt \<le> u64_max"
    using balance_le_supply [of p t] assms(4,10) exact by (simp add: balance_def)
  from add_spendable_total [OF ok this] obtain b where b: "add_spendable tt a = Inr b" by blast
  let ?p1 = "b_put_account t a1 p" and ?p2 = "b_put_account t b (b_put_account t a1 p)"
  have charge: "charge_fee_with_priority t total_fee priority_fee p = Inr (b_add_burned burn ?p2)"
    using assms(1,2,7,8,9,10) a1 b
    by (simp add: charge_fee_with_priority_def Let_def direct_get direct_put ok_or_def)
  have bal: "ac_spores b = balance p t + tt" using add_spendable_Inr [OF b] assms(10) by (simp add: balance_def)
  have "total_supply ?p2 = total_supply p + tt"
    using supply_put [of t b ?p1] supply_put [of t a1 p] bal by (simp add: balance_put)
  moreover from this have "total_supply ?p2 + burn \<le> u64_max" using exact assms(4) by linarith
  note supply_add_burned [OF this]
  ultimately show ?thesis
    using charge exact bal by (auto simp: balance_def balance_put [unfolded balance_def])
qed

lemma direct_charge_keeps:
  assumes ok: "tp_ok p" "total_supply p \<le> u64_max" "validate_distribution (st_fee_config (tp_state p)) = Inr ()"
    and fee: "priority_fee \<le> total_fee" and batch: "\<not> tp_speculative p" "tp_batch p = None"
    and other: "st_treasury_pubkey (tp_state p) \<noteq> Some payer"
    and charge: "charge_fee_with_priority payer total_fee priority_fee p = Inr p'"
  shows "charge_fee_with_priority_in_batch payer total_fee priority_fee p = Inr p' \<and> tp_ok p' \<and> total_supply p' = total_supply p"
proof -
  from charge batch obtain a a1 where a: "b_get_account p payer = Some a" "deduct_spendable total_fee a = Inr a1"
    by (auto simp: charge_fee_with_priority_def Let_def direct_get rbind_eq_Inr)
  have ok1: "acc_ok a1" using deduct_spendable_Inr [OF a(2)] b_get_ok [OF ok(1) a(1)] by blast
  have st: "st_treasury_pubkey (tp_state (b_put_account payer a1 p)) = st_treasury_pubkey (tp_state p)"
    using batch by (simp add: b_put_account_def state_put_account_def)
  have get: "b_get_account (b_put_account payer a1 p) t = b_get_account p t" if "t \<noteq> payer" for t
    using that ok1 by (simp add: b_get_put)
  have same: "charge_fee_with_priority_in_batch payer total_fee priority_fee p = Inr p'"
    using charge a other batch
    by (auto simp: charge_fee_with_priority_def charge_fee_with_priority_in_batch_def Let_def direct_get direct_put rbind_eq_Inr
        st get split: prod.splits if_splits)
  with charge_in_batch_keeps [OF ok fee same] show ?thesis by simp
qed

text \<open>
  A refund outside speculative execution adds the premium to the payer and takes it from
  nobody, so the supply grows by it. Together with \<open>compute_base_fee\<close>, which charges nothing when
  the first instruction is of a free kind whatever the rest of the transaction does, a
  transaction can be refunded a premium that it never paid.
\<close>

theorem refunds_mint_even_unpaid_premiums:
  assumes "\<not> tp_speculative p" "tp_batch p = None" "tp_ok p" "total_supply p + amount \<le> u64_max"
    and "b_get_account p payer \<noteq> None"
    and "msg_instructions (tx_message tx) = [free, deploy]" "ix_program_id free = SYSTEM_PROGRAM_ID"
    "ix_data free = [30]" "ix_program_id deploy = SYSTEM_PROGRAM_ID" "ix_data deploy = 17 # code"
    and "amount = fee_contract_deploy_fee cfg" "amount \<le> u64_max"
  shows "compute_base_fee ic tx cfg = 0 \<and> compute_premium_fee tx cfg = amount \<and>
    (\<exists>p'. refund_premium payer amount p = Inr p' \<and> total_supply p' = total_supply p + amount)"
proof -
  from assms(5) obtain a where a: "b_get_account p payer = Some a" by blast
  have "ac_spores a + amount \<le> u64_max" using balance_le_supply [of p payer] assms(4) a by (simp add: balance_def)
  from add_spendable_total [OF b_get_ok [OF assms(3) a] this] obtain b where b: "add_spendable amount a = Inr b" by blast
  have "refund_premium payer amount p = Inr (b_put_account payer b p)"
    using assms(1,2) a b by (simp add: refund_premium_def direct_get b_put_account_def ok_or_def)
  moreover have "total_supply (b_put_account payer b p) = total_supply p + amount"
    using supply_credit [OF assms(3), of amount payer b] a b by simp
  moreover have "SYSTEM_PROGRAM_ID \<noteq> CONTRACT_PROGRAM_ID"
    by (simp add: SYSTEM_PROGRAM_ID_def CONTRACT_PROGRAM_ID_def replicate_eq_replicate)
  then have "compute_premium_fee tx cfg = amount"
    using assms(6-12) by (simp add: compute_premium_fee_def premium_of_def opcode_def saturating_add_exact)
  moreover have "compute_base_fee ic tx cfg = 0"
    using assms(6-8) by (simp add: compute_base_fee_def fee_free_kind_def opcode_def)
  ultimately show ?thesis by blast
qed

end
