(* ===== verification/Nonce.thy ===== *)
theory Nonce
  imports Fees
begin

text \<open>
  Durable nonces (\<open>src/core/src/processor/nonce_handlers.rs\<close> and \<open>check_durable_nonce\<close> of
  \<open>src/core/src/processor.rs\<close>): an account that stores a block hash which a transaction may
  name instead of a recent one, and which advancing replaces. What the four operations do to
  the supply is shown in \<open>Execution_Properties\<close>. The bincode encoding of the stored state is an
  argument.
\<close>

section \<open>Model\<close>

abbreviation NONCE_ACCOUNT_MIN_BALANCE :: u64 where "NONCE_ACCOUNT_MIN_BALANCE \<equiv> 10000000"
abbreviation NONCE_ACCOUNT_MARKER :: u8 where "NONCE_ACCOUNT_MARKER \<equiv> 0xDA"

record nonce_state =
  ns_authority :: pubkey
  ns_blockhash :: hash
  ns_fee_per_signature :: u64

record nonce_codec =
  ser_nonce :: "nonce_state \<Rightarrow> u8 list"
  de_nonce :: "u8 list \<Rightarrow> nonce_state option"

definition nonce_codec_laws :: "nonce_codec \<Rightarrow> bool" where
  "nonce_codec_laws nc \<longleftrightarrow> (\<forall>n. de_nonce nc (ser_nonce nc n) = Some n)"

fun from_le_bytes :: "u8 list \<Rightarrow> nat" where
  "from_le_bytes [] = 0"
| "from_le_bytes (b # bs) = unat b + 256 * from_le_bytes bs"

definition decode_nonce_state :: "nonce_codec \<Rightarrow> u8 list \<Rightarrow> err + nonce_state" where
  "decode_nonce_state nc data =
     (case data of
        [] \<Rightarrow> Inl ''Not a nonce account''
      | m # rest \<Rightarrow> if m \<noteq> NONCE_ACCOUNT_MARKER then Inl ''Not a nonce account''
                    else ok_or (de_nonce nc rest) ''Invalid nonce state'')"

definition check_durable_nonce :: "nonce_codec \<Rightarrow> transaction \<Rightarrow> store \<Rightarrow> bool" where
  "check_durable_nonce nc tx s =
     (case msg_instructions (tx_message tx) of
        [] \<Rightarrow> False
      | ix # _ \<Rightarrow>
          if ix_program_id ix \<noteq> SYSTEM_PROGRAM_ID then False
          else if length (ix_data ix) < 2 \<or> ix_data ix ! 0 \<noteq> 28 \<or> ix_data ix ! 1 \<noteq> 1 then False
          else if length (ix_accounts ix) < 2 then False
          else case state_get_account s (ix_accounts ix ! 1) of
              None \<Rightarrow> False
            | Some a \<Rightarrow> (case decode_nonce_state nc (ac_data a) of
                Inr n \<Rightarrow> ns_blockhash n = msg_recent_blockhash (tx_message tx)
              | Inl _ \<Rightarrow> False))"

definition nonce_initialize :: "nonce_codec \<Rightarrow> instruction \<Rightarrow> tx_processor \<Rightarrow> err + tx_processor" where
  "nonce_initialize nc ix p =
     (if length (ix_accounts ix) < 2 then Inl ''NonceInitialize requires [funder, nonce_account]''
      else if length (ix_data ix) < 34 then Inl ''NonceInitialize: missing authority pubkey''
      else
        let funder = ix_accounts ix ! 0; nonce_pk = ix_accounts ix ! 1;
            authority = Pubkey (take 32 (drop 2 (ix_data ix)))
        in if b_get_account p nonce_pk \<noteq> None then Inl ''NonceInitialize: nonce account already exists''
           else rbind (ok_or (b_get_account p funder) ''NonceInitialize: funder account not found'') (\<lambda>funder_account.
             if ac_spendable funder_account < NONCE_ACCOUNT_MIN_BALANCE
             then Inl ''NonceInitialize: funder needs the minimum balance''
             else
               let nonce_state = \<lparr>ns_authority = authority, ns_blockhash = st_last_block_hash (tp_state p),
                     ns_fee_per_signature = BASE_FEE\<rparr>
               in rbind (b_transfer funder nonce_pk NONCE_ACCOUNT_MIN_BALANCE p) (\<lambda>p.
                  rbind (ok_or (b_get_account p nonce_pk) ''NonceInitialize: nonce account disappeared after transfer'') (\<lambda>a.
                  Inr (b_put_account nonce_pk (a\<lparr>ac_data := NONCE_ACCOUNT_MARKER # ser_nonce nc nonce_state,
                         ac_owner := SYSTEM_PROGRAM_ID\<rparr>) p)))))"

definition nonce_advance :: "nonce_codec \<Rightarrow> instruction \<Rightarrow> tx_processor \<Rightarrow> err + tx_processor" where
  "nonce_advance nc ix p =
     (if length (ix_accounts ix) < 2 then Inl ''NonceAdvance requires [authority, nonce_account]''
      else
        let authority = ix_accounts ix ! 0; nonce_pk = ix_accounts ix ! 1 in
        rbind (ok_or (b_get_account p nonce_pk) ''NonceAdvance: nonce account not found'') (\<lambda>a.
        rbind (decode_nonce_state nc (ac_data a)) (\<lambda>n.
        if authority \<noteq> ns_authority n then Inl ''NonceAdvance: signer is not the nonce authority''
        else
          let new_blockhash = st_last_block_hash (tp_state p) in
          if new_blockhash = ns_blockhash n
          then Inl ''NonceAdvance: blockhash has not changed since last advance''
          else
            let updated = \<lparr>ns_authority = ns_authority n, ns_blockhash = new_blockhash, ns_fee_per_signature = BASE_FEE\<rparr>
            in Inr (b_put_account nonce_pk (a\<lparr>ac_data := NONCE_ACCOUNT_MARKER # ser_nonce nc updated\<rparr>) p))))"

definition ensure_nonce_authority_value_exit_not_restricted ::
  "pubkey \<Rightarrow> u64 \<Rightarrow> tx_processor \<Rightarrow> err + unit" where
  "ensure_nonce_authority_value_exit_not_restricted authority amount p =
     (let slot = st_last_slot (tp_state p); rs = st_restrictions (tp_state p);
          spendable = (case b_get_account p authority of Some a \<Rightarrow> ac_spendable a | None \<Rightarrow> 0);
          blocks = list_ex (\<lambda>r. restriction_mode_blocks_transfer (rr_mode r) Outgoing amount spendable)
      in if blocks (active_restrictions_for_target rs (Target_account authority) slot)
         then Inl ''NonceWithdraw: authority value exit blocked by active account restriction''
         else if blocks (active_restrictions_for_target rs (Target_account_asset authority NATIVE_LICN_ASSET_ID) slot)
         then Inl ''NonceWithdraw: authority value exit blocked by active account-asset restriction''
         else Inr ())"

definition nonce_withdraw :: "nonce_codec \<Rightarrow> instruction \<Rightarrow> tx_processor \<Rightarrow> err + tx_processor" where
  "nonce_withdraw nc ix p =
     (if length (ix_accounts ix) < 3 then Inl ''NonceWithdraw requires [authority, nonce_account, recipient]''
      else if length (ix_data ix) < 10 then Inl ''NonceWithdraw: missing amount''
      else
        let authority = ix_accounts ix ! 0; nonce_pk = ix_accounts ix ! 1; recipient = ix_accounts ix ! 2 in
        rbind (ok_or (b_get_account p nonce_pk) ''NonceWithdraw: nonce account not found'') (\<lambda>nonce_account.
        rbind (decode_nonce_state nc (ac_data nonce_account)) (\<lambda>n.
        if authority \<noteq> ns_authority n then Inl ''NonceWithdraw: signer is not the nonce authority''
        else
          let amount = from_le_bytes (take 8 (drop 2 (ix_data ix))) in
          if amount = 0 then Inl ''NonceWithdraw: amount must be > 0''
          else
            rbind (ensure_nonce_authority_value_exit_not_restricted authority (min amount (ac_spores nonce_account)) p) (\<lambda>_.
            if amount \<ge> ac_spores nonce_account then
              rbind (b_transfer nonce_pk recipient (ac_spores nonce_account) p) (\<lambda>p.
              let acct = (case b_get_account p nonce_pk of Some a \<Rightarrow> a | None \<Rightarrow> account_new 0 nonce_pk)
              in Inr (b_put_account nonce_pk (acct\<lparr>ac_data := []\<rparr>) p))
            else b_transfer nonce_pk recipient amount p))))"

definition nonce_authorize :: "nonce_codec \<Rightarrow> instruction \<Rightarrow> tx_processor \<Rightarrow> err + tx_processor" where
  "nonce_authorize nc ix p =
     (if length (ix_accounts ix) < 2 then Inl ''NonceAuthorize requires [authority, nonce_account]''
      else if length (ix_data ix) < 34 then Inl ''NonceAuthorize: missing new authority pubkey''
      else
        let authority = ix_accounts ix ! 0; nonce_pk = ix_accounts ix ! 1 in
        rbind (ok_or (b_get_account p nonce_pk) ''NonceAuthorize: nonce account not found'') (\<lambda>a.
        rbind (decode_nonce_state nc (ac_data a)) (\<lambda>n.
        if authority \<noteq> ns_authority n then Inl ''NonceAuthorize: signer is not the nonce authority''
        else
          let new_authority = Pubkey (take 32 (drop 2 (ix_data ix))) in
          if new_authority = Pubkey (replicate 32 0) then Inl ''NonceAuthorize: new authority cannot be the zero pubkey''
          else Inr (b_put_account nonce_pk
                 (a\<lparr>ac_data := NONCE_ACCOUNT_MARKER # ser_nonce nc (n\<lparr>ns_authority := new_authority\<rparr>)\<rparr>) p))))"

definition system_nonce :: "nonce_codec \<Rightarrow> instruction \<Rightarrow> tx_processor \<Rightarrow> err + tx_processor" where
  "system_nonce nc ix p =
     (if length (ix_data ix) < 2 then Inl ''Nonce: missing sub-opcode''
      else
        let sub = ix_data ix ! 1 in
        if sub = 0 then nonce_initialize nc ix p
        else if sub = 1 then nonce_advance nc ix p
        else if sub = 2 then nonce_withdraw nc ix p
        else if sub = 3 then nonce_authorize nc ix p
        else Inl ''Nonce: unknown sub-opcode'')"

end
