(* ===== verification/Execution_Properties.thy ===== *)
theory Execution_Properties
  imports Execution
begin

text \<open>
  What executing a block does to the ledger: frames (speculative execution writes the batch
  and nothing else), conservation of the supply, the cost of a failed transaction, replay
  protection, and the two ways around it that the code leaves open.
\<close>

section \<open>The contract of the instruction handlers\<close>

text \<open>
  A preorder on processors that every handler respects on good states and good instructions is
  respected by the whole instruction loop.
\<close>

locale handler_contract =
  fixes env :: exec_env and good :: "tx_processor \<Rightarrow> bool" and good_ix :: "instruction \<Rightarrow> bool"
    and rel :: "tx_processor \<Rightarrow> tx_processor \<Rightarrow> bool"
  assumes refl: "good p \<Longrightarrow> rel p p"
    and trans: "rel p q \<Longrightarrow> rel q r \<Longrightarrow> rel p r"
    and keeps: "good p \<Longrightarrow> rel p q \<Longrightarrow> good q"
    and handler: "execute_instruction env ix p = Inr (q, used) \<Longrightarrow> good_ix ix \<Longrightarrow> good p \<Longrightarrow> rel p q"
begin

lemma instruction_loop:
  "execute_instructions env native budget ixs w cu p = Exec_done q cu' \<Longrightarrow> \<forall>ix \<in> set ixs. good_ix ix \<Longrightarrow> good p \<Longrightarrow> rel p q"
proof (induction ixs arbitrary: w cu p)
  case (Cons ix ixs)
  from Cons.prems(1) obtain p1 u w' cu1 where p1: "execute_instruction env ix p = Inr (p1, u)"
    "execute_instructions env native budget ixs w' cu1 p1 = Exec_done q cu'"
    by (auto simp: Let_def split: sum.splits prod.splits if_splits)
  have c: "rel p p1" using p1(1) Cons.prems by (auto intro: handler)
  from Cons.IH [OF p1(2) _ keeps [OF Cons.prems(3) c]] Cons.prems(2) c show ?case by (auto intro: trans)
qed (simp add: refl)

end

section \<open>Frames\<close>

text \<open>
  Inside an active batch an operation leaves the committed store, the mode and the recorded
  transactions alone.
\<close>

definition framed :: "tx_processor \<Rightarrow> tx_processor \<Rightarrow> bool" where
  "framed p q \<longleftrightarrow> tp_state q = tp_state p \<and> tp_speculative q = tp_speculative p \<and>
     (\<exists>b b'. tp_batch p = Some b \<and> tp_batch q = Some b' \<and> bt_transactions b' = bt_transactions b)"

named_theorems frames

lemma framed_refl [frames]: "tp_batch p = Some b \<Longrightarrow> framed p p"
  by (simp add: framed_def)

lemma framed_trans: "framed p q \<Longrightarrow> framed q r \<Longrightarrow> framed p r"
  by (auto simp: framed_def)

lemma framed_batch: "framed p q \<Longrightarrow> \<exists>b. tp_batch q = Some b"
  by (auto simp: framed_def)

lemma framed_put [frames]: "framed p q \<Longrightarrow> framed p (b_put_account k a q)"
  by (auto simp: framed_def b_put_account_def)

lemma framed_burn [frames]: "framed p q \<Longrightarrow> framed p (b_add_burned n q)"
  by (auto simp: framed_def b_add_burned_def)

lemma framed_effect [frames]: "framed p q \<Longrightarrow> framed p (apply_effect e q)"
  by (auto simp: framed_def apply_effect_def)

lemma framed_charge [frames]:
  assumes "charge_fee_with_priority_in_batch payer fee prio q = Inr r" "framed p q"
  shows "framed p r"
proof -
  obtain burn tt where "fee_split (st_fee_config (tp_state q)) fee prio = (burn, tt)" by force
  with assms show ?thesis
    by (auto simp: charge_fee_with_priority_in_batch_def rbind_eq_Inr Let_def intro!: frames split: if_splits)
qed

lemma framed_rent_loop:
  "rent_loop slot rate ks c q = Inr (c', r) \<Longrightarrow> framed p q \<Longrightarrow> framed p r"
proof (induction ks arbitrary: c q)
  case (Cons k ks)
  have "framed p (case w of Some a \<Rightarrow> b_put_account k a q | None \<Rightarrow> q)" for w
    using Cons.prems(2) by (simp add: framed_put split: option.splits)
  with Cons show ?case by (auto split: option.splits sum.splits prod.splits)
qed simp

lemma framed_rent [frames]: "apply_rent ks q = Inr r \<Longrightarrow> framed p q \<Longrightarrow> framed p r"
  by (auto simp: apply_rent_def rbind_eq_Inr Let_def intro: frames framed_rent_loop split: if_splits)

lemma framed_transfer [frames]: "b_transfer f t n q = Inr r \<Longrightarrow> framed p q \<Longrightarrow> framed p r"
  by (cases "f = t") (simp add: b_transfer_def, erule b_transfer_cases, simp_all add: frames)

lemma framed_nonce [frames]: "system_nonce nc ix q = Inr r \<Longrightarrow> framed p q \<Longrightarrow> framed p r"
proof -
  assume q: "framed p q" and run: "system_nonce nc ix q = Inr r"
  have "framed p r" if "nonce_initialize nc ix q = Inr r"
    using that q framed_put framed_transfer by (force simp: nonce_initialize_def Let_def rbind_eq_Inr split: if_splits)
  moreover have "framed p r" if "nonce_advance nc ix q = Inr r"
    using that q framed_put by (force simp: nonce_advance_def Let_def rbind_eq_Inr split: if_splits)
  moreover have "framed p r" if "nonce_withdraw nc ix q = Inr r"
    using that q framed_put framed_transfer by (force simp: nonce_withdraw_def Let_def rbind_eq_Inr split: if_splits)
  moreover have "framed p r" if "nonce_authorize nc ix q = Inr r"
    using that q framed_put by (force simp: nonce_authorize_def Let_def rbind_eq_Inr split: if_splits)
  ultimately show ?thesis using run by (simp add: system_nonce_def Let_def split: if_splits)
qed

lemma framed_instruction [frames]:
  assumes "execute_instruction env ix q = Inr (r, cu)" "framed p q"
  shows "framed p r"
proof -
  have "framed p r" if "system_transfer ix q = Inr r" for r
    using that assms(2) by (auto simp: system_transfer_def Let_def intro: frames split: if_splits)
  moreover have "framed p r" if "system_create_account ix q = Inr r" for r
    using that assms(2) by (auto simp: system_create_account_def intro: frames split: if_splits list.splits)
  ultimately have "framed p r" if "execute_system_program env ix q = Inr r" for r
    using that assms(2) by (auto simp: execute_system_program_def rbind_eq_Inr intro: frames
        split: if_splits list.splits option.splits)
  with assms show ?thesis by (auto simp: execute_instruction_def rbind_eq_Inr intro: frames split: if_splits)
qed

interpretation frame: handler_contract env "\<lambda>p. tp_batch p \<noteq> None" "\<lambda>_. True" framed for env
  by unfold_locales (auto intro: framed_refl framed_trans framed_instruction dest: framed_batch)

lemma framed_instructions [frames]:
  "execute_instructions env native budget ixs w cu q = Exec_done r cu' \<Longrightarrow> framed p q \<Longrightarrow> framed p r"
  using frame.instruction_loop [of env native budget ixs w cu q r cu'] framed_batch [of p q] by (auto intro: framed_trans)

lemma framed_evm [frames]: "framed p q \<Longrightarrow> framed p (apply_evm_changes us q)"
proof (induction us arbitrary: q)
  case (Cons u us)
  then show ?case by (cases u) (simp add: apply_evm_changes_def Let_def frames)
qed (simp add: apply_evm_changes_def)

section \<open>Conservation\<close>

definition conserved :: "tx_processor \<Rightarrow> tx_processor \<Rightarrow> bool" where
  "conserved p q \<longleftrightarrow> tp_ok q \<and> total_supply q = total_supply p"

named_theorems conserve

lemma conserved_refl [conserve]: "tp_ok p \<Longrightarrow> conserved p p"
  by (simp add: conserved_def)

lemma conserved_trans: "conserved p q \<Longrightarrow> conserved q r \<Longrightarrow> conserved p r"
  by (simp add: conserved_def)

lemma conserved_rewrite:
  assumes "tp_ok q" "b_get_account q k = Some a" "acc_ok a'" "ac_spores a' = ac_spores a"
  shows "conserved q (b_put_account k a' q)"
  using supply_put [of k a' q] assms by (simp add: conserved_def tp_ok_put balance_def)

lemma conserved_transfer [conserve]:
  assumes "b_transfer f t n q = Inr r" "tp_ok q"
  shows "conserved q r"
proof (cases "f = t")
  case False
  from b_transfer_cases [OF assms(1) False] obtain a b where c: "b_get_account q f = Some a" "n \<le> ac_spores a"
    "acc_ok a \<Longrightarrow> acc_ok (a\<lparr>ac_spendable := ac_spendable a - n, ac_spores := ac_spores a - n\<rparr>)"
    "ac_spores b = balance q t + n" "tp_ok q \<Longrightarrow> acc_ok b"
    "r = b_put_account t b (b_put_account f (a\<lparr>ac_spendable := ac_spendable a - n, ac_spores := ac_spores a - n\<rparr>) q)"
    by blast
  let ?a = "a\<lparr>ac_spendable := ac_spendable a - n, ac_spores := ac_spores a - n\<rparr>"
  have "acc_ok ?a" "acc_ok b" using c(3,5) b_get_ok [OF assms(2) c(1)] assms(2) by blast+
  from supply_move [OF assms(2) False this _ c(4)] c(1,2,6) show ?thesis
    by (simp add: conserved_def balance_def)
qed (use assms in \<open>simp add: b_transfer_def conserved_def\<close>)

lemma acc_ok_fields [simp]:
  "acc_ok (a\<lparr>ac_data := d\<rparr>) = acc_ok a" "acc_ok (a\<lparr>ac_owner := o'\<rparr>) = acc_ok a"
  by (simp_all add: acc_ok_def)

lemma conserved_new [conserve]:
  assumes "tp_ok q" "b_get_account q k = None"
  shows "conserved q (b_put_account k (account_new 0 k) q)"
  using supply_put [of k "account_new 0 k" q] assms
  by (simp add: conserved_def tp_ok_put balance_def account_new_spores)

lemma conserved_nonce [conserve]:
  assumes "system_nonce nc ix q = Inr r" "tp_ok q"
  shows "conserved q r"
proof -
  have data: "conserved q (b_put_account k (a\<lparr>ac_data := d\<rparr>) q)" if "b_get_account q k = Some a" for k a d
    using conserved_rewrite [OF assms(2) that] b_get_ok [OF assms(2) that] by simp
  have "conserved q r" if "nonce_initialize nc ix q = Inr r"
  proof -
    from that obtain f k n q1 a d where *: "b_transfer f k n q = Inr q1" "b_get_account q1 k = Some a"
      "r = b_put_account k (a\<lparr>ac_data := d, ac_owner := SYSTEM_PROGRAM_ID\<rparr>) q1"
      by (force simp: nonce_initialize_def Let_def rbind_eq_Inr split: if_splits)
    have q1: "conserved q q1" by (rule conserved_transfer [OF *(1) assms(2)])
    then have "tp_ok q1" by (simp add: conserved_def)
    from q1 conserved_rewrite [OF this *(2)] b_get_ok [OF this *(2)] *(3) show ?thesis
      by (auto intro: conserved_trans)
  qed
  moreover have "conserved q r" if "nonce_advance nc ix q = Inr r"
    using that by (auto simp: nonce_advance_def Let_def rbind_eq_Inr intro: data split: if_splits)
  moreover have "conserved q r" if "nonce_authorize nc ix q = Inr r"
    using that by (auto simp: nonce_authorize_def Let_def rbind_eq_Inr intro: data split: if_splits)
  moreover have "conserved q r" if w: "nonce_withdraw nc ix q = Inr r"
  proof -
    from w obtain f k n q1 where *: "b_transfer k f n q = Inr q1"
      "r = q1 \<or> r = b_put_account k ((case b_get_account q1 k of Some a \<Rightarrow> a | None \<Rightarrow> account_new 0 k)\<lparr>ac_data := []\<rparr>) q1"
      by (force simp: nonce_withdraw_def Let_def rbind_eq_Inr split: if_splits)
    have q1: "conserved q q1" by (rule conserved_transfer [OF *(1) assms(2)])
    then have ok: "tp_ok q1" by (simp add: conserved_def)
    let ?a = "(case b_get_account q1 k of Some a \<Rightarrow> a | None \<Rightarrow> account_new 0 k)\<lparr>ac_data := []\<rparr>"
    have "conserved q1 (b_put_account k ?a q1)"
      using supply_put [of k ?a q1] get_or_new_ok [OF ok, of k] ok by (simp add: conserved_def tp_ok_put)
    with q1 *(2) show ?thesis by (auto intro: conserved_trans)
  qed
  ultimately show ?thesis using assms(1) by (simp add: system_nonce_def Let_def split: if_splits)
qed

text \<open>Transactions all of whose instructions are modelled in full: transfers, account creation and nonces.\<close>

definition plain_ix :: "instruction \<Rightarrow> bool" where
  "plain_ix ix \<longleftrightarrow> ix_program_id ix = SYSTEM_PROGRAM_ID \<and> (\<exists>k \<in> {0, 1, 2, 3, 4, 5, 28}. opcode ix = Some k)"

definition plain_tx :: "transaction \<Rightarrow> bool" where
  "plain_tx tx \<longleftrightarrow> (\<forall>ix \<in> set (msg_instructions (tx_message tx)). plain_ix ix)"

lemma conserved_instruction [conserve]:
  assumes "execute_instruction env ix q = Inr (r, cu)" "plain_ix ix" "tp_ok q"
  shows "conserved q r"
proof -
  have t: "conserved q r" if "system_transfer ix q = Inr r"
    using that conserved_transfer assms(3) by (auto simp: system_transfer_def Let_def split: if_splits)
  have c: "conserved q r" if "system_create_account ix q = Inr r"
    using that conserved_new assms(3) by (auto simp: system_create_account_def split: if_splits list.splits)
  have run: "execute_system_program env ix q = Inr r"
    using assms(1,2) by (auto simp: execute_instruction_def rbind_eq_Inr plain_ix_def)
  from assms(2) obtain k where k: "opcode ix = Some k" "k \<in> {0, 1, 2, 3, 4, 5, 28}" by (auto simp: plain_ix_def)
  show ?thesis
  proof (cases "k = 28")
    case True
    with run k(1) have "system_nonce (xe_nonce_codec env) ix q = Inr r" by (simp add: execute_system_program_def)
    then show ?thesis using assms(3) by (rule conserved_nonce)
  next
    case False
    with run k have "system_transfer ix q = Inr r \<or> system_create_account ix q = Inr r"
      by (auto simp: execute_system_program_def split: list.splits if_splits)
    then show ?thesis using t c by blast
  qed
qed

interpretation conservation: handler_contract env tp_ok plain_ix conserved for env
  by unfold_locales (auto simp: conserved_def dest: conserved_instruction)

lemmas conserved_instructions [conserve] = conservation.instruction_loop

section \<open>The outcome of a native transaction\<close>

text \<open>
  A speculative run ends in one of three ways: it succeeds with a batch that records it, it
  fails with a receipt and without a batch, or it is not eligible for a receipt at all.
\<close>

definition native_outcome :: "exec_env \<Rightarrow> transaction \<Rightarrow> tx_processor \<Rightarrow> u64 \<Rightarrow> tx_processor \<Rightarrow> tx_result \<Rightarrow> bool" where
  "native_outcome env tx p fee q r \<longleftrightarrow> tp_state q = tp_state p \<and> tp_speculative q \<and>
     (if res_success r then res_receipt_eligible r \<and> (\<exists>q1. framed p q1 \<and> q = put_transaction env tx q1)
      else res_receipt_eligible r \<longrightarrow> tp_batch q = None \<and> res_fee_paid r \<le> fee)"

lemma fail_transaction_spec:
  "tp_speculative p \<Longrightarrow> fail_transaction env tx st payer premium p = rollback_batch p"
  by (simp add: fail_transaction_def rollback_batch_def)

lemma result_simps [simp]:
  "res_success (make_result ok fee e cu) = ok" "res_receipt_eligible (make_result ok fee e cu)"
  "res_fee_paid (make_result ok fee e cu) = fee" "res_error (make_result ok fee e cu) = e"
  "\<not> res_success (make_invalid_result m cu)" "\<not> res_receipt_eligible (make_invalid_result m cu)"
  by (simp_all add: make_result_def make_invalid_result_def)

lemma outcome_rollback:
  "framed p q \<Longrightarrow> tp_speculative p \<Longrightarrow> fee' \<le> fee \<Longrightarrow>
     native_outcome env tx p fee (rollback_batch q) (make_result False fee' e cu)"
  "framed p q \<Longrightarrow> tp_speculative p \<Longrightarrow> native_outcome env tx p fee (rollback_batch q) (make_invalid_result m cu)"
  by (auto simp: native_outcome_def framed_def rollback_batch_def)

lemma put_transaction_simps [simp]:
  "tp_batch q = Some b \<Longrightarrow> tp_state (put_transaction env tx q) = tp_state q"
  "tp_speculative (put_transaction env tx q) = tp_speculative q"
  by (auto simp: put_transaction_def Let_def split: option.splits)

lemma framed_put_transaction:
  assumes "framed p q" "tp_batch p = Some b"
  shows "\<exists>b'. tp_batch (put_transaction env tx q) = Some b' \<and> tp_state (put_transaction env tx q) = tp_state p \<and>
    bt_transactions b' = insert (transaction_hash (xe_crypto env) (xe_codec env) tx) (bt_transactions b)"
  using assms by (auto simp: framed_def put_transaction_def Let_def)

lemma finish_native_outcome:
  assumes "finish_native env tx payer fee prio premium deferred cu q = (q', r)" "framed p q" "tp_speculative p"
  shows "native_outcome env tx p fee q' r"
proof -
  let ?charge = "if deferred then charge_fee_with_priority_in_batch payer fee prio q else Inr q"
  have spec: "tp_speculative q" using assms(2,3) by (simp add: framed_def)
  show ?thesis
  proof (cases ?charge)
    case (Inl e)
    with assms outcome_rollback(2) spec show ?thesis by (auto simp: finish_native_def fail_transaction_spec)
  next
    case (Inr q1)
    have q1: "framed p q1" using Inr assms(2) framed_charge by (auto split: if_splits)
    then have spec1: "tp_speculative q1" using assms(3) by (simp add: framed_def)
    from framed_batch [OF q1] obtain b where b: "tp_batch q1 = Some b" by blast
    have ok: "native_outcome env tx p fee (put_transaction env tx q1) (make_result True fee None cu)"
      using q1 b assms(3) by (auto simp: native_outcome_def framed_def)
    show ?thesis
      using assms(1) unfolding finish_native_def Inr
      by (auto simp: Let_def spec1 fail_transaction_spec saturating_sub_def intro!: outcome_rollback [OF q1 assms(3)] ok
          split: sum.splits option.splits if_splits)
  qed
qed

lemma run_native_outcome:
  assumes "run_native env tx payer fee prio premium deferred q = (q', r)" "framed p q" "tp_speculative p"
  shows "native_outcome env tx p fee q' r"
proof -
  let ?ixs = "msg_instructions (tx_message tx)" and ?cu = "compute_units_for_tx tx"
    and ?budget = "effective_compute_budget (tx_message tx)"
  have spec: "tp_speculative x" if "framed p x" for x using that assms(3) by (simp add: framed_def)
  show ?thesis
  proof (cases "apply_rent (remdups (concat (map ix_accounts ?ixs))) q")
    case (Inl e)
    with assms(1) have "q' = rollback_batch q" "r = make_result False fee (Some (''Rent error: '' @ e)) 0"
      by (simp_all add: run_native_def Let_def fail_transaction_spec spec [OF assms(2)])
    with outcome_rollback(1) [OF assms(2,3)] show ?thesis by simp
  next
    case (Inr q1)
    have q1: "framed p q1" by (rule framed_rent [OF Inr assms(2)])
    note rolled = outcome_rollback(1) [OF q1 assms(3)]
    show ?thesis
    proof (cases "execute_instructions env ?cu ?budget ?ixs 0 ?cu q1")
      case (Exec_done q2 cu)
      note fin = finish_native_outcome [OF _ framed_instructions [OF Exec_done q1] assms(3)]
      from assms(1) Inr Exec_done show ?thesis
        by (auto simp: run_native_def Let_def fail_transaction_spec spec [OF q1] intro!: rolled intro: fin split: if_splits)
    qed (use assms(1) Inr in \<open>auto simp: run_native_def Let_def fail_transaction_spec spec [OF q1] saturating_sub_def
           intro!: rolled split: if_splits\<close>)
  qed
qed

definition native_fee :: "exec_env \<Rightarrow> transaction \<Rightarrow> store \<Rightarrow> u64" where
  "native_fee env tx s = saturating_add (compute_base_fee (xe_ix_codec env) tx (st_fee_config s)) (compute_priority_fee tx)"

text \<open>An execution that reaches the instructions ran the fee charge on the batch it was given.\<close>

lemma process_native_cases:
  assumes "process_native env tx slot p = (q, r)" "tp_speculative p" "tp_batch p = Some b"
  obtains (invalid) m where "q = p" "r = make_invalid_result m 0"
  | (run) q1 d where "run_native env tx (sender tx) (native_fee env tx (tp_state p)) (compute_priority_fee tx)
        (compute_premium_fee tx (st_fee_config (tp_state p))) d q1 = (q, r)"
      "framed p q1" "q1 = p \<or> charge_fee_with_priority_in_batch (sender tx) (native_fee env tx (tp_state p))
        (compute_priority_fee tx) p = Inr q1"
proof -
  let ?fee = "native_fee env tx (tp_state p)" and ?prio = "compute_priority_fee tx"
  let ?d = "should_defer_mossstake_claim_fee env tx (sender tx) ?fee p"
  let ?c = "if ?fee > 0 \<and> \<not> ?d then charge_fee_with_priority (sender tx) ?fee ?prio p else Inr p"
  have charge: "charge_fee_with_priority k f g p = charge_fee_with_priority_in_batch k f g p" for k f g
    using assms(2) by (simp add: charge_fee_with_priority_def)
  show thesis
  proof (cases "verify_transaction_signatures env (tp_state p) tx slot")
    case (Inl e)
    with assms(1) show thesis by (intro invalid [of e]) (simp_all add: process_native_def)
  next
    case v: (Inr u)
    show thesis
    proof (cases ?c)
      case (Inl e)
      from assms(1) show thesis
        unfolding process_native_def Let_def native_fee_def [symmetric] v Inl
        by (intro invalid [of "''Fee error: '' @ e"]) simp_all
    next
      case (Inr q1)
      have f: "framed p q1" "q1 = p \<or> charge_fee_with_priority_in_batch (sender tx) ?fee ?prio p = Inr q1"
        using Inr framed_refl [OF assms(3)] framed_charge [OF _ framed_refl [OF assms(3)]] by (auto simp: charge split: if_splits)
      from f(1) assms(2) have s: "tp_speculative q1" "tp_batch q1 \<noteq> None" by (auto simp: framed_def)
      from assms(1) s have "run_native env tx (sender tx) ?fee ?prio
          (compute_premium_fee tx (st_fee_config (tp_state p))) ?d q1 = (q, r)"
        unfolding process_native_def Let_def native_fee_def [symmetric] v Inr by simp
      from run [OF this f] show thesis .
    qed
  qed
qed

lemma invalid_outcome:
  "tp_speculative p \<Longrightarrow> native_outcome env tx p fee p (make_invalid_result m cu)"
  by (simp add: native_outcome_def)

lemma process_native_outcome:
  assumes "process_native env tx slot p = (q, r)" "tp_speculative p" "tp_batch p = Some b"
  shows "native_outcome env tx p (native_fee env tx (tp_state p)) q r"
  using assms by (rule process_native_cases) (auto intro: invalid_outcome [OF assms(2)] run_native_outcome [OF _ _ assms(2)])

lemma process_inner_cases:
  assumes "process_transaction_inner env tx hs slot p = (q, r)"
  shows "(\<exists>m. q = p \<and> r = make_invalid_result m 0) \<or>
    \<not> already_processed (transaction_hash (xe_crypto env) (xe_codec env) tx) p \<and>
    (if is_evm_instruction tx then process_evm_transaction env tx p = (q, r) else process_native env tx slot p = (q, r))"
  using assms by (auto simp: process_transaction_inner_def split: sum.splits if_splits)

lemma process_inner_outcome:
  assumes "process_transaction_inner env tx hs slot p = (q, r)" "tp_speculative p" "tp_batch p = Some b"
    and "\<not> is_evm_instruction tx"
  shows "native_outcome env tx p (native_fee env tx (tp_state p)) q r"
  using process_inner_cases [OF assms(1)] process_native_outcome [OF _ assms(2,3), of env tx slot q r]
    invalid_outcome [OF assms(2)] assms(4) by auto

section \<open>The cost of a failed transaction\<close>

abbreviation pending :: "store \<Rightarrow> state_batch \<Rightarrow> tx_processor" where
  "pending s b \<equiv> \<lparr>tp_state = s, tp_batch = Some b, tp_speculative = True\<rparr>"

lemma b_get_put_transaction [simp]: "b_get_account (put_transaction env tx p) k = b_get_account p k"
  by (simp add: put_transaction_def Let_def b_get_account_def batch_get_account_def state_get_account_def split: option.splits)

lemma framed_get_put:
  "framed p x \<Longrightarrow> b_get_account (b_put_account k a x) k' = (if k' = k then Some a else b_get_account x k')"
  by (auto simp: framed_def b_put_account_def b_get_account_def batch_get_account_def)

lemma b_get_burned [simp]: "b_get_account (b_add_burned n x) k = b_get_account x k"
  by (simp add: b_add_burned_def b_get_account_def batch_get_account_def state_get_account_def split: option.splits)

lemma charge_other_accounts:
  assumes "charge_fee_with_priority_in_batch payer fee prio p = Inr q" "tp_batch p = Some b"
  shows "(\<forall>k. k \<noteq> payer \<longrightarrow> st_treasury_pubkey (tp_state p) \<noteq> Some k \<longrightarrow> b_get_account q k = b_get_account p k) \<and>
    (\<exists>a. b_get_account p payer = Some a \<and> fee \<le> ac_spendable a \<and>
      (st_treasury_pubkey (tp_state p) \<noteq> Some payer \<longrightarrow>
        b_get_account q payer = Some (a\<lparr>ac_spendable := ac_spendable a - fee, ac_spores := ac_spores a - fee\<rparr>)))"
proof -
  obtain burn tt where split: "fee_split (st_fee_config (tp_state p)) fee prio = (burn, tt)" by force
  from assms(1) obtain a a1 where a: "b_get_account p payer = Some a" "deduct_spendable fee a = Inr a1"
    by (auto simp: charge_fee_with_priority_in_batch_def rbind_eq_Inr)
  let ?p1 = "b_put_account payer a1 p"
  have f: "framed p p" "framed p (b_put_account payer x p)" for x using framed_refl [OF assms(2)] by (simp_all add: frames)
  have st: "st_treasury_pubkey (tp_state ?p1) = st_treasury_pubkey (tp_state p)" using f(2) [of a1] by (simp add: framed_def)
  have a1: "a1 = a\<lparr>ac_spendable := ac_spendable a - fee, ac_spores := ac_spores a - fee\<rparr>" "fee \<le> ac_spendable a"
    using deduct_spendable_Inr [OF a(2)] by blast+
  from assms(1) a split st have "q = b_add_burned burn ?p1 \<or>
      (\<exists>t b. st_treasury_pubkey (tp_state p) = Some t \<and> q = b_add_burned burn (b_put_account t b ?p1))"
    by (auto simp: charge_fee_with_priority_in_batch_def Let_def rbind_eq_Inr split: if_splits)
  then show ?thesis using a(1) a1 by (auto simp: framed_get_put [OF f(1)] framed_get_put [OF f(2)])
qed

lemma failed_step:
  assumes "speculative_step env hs slot tx (s, b) = ((s', b'), r)" "\<not> res_success r" "\<not> is_evm_instruction tx"
    and "res_receipt_eligible r"
  obtains p1 where "s' = s" "res_fee_paid r \<le> native_fee env tx s" "framed (pending s b) p1"
    "(if 0 < res_fee_paid r then charge_fee_with_priority_in_batch (sender tx) (res_fee_paid r)
        (min (compute_priority_fee tx) (res_fee_paid r)) (pending s b) else Inr (pending s b)) = Inr p1"
    "put_transaction env tx p1 = pending s b'"
proof -
  let ?p = "pending s b"
  obtain q r0 where run: "process_transaction_inner env tx hs slot ?p = (q, r0)" by force
  have out: "native_outcome env tx ?p (native_fee env tx s) q r0" using process_inner_outcome [OF run _ _ assms(3)] by simp
  then have s: "tp_state q = s" by (simp add: native_outcome_def)
  with assms(1,4) run have r: "r0 = r" "s' = s" and rec: "receipt_batch env tx r b q = Inr b'"
    by (auto simp: speculative_step_def split: if_splits sum.splits)
  with out assms(2,4) have q: "tp_batch q = None" "res_fee_paid r \<le> native_fee env tx s" "tp_speculative q"
    by (simp_all add: native_outcome_def)
  have qp: "q\<lparr>tp_batch := Some b\<rparr> = ?p" using s q(3) by simp
  let ?charge = "if 0 < res_fee_paid r then charge_fee_with_priority_in_batch (sender tx) (res_fee_paid r)
      (min (compute_priority_fee tx) (res_fee_paid r)) ?p else Inr ?p"
  from rec q(1) assms(2) obtain p1 where p1: "?charge = Inr p1" "tp_batch (put_transaction env tx p1) = Some b'"
    by (auto simp: receipt_batch_def Let_def rbind_eq_Inr qp ok_or_def split: if_splits option.splits)
  have f: "framed ?p p1" using p1(1) framed_refl [of ?p b] framed_charge by (auto split: if_splits)
  then have "put_transaction env tx p1 = pending s b'" using p1(2) by (auto simp: framed_def put_transaction_def Let_def)
  from that [OF r(2) q(2) f p1(1) this] show thesis .
qed

lemma ineligible_step:
  assumes "speculative_step env hs slot tx (s, b) = ((s', b'), r)" "\<not> res_receipt_eligible r" "\<not> is_evm_instruction tx"
  shows "s' = s \<and> b' = b"
proof -
  obtain q r0 where run: "process_transaction_inner env tx hs slot (pending s b) = (q, r0)" by force
  with process_inner_outcome [OF run _ _ assms(3)] have "tp_state q = s" by (simp add: native_outcome_def)
  with assms(1,2) run show ?thesis by (auto simp: speculative_step_def split: if_splits sum.splits)
qed


section \<open>Replay protection\<close>

lemma process_evm_cases:
  assumes "process_evm_transaction env tx p = (q, r)"
  shows "(\<exists>m. q = p \<and> r = make_invalid_result m 0) \<or> (\<exists>payer price run. settle_evm env tx payer price run p = (q, r))"
  using assms by (auto simp: process_evm_transaction_def split: list.splits sum.splits option.splits if_splits)

lemma settle_evm_outcome:
  assumes "settle_evm env tx payer price run p = (q, r)" "tp_speculative p" "tp_batch p = Some b"
  shows "tp_state q = tp_state p \<and> (res_receipt_eligible r \<longrightarrow>
    (\<exists>q1. framed p q1 \<and> q = apply_evm_changes (er_native_updates run) (put_transaction env tx q1)))"
proof -
  let ?fee = "u256_to_spores (price * er_gas_used run mod 2 ^ 256)"
  let ?c = "if ?fee > 0 then charge_fee_with_priority payer ?fee 0 p else Inr p"
  show ?thesis
  proof (cases ?c)
    case (Inl e)
    from assms(1) show ?thesis unfolding settle_evm_def Let_def Inl by auto
  next
    case (Inr q1)
    have q1: "framed p q1"
      using Inr framed_refl [OF assms(3)] framed_charge [OF _ framed_refl [OF assms(3)]] assms(2)
      by (auto simp: charge_fee_with_priority_def split: if_splits)
    from framed_put_transaction [OF q1 assms(3)] obtain b'
      where b': "tp_batch (put_transaction env tx q1) = Some b'" "tp_state (put_transaction env tx q1) = tp_state p" by blast
    let ?q = "apply_evm_changes (er_native_updates run) (put_transaction env tx q1)"
    have s: "tp_speculative q1" "tp_batch q1 \<noteq> None" "tp_speculative ?q" "tp_state ?q = tp_state p"
      using q1 assms(2) framed_evm [OF framed_refl [OF b'(1)]] b'(2) by (auto simp: framed_def)
    from assms(1) have "q = ?q" unfolding settle_evm_def Let_def Inr using s by simp
    with q1 s(4) show ?thesis by blast
  qed
qed

text \<open>Whatever the handlers and the EVM do, an eligible run either dropped its batch or recorded itself in it.\<close>

lemma process_inner_batch:
  assumes "process_transaction_inner env tx hs slot p = (q, r)" "tp_speculative p" "tp_batch p = Some b"
  shows "tp_state q = tp_state p \<and> (res_receipt_eligible r \<longrightarrow>
    \<not> already_processed (transaction_hash (xe_crypto env) (xe_codec env) tx) p \<and>
    (\<forall>b'. tp_batch q = Some b' \<longrightarrow>
      bt_transactions b' = insert (transaction_hash (xe_crypto env) (xe_codec env) tx) (bt_transactions b)))"
proof (cases "\<exists>m. q = p \<and> r = make_invalid_result m 0")
  case False
  note cases = process_inner_cases [OF assms(1)]
  show ?thesis
  proof (cases "is_evm_instruction tx")
    case True
    with cases False process_evm_cases [of env tx p q r] obtain payer price run
      where "settle_evm env tx payer price run p = (q, r)" by auto
    note out = settle_evm_outcome [OF this assms(2,3)]
    have "bt_transactions b' = insert (transaction_hash (xe_crypto env) (xe_codec env) tx) (bt_transactions b)"
      if el: "res_receipt_eligible r" and b': "tp_batch q = Some b'" for b'
    proof -
      from out el obtain q1 where q1: "framed p q1" "q = apply_evm_changes (er_native_updates run) (put_transaction env tx q1)"
        by blast
      from framed_put_transaction [OF q1(1) assms(3)] obtain b1 where b1: "tp_batch (put_transaction env tx q1) = Some b1"
        "bt_transactions b1 = insert (transaction_hash (xe_crypto env) (xe_codec env) tx) (bt_transactions b)" by blast
      from framed_evm [OF framed_refl [OF b1(1)], of "er_native_updates run"] q1(2) b' b1 show ?thesis
        by (auto simp: framed_def)
    qed
    with out cases False show ?thesis by blast
  next
    case evm: False
    note out = process_inner_outcome [OF assms evm]
    have "bt_transactions b' = insert (transaction_hash (xe_crypto env) (xe_codec env) tx) (bt_transactions b)"
      if "res_receipt_eligible r" "tp_batch q = Some b'" for b'
      using that out framed_put_transaction [OF _ assms(3), of _ env tx] by (force simp: native_outcome_def split: if_splits)
    with out cases False show ?thesis by (auto simp: native_outcome_def)
  qed
qed (use assms in auto)

lemma step_records:
  assumes "speculative_step env hs slot tx (s, b) = ((s', b'), r)"
  defines "h \<equiv> transaction_hash (xe_crypto env) (xe_codec env) tx"
  shows "s' = s \<and> (if res_receipt_eligible r then h \<notin> bt_transactions b \<and> h \<notin> st_transactions s \<and>
      bt_transactions b' = insert h (bt_transactions b) else b' = b)"
proof -
  let ?p = "pending s b"
  obtain q r0 where run: "process_transaction_inner env tx hs slot ?p = (q, r0)" by force
  note out = process_inner_batch [OF run, simplified, folded h_def]
  show ?thesis
  proof (cases "res_receipt_eligible r")
    case False
    with assms(1) run out show ?thesis by (auto simp: speculative_step_def split: if_splits sum.splits)
  next
    case True
    with assms(1) run out have r: "r0 = r" "s' = s" and rec: "receipt_batch env tx r b q = Inr b'"
      by (auto simp: speculative_step_def split: if_splits sum.splits)
    from True r(1) out have new: "h \<notin> bt_transactions b" "h \<notin> st_transactions s" by (auto simp: already_processed_def)
    from rec obtain b0 c k f g where b0: "b0 = b \<or> tp_batch q = Some b0"
      and fee: "rbind (if c then charge_fee_with_priority_in_batch k f g (q\<lparr>tp_batch := Some b0\<rparr>) else Inr (q\<lparr>tp_batch := Some b0\<rparr>))
        (\<lambda>p. ok_or (tp_batch (put_transaction env tx p)) ''receipt persistence lost its state batch'') = Inr b'"
      unfolding receipt_batch_def Let_def by (cases "tp_batch q") (fastforce split: if_splits)+
    from fee obtain p1 where p1:
      "(if c then charge_fee_with_priority_in_batch k f g (q\<lparr>tp_batch := Some b0\<rparr>) else Inr (q\<lparr>tp_batch := Some b0\<rparr>)) = Inr p1"
      "tp_batch (put_transaction env tx p1) = Some b'"
      by (auto simp: rbind_eq_Inr ok_or_def split: option.splits)
    have "framed (q\<lparr>tp_batch := Some b0\<rparr>) p1"
      using p1(1) framed_refl [of "q\<lparr>tp_batch := Some b0\<rparr>" b0] framed_charge by (auto split: if_splits)
    from framed_put_transaction [OF this, of b0 env tx] p1(2) have "bt_transactions b' = insert h (bt_transactions b0)"
      by (simp add: h_def)
    moreover from b0 out True r(1) have "insert h (bt_transactions b0) = insert h (bt_transactions b)" by auto
    ultimately show ?thesis using True r(2) new by simp
  qed
qed

abbreviation txid :: "exec_env \<Rightarrow> transaction \<Rightarrow> hash" where
  "txid env tx \<equiv> transaction_hash (xe_crypto env) (xe_codec env) tx"

lemma loop_records:
  assumes "speculative_loop env hs slot txs (s, b) = ((s', b'), rs)"
  shows "s' = s \<and> length rs = length txs \<and> bt_transactions b \<subseteq> bt_transactions b' \<and>
    (\<forall>i < length txs. res_receipt_eligible (rs ! i) \<longrightarrow> txid env (txs ! i) \<notin> st_transactions s \<and>
      txid env (txs ! i) \<notin> bt_transactions b \<and> txid env (txs ! i) \<in> bt_transactions b' \<and>
      (\<forall>j < i. res_receipt_eligible (rs ! j) \<longrightarrow> txid env (txs ! j) \<noteq> txid env (txs ! i)))"
  using assms
proof (induction txs arbitrary: b b' rs)
  case (Cons tx txs)
  obtain s1 b1 r where step: "speculative_step env hs slot tx (s, b) = ((s1, b1), r)" by (metis prod.collapse)
  note rec = step_records [OF step]
  from Cons.prems step rec obtain rs1 where loop: "speculative_loop env hs slot txs (s, b1) = ((s', b'), rs1)" "rs = r # rs1"
    by (auto split: prod.splits)
  note ih = Cons.IH [OF loop(1)]
  have sub: "bt_transactions b \<subseteq> bt_transactions b1" using rec by (auto split: if_splits)
  have first: "txid env tx \<in> bt_transactions b1" if "res_receipt_eligible r" using rec that by simp
  have "txid env ((tx # txs) ! i) \<notin> st_transactions s \<and> txid env ((tx # txs) ! i) \<notin> bt_transactions b \<and>
      txid env ((tx # txs) ! i) \<in> bt_transactions b' \<and>
      (\<forall>j < i. res_receipt_eligible (rs ! j) \<longrightarrow> txid env ((tx # txs) ! j) \<noteq> txid env ((tx # txs) ! i))"
    if i: "i < length (tx # txs)" "res_receipt_eligible (rs ! i)" for i
  proof (cases i)
    case 0
    with i rec loop(2) ih first show ?thesis by auto
  next
    case (Suc i')
    with i loop(2) ih have i': "txid env (txs ! i') \<notin> st_transactions s" "txid env (txs ! i') \<notin> bt_transactions b1"
      "txid env (txs ! i') \<in> bt_transactions b'"
      "\<And>j. j < i' \<Longrightarrow> res_receipt_eligible (rs1 ! j) \<Longrightarrow> txid env (txs ! j) \<noteq> txid env (txs ! i')" by auto
    have "txid env ((tx # txs) ! j) \<noteq> txid env (txs ! i')" if "j < i" "res_receipt_eligible (rs ! j)" for j
      using that Suc loop(2) i'(2,4) first by (cases j) auto
    with i' sub Suc show ?thesis by auto
  qed
  with ih loop(2) sub show ?case by auto
qed simp

text \<open>
  C10: no transaction takes effect twice. In the execution of a block, whatever the
  instruction handlers and the EVM do, a transaction gets a receipt only if it is not yet in
  the hot store and no earlier transaction of the block with the same id got one; the batch
  records every id that did, so committing it rejects them in every later block.
\<close>

theorem transactions_take_effect_once:
  assumes "process_transactions_speculative_at_slot env txs slot s = (b, rs)"
    and "i < length txs" "res_receipt_eligible (rs ! i)"
  shows "length rs = length txs \<and> txid env (txs ! i) \<notin> st_transactions s \<and> txid env (txs ! i) \<in> bt_transactions b \<and>
    (\<forall>j < length txs. j \<noteq> i \<longrightarrow> txid env (txs ! j) = txid env (txs ! i) \<longrightarrow> \<not> res_receipt_eligible (rs ! j)) \<and>
    (\<forall>p'. commit_batch (pending s b) = Inr p' \<longrightarrow> txid env (txs ! i) \<in> st_transactions (tp_state p'))"
proof -
  from assms(1) obtain s' where loop:
    "speculative_loop env (set (st_recent_blockhashes s)) slot txs (s, empty_batch) = ((s', b), rs)"
    by (auto simp: process_transactions_speculative_at_slot_def split: prod.splits)
  note rec = loop_records [OF loop]
  have "\<not> res_receipt_eligible (rs ! j)" if "j < length txs" "j \<noteq> i" "txid env (txs ! j) = txid env (txs ! i)" for j
    using rec assms(2,3) that by (metis nat_neq_iff)
  moreover have "txid env (txs ! i) \<in> st_transactions (tp_state p')" if "commit_batch (pending s b) = Inr p'" for p'
    using that rec assms(2,3) by (auto simp: commit_batch_def Let_def)
  ultimately show ?thesis using rec assms(2,3) by blast
qed

section \<open>A block keeps the supply\<close>

definition ledger_ok :: "tx_processor \<Rightarrow> bool" where
  "ledger_ok p \<longleftrightarrow> tp_ok p \<and> total_supply p \<le> u64_max \<and> validate_distribution (st_fee_config (tp_state p)) = Inr ()"

lemma ledger_ok_step: "ledger_ok p \<Longrightarrow> conserved p q \<Longrightarrow> tp_state q = tp_state p \<Longrightarrow> ledger_ok q"
  by (simp add: ledger_ok_def conserved_def)

lemma conserved_charge:
  assumes "charge_fee_with_priority_in_batch payer fee prio p = Inr q" "ledger_ok p" "prio \<le> fee"
  shows "conserved p q"
  using charge_in_batch_keeps [OF _ _ _ assms(3,1)] assms(2) by (simp add: ledger_ok_def conserved_def)

lemma conserved_put_transaction: "conserved p q \<Longrightarrow> conserved p (put_transaction env tx q)"
proof -
  have "balance (put_transaction env tx q) = balance q" by (rule ext) (simp add: balance_def)
  moreover have "holders (put_transaction env tx q) = holders q" "burned (put_transaction env tx q) = burned q"
    "tp_ok (put_transaction env tx q) = tp_ok q"
    by (auto simp: holders_def burned_def tp_ok_def put_transaction_def Let_def split: option.splits)
  ultimately show "conserved p q \<Longrightarrow> conserved p (put_transaction env tx q)"
    by (simp add: conserved_def total_supply_def)
qed

lemma finish_native_conserves:
  assumes "finish_native env tx payer fee prio premium deferred cu p = (q, r)" "res_success r" "ledger_ok p" "prio \<le> fee"
    and "tp_speculative p" "tp_batch p = Some b"
  shows "conserved p q"
proof -
  let ?c = "if deferred then charge_fee_with_priority_in_batch payer fee prio p else Inr p"
  show ?thesis
  proof (cases ?c)
    case (Inr p1)
    have "conserved p p1" using Inr assms(3,4) conserved_charge by (auto simp: ledger_ok_def conserved_def split: if_splits)
    moreover have "framed p p1" using Inr framed_refl [OF assms(6)] framed_charge by (auto split: if_splits)
    then have "tp_speculative p1" using assms(5) by (simp add: framed_def)
    with assms(1,2) have "q = put_transaction env tx p1" unfolding finish_native_def Inr
      by (auto simp: Let_def split: sum.splits option.splits if_splits)
    ultimately show ?thesis by (simp add: conserved_put_transaction)
  qed (use assms(1,2) in \<open>auto simp: finish_native_def\<close>)
qed

lemma run_native_conserves:
  assumes "run_native env tx payer fee prio premium deferred p = (q, r)" "res_success r" "ledger_ok p" "prio \<le> fee"
    and "tp_speculative p" "tp_batch p = Some b" "plain_tx tx"
  shows "conserved p q"
proof -
  let ?ixs = "msg_instructions (tx_message tx)" and ?cu = "compute_units_for_tx tx"
    and ?budget = "effective_compute_budget (tx_message tx)"
  from assms(1,2) obtain p1 where rent: "apply_rent (remdups (concat (map ix_accounts ?ixs))) p = Inr p1"
    by (auto simp: run_native_def Let_def split: sum.splits)
  with assms(1,2) obtain p2 cu where run: "execute_instructions env ?cu ?budget ?ixs 0 ?cu p1 = Exec_done p2 cu"
    "finish_native env tx payer fee prio premium deferred cu p2 = (q, r)"
    by (auto simp: run_native_def Let_def split: if_splits exec_outcome.splits)
  have f: "framed p p2" using framed_instructions [OF run(1)] framed_rent [OF rent] framed_refl [OF assms(6)] by blast
  have c1: "conserved p p1" using apply_rent_keeps [OF rent] assms(3) by (simp add: ledger_ok_def conserved_def)
  then have "tp_ok p1" by (simp add: conserved_def)
  from c1 conserved_instructions [OF run(1) _ this] assms(7) have c2: "conserved p p2"
    by (auto simp: plain_tx_def intro: conserved_trans)
  from f have s: "tp_state p2 = tp_state p" "tp_speculative p2" "\<exists>b. tp_batch p2 = Some b"
    using assms(5) by (auto simp: framed_def)
  from finish_native_conserves [OF run(2) assms(2) ledger_ok_step [OF assms(3) c2 s(1)] assms(4) s(2)] s(3) c2
  show ?thesis by (auto intro: conserved_trans)
qed

lemma fold_put_config [simp]:
  "st_fee_config (fold (\<lambda>(k, a). state_put_account k a) xs s) = st_fee_config s"
  by (induction xs arbitrary: s) (simp_all add: state_put_account_def case_prod_beta)

lemma priority_le_fee: "compute_priority_fee tx \<le> native_fee env tx s"
  by (simp add: native_fee_def compute_priority_fee_def saturating_add_def Let_def)

lemma plain_not_evm: "plain_tx tx \<Longrightarrow> \<not> is_evm_instruction tx"
  by (auto simp: plain_tx_def plain_ix_def is_evm_instruction_def SYSTEM_PROGRAM_ID_def EVM_PROGRAM_ID_def
      replicate_eq_replicate split: list.splits)

lemma successful_step_conserves:
  assumes "speculative_step env hs slot tx (s, b) = ((s', b'), r)" "res_success r" "res_receipt_eligible r"
    and "plain_tx tx" "ledger_ok (pending s b)"
  shows "s' = s \<and> conserved (pending s b) (pending s b')"
proof -
  let ?p = "pending s b"
  obtain q r0 where run: "process_transaction_inner env tx hs slot ?p = (q, r0)" by force
  have r: "r0 = r" "s' = tp_state q" and rec: "receipt_batch env tx r b q = Inr b'"
    using assms(1,3) run by (auto simp: speculative_step_def split: if_splits sum.splits)
  note evm = plain_not_evm [OF assms(4)]
  from process_inner_outcome [OF run _ _ evm] r assms(2) obtain q1 where q1: "framed ?p q1" "q = put_transaction env tx q1"
    and s: "tp_state q = s" "tp_speculative q" by (auto simp: native_outcome_def)
  from framed_put_transaction [OF q1(1), of b env tx] q1(2) obtain bq where bq: "tp_batch q = Some bq" by auto
  then have "q\<lparr>tp_batch := Some bq\<rparr> = q" by simp
  with rec bq assms(2) have "tp_batch (put_transaction env tx q) = Some b'"
    by (simp add: receipt_batch_def Let_def ok_or_def split: option.splits)
  then have b': "pending s b' = put_transaction env tx q"
    using bq s by (auto simp: put_transaction_def Let_def)
  from process_inner_cases [OF run] evm r(1) assms(2) have nat: "process_native env tx slot ?p = (q, r)" by auto
  have "conserved ?p q"
  proof (rule process_native_cases [OF nat])
    fix q2 d
    assume native: "run_native env tx (sender tx) (native_fee env tx (tp_state ?p)) (compute_priority_fee tx)
        (compute_premium_fee tx (st_fee_config (tp_state ?p))) d q2 = (q, r)" and f: "framed ?p q2"
      and c: "q2 = ?p \<or> charge_fee_with_priority_in_batch (sender tx) (native_fee env tx (tp_state ?p)) (compute_priority_fee tx) ?p = Inr q2"
    have c2: "conserved ?p q2" using c conserved_charge [OF _ assms(5) priority_le_fee] assms(5)
      by (auto simp: ledger_ok_def conserved_def)
    have "ledger_ok q2" using ledger_ok_step [OF assms(5) c2] f by (simp add: framed_def)
    from run_native_conserves [OF native assms(2) this priority_le_fee] f assms(4) c2 show ?thesis
      by (auto simp: framed_def intro: conserved_trans)
  qed (use assms(2) in auto)
  then show ?thesis using r(2) s(1) b' by (simp add: conserved_put_transaction)
qed

lemma step_conserves:
  assumes "speculative_step env hs slot tx (s, b) = ((s', b'), r)" "plain_tx tx" "ledger_ok (pending s b)"
  shows "s' = s \<and> conserved (pending s b) (pending s b')"
proof -
  note evm = plain_not_evm [OF assms(2)]
  have refl: "conserved (pending s b) (pending s b)" using assms(3) by (simp add: ledger_ok_def conserved_def)
  consider "\<not> res_receipt_eligible r" | "res_success r" "res_receipt_eligible r" | "\<not> res_success r" "res_receipt_eligible r" by blast
  then show ?thesis
  proof cases
    case 1
    with ineligible_step [OF assms(1) _ evm] refl show ?thesis by simp
  next
    case 2
    from successful_step_conserves [OF assms(1) this assms(2,3)] show ?thesis .
  next
    case 3
    from failed_step [OF assms(1) 3(1) evm 3(2)] obtain p1 where p1: "s' = s"
      "(if 0 < res_fee_paid r then charge_fee_with_priority_in_batch (sender tx) (res_fee_paid r)
        (min (compute_priority_fee tx) (res_fee_paid r)) (pending s b) else Inr (pending s b)) = Inr p1"
      "put_transaction env tx p1 = pending s b'" by blast
    have "conserved (pending s b) p1" using p1(2) conserved_charge [OF _ assms(3), of "sender tx" _ _ p1] refl
      by (auto split: if_splits)
    then show ?thesis using p1(1,3) conserved_put_transaction by metis
  qed
qed

lemma loop_conserves:
  assumes "speculative_loop env hs slot txs (s, b) = ((s', b'), rs)" "\<forall>tx \<in> set txs. plain_tx tx" "ledger_ok (pending s b)"
  shows "conserved (pending s b) (pending s b')"
  using assms
proof (induction txs arbitrary: b b' rs)
  case (Cons tx txs)
  obtain s1 b1 r where step: "speculative_step env hs slot tx (s, b) = ((s1, b1), r)" by (metis prod.collapse)
  have c: "s1 = s" "conserved (pending s b) (pending s b1)" using step_conserves [OF step] Cons.prems by auto
  from Cons.prems(1) step c(1) obtain rs1 where loop: "speculative_loop env hs slot txs (s, b1) = ((s', b'), rs1)"
    by (auto split: prod.splits)
  have "ledger_ok (pending s b1)" by (rule ledger_ok_step [OF Cons.prems(3) c(2)]) simp
  from Cons.IH [OF loop _ this] Cons.prems(2) c(2) show ?case by (auto intro: conserved_trans)
qed (simp add: ledger_ok_def conserved_def)

text \<open>
  C9: executing and committing a block of transfers, account creations and nonce operations
  keeps the supply, the sum of all balances and of what has been burned, and keeps every
  account's balance split: fees, rent and rollbacks included, whether transactions succeed or
  fail, in any order.
\<close>

theorem block_execution_conserves_supply:
  assumes "process_transactions_speculative_at_slot env txs slot s = (b, rs)" "\<forall>tx \<in> set txs. plain_tx tx"
    and "ledger_ok \<lparr>tp_state = s, tp_batch = None, tp_speculative = True\<rparr>"
  shows "\<exists>p'. commit_batch (pending s b) = Inr p' \<and> ledger_ok p' \<and>
    total_supply p' = total_supply \<lparr>tp_state = s, tp_batch = None, tp_speculative = True\<rparr>"
proof -
  let ?p = "\<lparr>tp_state = s, tp_batch = None, tp_speculative = True\<rparr>"
  have start: "begin_batch ?p = pending s empty_batch" by (simp add: begin_batch_def empty_batch_def)
  from assms(3) begin_batch_keeps [of ?p] have p0: "ledger_ok (pending s empty_batch)" "total_supply (pending s empty_batch) = total_supply ?p"
    by (auto simp: ledger_ok_def start)
  from assms(1) obtain s' where loop:
    "speculative_loop env (set (st_recent_blockhashes s)) slot txs (s, empty_batch) = ((s', b), rs)"
    by (auto simp: process_transactions_speculative_at_slot_def split: prod.splits)
  from loop_conserves [OF loop assms(2) p0(1)] have c: "conserved (pending s empty_batch) (pending s b)" .
  with p0 have ok: "ledger_ok (pending s b)" by (simp add: ledger_ok_def conserved_def)
  obtain p' where p': "commit_batch (pending s b) = Inr p'" by (simp add: commit_batch_def Let_def)
  then have "st_fee_config (tp_state p') = st_fee_config s" by (auto simp: commit_batch_def Let_def fold_put_config)
  with commit_batch_keeps [OF p'] ok c p0(2) p' show ?thesis by (auto simp: ledger_ok_def conserved_def)
qed

section \<open>Where the ledger gives way\<close>

text \<open>
  C12: the EVM runs on the committed store and its balances are then written over those of the
  batch. When earlier transactions of the block have already moved an amount out of an
  account, an EVM transaction of that account that sends no value puts the amount back: the
  supply grows by it. The hypothesis on the interpreter is that it reports the balance it was
  given less the gas it charged.
\<close>

theorem evm_restores_what_the_block_already_spent:
  assumes "ledger_ok (pending s b)" "total_supply (pending s b) + n \<le> u64_max"
    and "msg_instructions (tx_message tx) = [ix]" "xe_evm_decode env (ix_data ix) = Inr et" "et_value et = 0"
    and "xe_evm_lookup env s (et_from et) = Some k" "et_chain_id et = Some chain"
    and "xe_evm_execute env s et chain = Inr run"
    and "fee = u256_to_spores (et_gas_price et * er_gas_used run mod 2 ^ 256)"
    and "state_get_account s k = Some committed" "er_native_updates run = [(k, ac_spendable committed - fee)]"
    and "b_get_account (pending s b) k = Some a" "ac_spendable a + n = ac_spendable committed" "fee \<le> ac_spendable a"
    and "st_treasury_pubkey s \<noteq> Some k"
    and "(if 0 < fee then charge_fee_with_priority_in_batch k fee 0 (pending s b) else Inr (pending s b)) = Inr paid"
  shows "\<exists>q r. process_evm_transaction env tx (pending s b) = (q, r) \<and> res_receipt_eligible r \<and>
    total_supply q = total_supply (pending s b) + n"
proof -
  let ?p = "pending s b"
  have c: "conserved ?p paid" "framed ?p paid"
    using assms(1,16) conserved_charge [OF _ assms(1), of k fee 0 paid] framed_refl [of ?p b] framed_charge
    by (auto simp: ledger_ok_def conserved_def split: if_splits)
  let ?a = "a\<lparr>ac_spendable := ac_spendable a - fee, ac_spores := ac_spores a - fee\<rparr>"
  have get: "b_get_account paid k = Some ?a"
    using assms(12,15,16) charge_other_accounts [of k fee 0 ?p paid b] by (auto split: if_splits)
  let ?q1 = "put_transaction env tx paid" and ?new = "ac_spendable committed - fee"
  let ?b = "?a\<lparr>ac_spendable := ?new, ac_spores := saturating_add (saturating_add ?new (ac_staked a)) (ac_locked a)\<rparr>"
  have q1: "conserved ?p ?q1" using c(1) by (rule conserved_put_transaction)
  have ok: "acc_ok ?a" using b_get_ok [OF _ get] c(1) by (simp add: conserved_def)
  have bal: "balance ?q1 k = ac_spores ?a" using get by (simp add: balance_def)
  have "ac_spores ?a + n \<le> u64_max"
    using balance_le_supply [of ?q1 k] bal q1 assms(2) by (simp add: conserved_def)
  moreover have "?new = ac_spendable ?a + n" using assms(13,14) by simp
  ultimately have "?new + ac_staked a + ac_locked a \<le> u64_max" "ac_spores ?a + n = ?new + ac_staked a + ac_locked a"
    using ok by (simp_all add: acc_ok_def)
  then have "ac_spores ?b = ac_spores ?a + n" by (simp add: saturating_add_exact)
  then have sup: "total_supply (b_put_account k ?b ?q1) = total_supply ?p + n"
    using supply_put [of k ?b ?q1] bal q1 by (simp add: conserved_def)
  have upd: "apply_evm_changes (er_native_updates run) ?q1 = b_put_account k ?b ?q1"
    using get by (simp add: assms(11) apply_evm_changes_def Let_def)
  from framed_put_transaction [OF c(2), of b env tx] obtain b' where b': "tp_batch ?q1 = Some b'" by auto
  have s: "tp_speculative paid" "tp_batch paid \<noteq> None" "tp_speculative (b_put_account k ?b ?q1)"
    using c(2) framed_put [OF framed_refl [OF b']] by (auto simp: framed_def)
  have charge: "(if 0 < fee then charge_fee_with_priority k fee 0 ?p else Inr ?p) = Inr paid"
    using assms(16) by (auto simp: charge_fee_with_priority_def split: if_splits)
  have "settle_evm env tx k (et_gas_price et) run ?p = (b_put_account k ?b ?q1, make_result (er_success run) fee
      (if er_success run then None else Some ''EVM execution reverted'') 0)"
    unfolding settle_evm_def Let_def assms(9) [symmetric] charge using s by (auto simp: upd)
  then have "process_evm_transaction env tx ?p = (b_put_account k ?b ?q1, make_result (er_success run) fee
      (if er_success run then None else Some ''EVM execution reverted'') 0)"
    using assms(3-8) by (simp add: process_evm_transaction_def)
  with sup show ?thesis by simp
qed

lemma charge_keeps_data:
  assumes "charge_fee_with_priority_in_batch payer fee prio p = Inr q" "tp_batch p = Some b" "b_get_account p k = Some a"
  shows "\<exists>a'. b_get_account q k = Some a' \<and> ac_data a' = ac_data a"
proof -
  obtain burn tt where split: "fee_split (st_fee_config (tp_state p)) fee prio = (burn, tt)" by force
  from assms(1) obtain a0 a1 where a: "b_get_account p payer = Some a0" "deduct_spendable fee a0 = Inr a1"
    by (auto simp: charge_fee_with_priority_in_batch_def rbind_eq_Inr)
  let ?p1 = "b_put_account payer a1 p"
  have f: "framed p p" "framed p ?p1" using framed_refl [OF assms(2)] by (simp_all add: frames)
  have "ac_data a1 = ac_data a0" using deduct_spendable_Inr [OF a(2)] by simp
  then have one: "\<exists>a'. b_get_account ?p1 k = Some a' \<and> ac_data a' = ac_data a"
    using a(1) assms(3) by (auto simp: framed_get_put [OF f(1)])
  from assms(1) a split have "q = b_add_burned burn ?p1 \<or>
      (\<exists>t b. add_spendable tt (case b_get_account ?p1 t of Some a \<Rightarrow> a | None \<Rightarrow> account_new 0 t) = Inr b \<and>
        q = b_add_burned burn (b_put_account t b ?p1))"
    by (auto simp: charge_fee_with_priority_in_batch_def Let_def rbind_eq_Inr split: if_splits)
  then show ?thesis
  proof
    assume "\<exists>t b. add_spendable tt (case b_get_account ?p1 t of Some a \<Rightarrow> a | None \<Rightarrow> account_new 0 t) = Inr b \<and>
        q = b_add_burned burn (b_put_account t b ?p1)"
    then obtain t b where t: "add_spendable tt (case b_get_account ?p1 t of Some a \<Rightarrow> a | None \<Rightarrow> account_new 0 t) = Inr b"
      "q = b_add_burned burn (b_put_account t b ?p1)" by blast
    have "ac_data b = ac_data (case b_get_account ?p1 t of Some a \<Rightarrow> a | None \<Rightarrow> account_new 0 t)"
      using add_spendable_Inr [OF t(1)] by simp
    then show ?thesis using one t(2) by (auto simp: framed_get_put [OF f(2)])
  qed (use one in simp)
qed

lemma migrate_sel:
  "migrate_transactions sigs s = Inr s' \<Longrightarrow> state_get_account s' k = state_get_account s k \<and>
     (\<forall>h \<in> set sigs. h \<notin> st_transactions s' \<and> h \<in> st_cold_transactions s')"
proof (induction sigs s arbitrary: s' rule: migrate_transactions.induct)
  case (2 sig sigs s)
  have keep: "migrate_transactions sigs s = Inr s' \<Longrightarrow> st_transactions s' \<subseteq> st_transactions s \<and>
      st_cold_transactions s \<subseteq> st_cold_transactions s'" for s s'
    by (induction sigs s rule: migrate_transactions.induct) (auto split: if_splits)
  show ?case
  proof (cases "sig \<in> st_transactions s")
    case True
    with 2 keep [of "s\<lparr>st_transactions := st_transactions s - {sig}, st_cold_transactions := insert sig (st_cold_transactions s)\<rparr>" s']
    show ?thesis by (auto simp: state_get_account_def)
  next
    case False
    with 2 keep [of s s'] show ?thesis by (auto split: if_splits)
  qed
qed simp

text \<open>
  C13: a durable nonce does not protect a transaction that failed. Its failure is charged and
  recorded, but the nonce is not advanced; once the block has moved to cold storage, where
  speculative execution does not look, the transaction passes every replay check again and is
  executed a second time, at any later slot and with no recent block hash.
\<close>

theorem failed_durable_nonce_transactions_run_again:
  assumes "speculative_step env hs slot tx (s, empty_batch) = ((s', b'), r)" "\<not> res_success r" "res_receipt_eligible r"
    and "\<not> is_evm_instruction tx" "check_durable_nonce (xe_nonce_codec env) tx s" "ledger_ok (pending s b')"
    and "commit_batch (pending s b') = Inr p'" "migrate_transactions [txid env tx] (tp_state p') = Inr s2"
  shows "process_transaction_inner env tx hs2 slot2 (pending s2 empty_batch) = process_native env tx slot2 (pending s2 empty_batch) \<and>
    already_processed (txid env tx) \<lparr>tp_state = s2, tp_batch = None, tp_speculative = False\<rparr>"
proof -
  from failed_step [OF assms(1,2,4,3)] obtain p1 where p1:
    "(if 0 < res_fee_paid r then charge_fee_with_priority_in_batch (sender tx) (res_fee_paid r)
        (min (compute_priority_fee tx) (res_fee_paid r)) (pending s empty_batch) else Inr (pending s empty_batch)) = Inr p1"
    "put_transaction env tx p1 = pending s b'" by blast
  have data: "\<exists>a'. state_get_account s2 k = Some a' \<and> ac_data a' = ac_data a" if a: "state_get_account s k = Some a" for k a
  proof -
    have "b_get_account (pending s empty_batch) k = Some a" using a by (simp add: b_get_account_def batch_get_account_def empty_batch_def)
    with p1(1) charge_keeps_data [of "sender tx" _ _ "pending s empty_batch" p1 empty_batch k a]
    have "\<exists>a'. b_get_account p1 k = Some a' \<and> ac_data a' = ac_data a" by (auto split: if_splits)
    moreover have "b_get_account (pending s b') k = b_get_account p1 k" by (metis p1(2) b_get_put_transaction)
    moreover from commit_batch_keeps [OF assms(7)] assms(6)
    have "state_get_account (tp_state p') k = b_get_account (pending s b') k"
      by (metis direct_get ledger_ok_def)
    ultimately show ?thesis using migrate_sel [OF assms(8), of k] by simp
  qed
  have nonce: "check_durable_nonce (xe_nonce_codec env) tx s2"
    using assms(5) data by (fastforce simp: check_durable_nonce_def split: list.splits if_splits option.splits sum.splits)
  obtain q r0 where run: "process_transaction_inner env tx hs slot (pending s empty_batch) = (q, r0)" by force
  have "res_receipt_eligible r0"
    using assms(1,3) run by (auto simp: speculative_step_def split: if_splits sum.splits)
  with run assms(4) have "(\<exists>u. validate_transaction_structure (xe_codec env) tx = Inr u)"
    "msg_recent_blockhash (tx_message tx) \<noteq> hash_default" "\<not> is_evm tx"
    by (auto simp: process_transaction_inner_def split: sum.splits if_splits)
  with nonce assms(4) migrate_sel [OF assms(8)] show ?thesis
    by (auto simp: process_transaction_inner_def already_processed_def empty_batch_def)
qed

end
