(* ===== verification/Execution_Examples.thy ===== *)
theory Execution_Examples
  imports Execution_Properties
begin

text \<open>
  Concrete runs of the execution model: a signed transaction that advances a durable nonce
  before the block hash it stores has changed, and an EVM transaction after a transfer.
\<close>

section \<open>A failing nonce transaction\<close>

definition demo_nonce_codec :: nonce_codec where
  "demo_nonce_codec =
     \<lparr>ser_nonce = (\<lambda>n. pk_bytes (ns_authority n) @ hash_bytes (ns_blockhash n)),
      de_nonce = (\<lambda>d. Some \<lparr>ns_authority = Pubkey (take 32 d), ns_blockhash = Hash (drop 32 d), ns_fee_per_signature = BASE_FEE\<rparr>)\<rparr>"

definition demo_env :: exec_env where
  "demo_env =
     \<lparr>xe_crypto = demo_crypto, xe_codec = demo_codec,
      xe_ix_codec = \<lparr>de_contract_ix = (\<lambda>_. None), de_evm_gas_fee = (\<lambda>_. None)\<rparr>,
      xe_nonce_codec = demo_nonce_codec,
      xe_system = (\<lambda>_ _. Inl ''not supported''), xe_contract = (\<lambda>_ _. Inl ''not supported''),
      xe_pending_changes = (\<lambda>_. []), xe_achievements = (\<lambda>_ _. None), xe_claimable = (\<lambda>_ _. None),
      xe_evm_decode = (\<lambda>_. Inr \<lparr>et_from = [7], et_value = 0, et_gas_price = 0, et_chain_id = Some 8001\<rparr>),
      xe_evm_lookup = (\<lambda>_ a. if a = [7] then Some (demo_pubkey 1) else None),
      xe_evm_execute = (\<lambda>s _ _. Inr \<lparr>er_success = True, er_gas_used = 21000, er_native_updates =
        [(demo_pubkey 1, case state_get_account s (demo_pubkey 1) of Some a \<Rightarrow> ac_spendable a | None \<Rightarrow> 0)]\<rparr>)\<rparr>"

definition demo_blockhash :: hash where
  "demo_blockhash = Hash (replicate 32 9)"

definition demo_store :: store where
  "demo_store =
     \<lparr>st_accounts = [(demo_pubkey 1, demo_account 5000000), (demo_pubkey 3, demo_account 0),
        (demo_pubkey 4, (demo_account 10)\<lparr>ac_data := NONCE_ACCOUNT_MARKER # pk_bytes (demo_pubkey 1) @ replicate 32 9\<rparr>)],
      st_total_burned = 0, st_treasury_pubkey = Some (demo_pubkey 3), st_last_slot = 0, st_fee_config = fee_config_default,
      st_rent_rate = 0, st_governed_wallets = {}, st_restrictions = [], st_recent_blockhashes = [], st_transactions = {},
      st_cold_transactions = {}, st_last_block_hash = demo_blockhash, st_chain_id_metadata = None,
      st_activation_slot_metadata = None\<rparr>"

definition demo_nonce_tx :: transaction where
  "demo_nonce_tx =
     (let m = \<lparr>msg_instructions = [\<lparr>ix_program_id = SYSTEM_PROGRAM_ID, ix_accounts = [demo_pubkey 1, demo_pubkey 4], ix_data = [28, 1]\<rparr>],
               msg_recent_blockhash = demo_blockhash, msg_compute_budget = None, msg_compute_unit_price = None\<rparr>
      in \<lparr>tx_signatures = [keypair_sign demo_crypto (demo_keypair 1) (ser_message demo_codec m)], tx_message = m, tx_type = Native\<rparr>)"

lemma demo_nonce_tx_message:
  "tx_message demo_nonce_tx = \<lparr>msg_instructions = [\<lparr>ix_program_id = SYSTEM_PROGRAM_ID,
      ix_accounts = [demo_pubkey 1, demo_pubkey 4], ix_data = [28, 1]\<rparr>],
    msg_recent_blockhash = demo_blockhash, msg_compute_budget = None, msg_compute_unit_price = None\<rparr>"
  by (simp add: demo_nonce_tx_def Let_def)

lemma demo_nonce_tx_signed: "verify_transaction_signatures demo_env demo_store demo_nonce_tx slot = Inr ()"
  by (simp add: verify_transaction_signatures_def transaction_signature_policy_at_slot_def demo_store_def demo_env_def
      historical_transaction_signature_policy_def transaction_signing_chain_id_def Let_def
      verify_required_signatures_against_def required_signers_ordered_def demo_nonce_tx_def keypair_sign_validates)

lemma demo_nonce_tx_structure: "validate_transaction_structure demo_codec demo_nonce_tx = Inr ()"
  by (simp add: validate_transaction_structure_def demo_nonce_tx_def Let_def is_consensus_def demo_codec_def
      MAX_SIGNATURES_PER_TX_def MAX_INSTRUCTIONS_PER_TX_def MAX_TRANSACTION_SERIALIZED_SIZE_def
      MAX_INSTRUCTION_DATA_def MAX_ACCOUNTS_PER_IX_def MAX_DEPLOY_INSTRUCTION_DATA_def)

lemma demo_nonce_tx_fee: "native_fee demo_env demo_nonce_tx demo_store = 1000000" "compute_priority_fee demo_nonce_tx = 0"
  "compute_premium_fee demo_nonce_tx fee_config_default = 0"
proof -
  have ne: "SYSTEM_PROGRAM_ID \<noteq> CONTRACT_PROGRAM_ID" "SYSTEM_PROGRAM_ID \<noteq> EVM_PROGRAM_ID"
    by (simp_all add: SYSTEM_PROGRAM_ID_def CONTRACT_PROGRAM_ID_def EVM_PROGRAM_ID_def replicate_eq_replicate)
  show "compute_priority_fee demo_nonce_tx = 0"
    by (simp add: compute_priority_fee_def demo_nonce_tx_message effective_compute_unit_price_def)
  then show "native_fee demo_env demo_nonce_tx demo_store = 1000000"
    using ne by (simp add: native_fee_def compute_base_fee_def demo_nonce_tx_message Let_def fee_free_kind_def opcode_def demo_store_def
        fee_config_default_def BASE_FEE_def system_premium_def contract_premium_def saturating_add_def u64_max_def)
  show "compute_premium_fee demo_nonce_tx fee_config_default = 0"
    using ne by (simp add: compute_premium_fee_def premium_of_def demo_nonce_tx_message opcode_def saturating_add_def)
qed

lemma demo_fee_split: "fee_split fee_config_default 1000000 0 = (400000, 600000)"
proof -
  have sat: "a + b \<le> 10000000 \<Longrightarrow> saturating_add a b = a + b" for a b
    by (simp add: saturating_add_def u64_max_def)
  have pct: "as_u64 x = x" if "x \<le> 10000000" for x using that by (simp add: as_u64_def)
  show ?thesis
    unfolding fee_split_def Let_def fee_config_default_def saturating_sub_def by (simp add: sat pct)
qed

lemma demo_charge:
  "\<exists>p1. charge_fee_with_priority_in_batch (demo_pubkey 1) 1000000 0 (pending demo_store empty_batch) = Inr p1"
  by (simp add: charge_fee_with_priority_in_batch_def demo_store_def empty_batch_def demo_fee_split Let_def b_get_account_def
      batch_get_account_def state_get_account_def b_put_account_def demo_account_def account_new_def fixup_legacy_def
      deduct_spendable_def add_spendable_def checked_sub_def checked_add_def ok_or_def u64_max_def licn_to_spores_def saturating_mul_def)

lemma demo_nonce_ids: "txid demo_env demo_nonce_tx = Hash (28 # 1 # replicate 30 0)" "demo_blockhash \<noteq> hash_default"
  by (simp_all add: demo_env_def transaction_hash_def hash_data_def demo_crypto_def demo_codec_def demo_nonce_tx_message
      demo_blockhash_def hash_default_def replicate_eq_replicate)

lemma demo_durable: "check_durable_nonce demo_nonce_codec demo_nonce_tx demo_store"
  by (simp add: check_durable_nonce_def demo_nonce_tx_message demo_store_def state_get_account_def fixup_legacy_def
      demo_account_def account_new_def decode_nonce_state_def demo_nonce_codec_def ok_or_def demo_pubkey_def demo_blockhash_def)

lemma demo_nonce_fails:
  assumes "framed (pending demo_store empty_batch) p" "b_get_account p (demo_pubkey 4) = b_get_account (pending demo_store empty_batch) (demo_pubkey 4)"
  shows "\<exists>e. run_native demo_env demo_nonce_tx (demo_pubkey 1) 1000000 0 0 False p = (rollback_batch p, make_result False 1000000 (Some e) 200)"
proof -
  have s: "tp_state p = demo_store" "tp_speculative p" using assms(1) by (simp_all add: framed_def)
  have rent: "apply_rent ks p = Inr p" for ks by (simp add: apply_rent_def s demo_store_def)
  have cu: "compute_units_for_tx demo_nonce_tx = 200"
    by (simp add: compute_units_for_tx_def demo_nonce_tx_message opcode_def compute_units_for_system_ix_def)
  have budget: "200 \<le> effective_compute_budget (tx_message demo_nonce_tx)"
    by (simp add: effective_compute_budget_def demo_nonce_tx_message DEFAULT_COMPUTE_BUDGET_def)
  let ?ix = "hd (msg_instructions (tx_message demo_nonce_tx))"
  have "\<exists>e. nonce_advance demo_nonce_codec ?ix p = Inl e"
    using assms(2)
    by (simp add: nonce_advance_def demo_nonce_tx_message Let_def s demo_store_def state_get_account_def fixup_legacy_def
      demo_account_def account_new_def decode_nonce_state_def demo_nonce_codec_def ok_or_def demo_pubkey_def demo_blockhash_def
      b_get_account_def batch_get_account_def empty_batch_def)
  then obtain e where e: "nonce_advance demo_nonce_codec ?ix p = Inl e" by blast
  have "execute_instructions demo_env 200 b [?ix] 0 200 p = Exec_failed e 200" for b
    using e by (simp add: execute_instruction_def execute_system_program_def system_nonce_def demo_nonce_tx_message opcode_def
        demo_env_def)
  then show ?thesis
    using budget by (intro exI [of _ "''Execution error: '' @ e"]) (simp add: run_native_def Let_def rent cu fail_transaction_spec s demo_nonce_tx_message saturating_sub_def)
qed

lemma demo_nonce_runs:
  "\<exists>q e. process_transaction_inner demo_env demo_nonce_tx {} 1 (pending demo_store empty_batch) = (q, make_result False 1000000 (Some e) 200) \<and>
     tp_batch q = None \<and> tp_state q = demo_store \<and> tp_speculative q"
proof -
  let ?p = "pending demo_store empty_batch"
  from demo_charge obtain p1 where p1: "charge_fee_with_priority_in_batch (demo_pubkey 1) 1000000 0 ?p = Inr p1" by blast
  have f: "framed ?p p1" by (rule framed_charge [OF p1 framed_refl]) simp
  have g: "b_get_account p1 (demo_pubkey 4) = b_get_account ?p (demo_pubkey 4)"
    using charge_other_accounts [OF p1, of empty_batch] by (simp add: demo_store_def)
  have evm: "\<not> is_evm demo_nonce_tx" "\<not> is_evm_instruction demo_nonce_tx"
    by (simp_all add: is_evm_def is_evm_instruction_def demo_nonce_tx_message demo_blockhash_def replicate_eq_replicate
        SYSTEM_PROGRAM_ID_def EVM_PROGRAM_ID_def) (simp add: demo_nonce_tx_def Let_def)
  have send: "sender demo_nonce_tx = demo_pubkey 1" by (simp add: sender_def demo_nonce_tx_message)
  have s: "tp_speculative p1" "tp_batch p1 \<noteq> None" using f by (auto simp: framed_def)
  have sel: "xe_codec demo_env = demo_codec" "xe_nonce_codec demo_env = demo_nonce_codec" by (simp_all add: demo_env_def)
  have d: "\<not> should_defer_mossstake_claim_fee demo_env demo_nonce_tx (demo_pubkey 1) 1000000 ?p"
    by (simp add: should_defer_mossstake_claim_fee_def is_single_mossstake_claim_tx_def demo_nonce_tx_message opcode_def)
  have c: "(if 0 < (1000000 :: nat) \<and> \<not> False then charge_fee_with_priority (demo_pubkey 1) 1000000 0 ?p else Inr ?p) = Inr p1"
    using p1 by (simp add: charge_fee_with_priority_def)
  have cfg: "st_fee_config demo_store = fee_config_default" by (simp add: demo_store_def)
  have "process_native demo_env demo_nonce_tx 1 ?p = run_native demo_env demo_nonce_tx (demo_pubkey 1) 1000000 0 0 False p1"
    using d c s demo_nonce_tx_fee(1) [unfolded native_fee_def]
    by (auto simp: process_native_def Let_def demo_nonce_tx_signed send demo_nonce_tx_fee(2,3) cfg)
  moreover have "process_transaction_inner demo_env demo_nonce_tx {} 1 ?p = process_native demo_env demo_nonce_tx 1 ?p"
    using demo_nonce_ids evm demo_durable
    by (simp add: process_transaction_inner_def sel demo_nonce_tx_structure already_processed_def empty_batch_def)
       (simp add: demo_nonce_tx_message demo_store_def)
  moreover have "tp_state p1 = demo_store" using f by (simp add: framed_def)
  ultimately show ?thesis using demo_nonce_fails [OF f g] s by (auto simp: rollback_batch_def)
qed

lemma demo_nonce_step:
  "\<exists>b r. speculative_step demo_env {} 1 demo_nonce_tx (demo_store, empty_batch) = ((demo_store, b), r) \<and>
     \<not> res_success r \<and> res_receipt_eligible r \<and> res_fee_paid r = 1000000"
proof -
  from demo_nonce_runs obtain q e where q: "process_transaction_inner demo_env demo_nonce_tx {} 1 (pending demo_store empty_batch) =
      (q, make_result False 1000000 (Some e) 200)" "tp_batch q = None" "tp_state q = demo_store" "tp_speculative q" by blast
  from demo_charge obtain p1 where p1: "charge_fee_with_priority_in_batch (demo_pubkey 1) 1000000 0 (pending demo_store empty_batch) = Inr p1" by blast
  have f: "framed (pending demo_store empty_batch) p1" by (rule framed_charge [OF p1 framed_refl]) simp
  from framed_put_transaction [OF f, of empty_batch demo_env demo_nonce_tx] obtain b
    where b: "tp_batch (put_transaction demo_env demo_nonce_tx p1) = Some b" by auto
  have qp: "q\<lparr>tp_batch := Some empty_batch\<rparr> = pending demo_store empty_batch" using q by simp
  have send: "sender demo_nonce_tx = demo_pubkey 1" by (simp add: sender_def demo_nonce_tx_message)
  have "receipt_batch demo_env demo_nonce_tx (make_result False 1000000 (Some e) 200) empty_batch q = Inr b"
    using q(2) p1 b by (simp add: receipt_batch_def Let_def qp send demo_nonce_tx_fee(2) ok_or_def)
  then show ?thesis using q by (simp add: speculative_step_def)
qed

section \<open>Witnesses\<close>

lemma demo_nonce_native: "\<not> is_evm_instruction demo_nonce_tx"
  by (simp add: is_evm_instruction_def demo_nonce_tx_message SYSTEM_PROGRAM_ID_def EVM_PROGRAM_ID_def replicate_eq_replicate)


lemma demo_ledger_ok: "ledger_ok \<lparr>tp_state = demo_store, tp_batch = None, tp_speculative = True\<rparr>"
proof -
  let ?p = "\<lparr>tp_state = demo_store, tp_batch = None, tp_speculative = True\<rparr>"
  have h: "holders ?p = {demo_pubkey 1, demo_pubkey 3, demo_pubkey 4}" by (simp add: holders_def demo_store_def)
  have "balance ?p (demo_pubkey 1) = 5000000" "balance ?p (demo_pubkey 3) = 0" "balance ?p (demo_pubkey 4) = 10" "burned ?p = 0"
    by (simp_all add: balance_def burned_def b_get_account_def state_get_account_def demo_store_def demo_account_def)
  then have "total_supply ?p = 5000010" by (simp add: total_supply_def h)
  moreover have "tp_ok ?p" by (simp add: tp_ok_def demo_store_def acc_ok_def demo_account_def account_new_def Let_def u64_max_def)
  ultimately show ?thesis
    by (simp add: ledger_ok_def demo_store_def validate_distribution_def fee_config_default_def saturating_add_def u64_max_def)
qed

lemma demo_nonce_plain: "plain_tx demo_nonce_tx"
  by (simp add: plain_tx_def plain_ix_def demo_nonce_tx_message opcode_def)

theorem transactions_take_effect_once_witness:
  "\<exists>b rs. process_transactions_speculative_at_slot demo_env [demo_nonce_tx, demo_nonce_tx] 1 demo_store = (b, rs) \<and>
     res_receipt_eligible (rs ! 0) \<and> \<not> res_receipt_eligible (rs ! 1) \<and> txid demo_env demo_nonce_tx \<in> bt_transactions b"
proof -
  from demo_nonce_step obtain b1 r where st: "speculative_step demo_env {} 1 demo_nonce_tx (demo_store, empty_batch) = ((demo_store, b1), r)"
    "res_receipt_eligible r" by blast
  obtain s2 b r2 where st2: "speculative_step demo_env {} 1 demo_nonce_tx (demo_store, b1) = ((s2, b), r2)" by (metis prod.collapse)
  have "st_recent_blockhashes demo_store = []" by (simp add: demo_store_def)
  with st st2 have run: "process_transactions_speculative_at_slot demo_env [demo_nonce_tx, demo_nonce_tx] 1 demo_store = (b, [r, r2])"
    by (simp add: process_transactions_speculative_at_slot_def)
  from transactions_take_effect_once [OF run, of 0] st(2) run show ?thesis by auto
qed

theorem block_execution_conserves_supply_witness:
  "\<exists>b rs p'. process_transactions_speculative_at_slot demo_env [demo_nonce_tx, demo_nonce_tx] 1 demo_store = (b, rs) \<and>
     commit_batch (pending demo_store b) = Inr p' \<and>
     total_supply p' = total_supply \<lparr>tp_state = demo_store, tp_batch = None, tp_speculative = True\<rparr>"
  using block_execution_conserves_supply [of demo_env "[demo_nonce_tx, demo_nonce_tx]" 1 demo_store, OF surjective_pairing _ demo_ledger_ok]
    demo_nonce_plain by (metis empty_iff insert_iff list.set prod.collapse)

theorem failed_durable_nonce_transactions_run_again_witness:
  "\<exists>b r p' s2. speculative_step demo_env {} 1 demo_nonce_tx (demo_store, empty_batch) = ((demo_store, b), r) \<and>
     \<not> res_success r \<and> res_fee_paid r = 1000000 \<and> commit_batch (pending demo_store b) = Inr p' \<and>
     migrate_transactions [txid demo_env demo_nonce_tx] (tp_state p') = Inr s2 \<and>
     process_transaction_inner demo_env demo_nonce_tx {} 500 (pending s2 empty_batch) =
       process_native demo_env demo_nonce_tx 500 (pending s2 empty_batch)"
proof -
  from demo_nonce_step obtain b r where st: "speculative_step demo_env {} 1 demo_nonce_tx (demo_store, empty_batch) = ((demo_store, b), r)"
    "\<not> res_success r" "res_receipt_eligible r" "res_fee_paid r = 1000000" by blast
  have start: "begin_batch \<lparr>tp_state = demo_store, tp_batch = None, tp_speculative = True\<rparr> = pending demo_store empty_batch"
    by (simp add: begin_batch_def empty_batch_def)
  have ok0: "ledger_ok (pending demo_store empty_batch)"
    using begin_batch_keeps [of "\<lparr>tp_state = demo_store, tp_batch = None, tp_speculative = True\<rparr>"] demo_ledger_ok
    by (auto simp: ledger_ok_def start)
  have "conserved (pending demo_store empty_batch) (pending demo_store b)"
    using step_conserves [OF st(1) demo_nonce_plain ok0] by blast
  from ledger_ok_step [OF ok0 this] have ok: "ledger_ok (pending demo_store b)" by simp
  obtain p' where p': "commit_batch (pending demo_store b) = Inr p'" by (simp add: commit_batch_def Let_def)
  have "txid demo_env demo_nonce_tx \<in> bt_transactions b" using step_records [OF st(1)] st(3) by simp
  then have "txid demo_env demo_nonce_tx \<in> st_transactions (tp_state p')" using p' by (auto simp: commit_batch_def Let_def)
  then obtain s2 where s2: "migrate_transactions [txid demo_env demo_nonce_tx] (tp_state p') = Inr s2" by simp
  have "check_durable_nonce (xe_nonce_codec demo_env) demo_nonce_tx demo_store" using demo_durable by (simp add: demo_env_def)
  from failed_durable_nonce_transactions_run_again [OF st(1-3) demo_nonce_native this ok p' s2] st p' s2 show ?thesis by blast
qed

theorem evm_restores_what_the_block_already_spent_witness:
  "\<exists>b q r. total_supply q = total_supply (pending demo_store b) + 3000000 \<and>
     process_evm_transaction demo_env (demo_nonce_tx\<lparr>tx_message := (tx_message demo_nonce_tx)\<lparr>msg_instructions :=
       [\<lparr>ix_program_id = EVM_PROGRAM_ID, ix_accounts = [demo_pubkey 1], ix_data = []\<rparr>]\<rparr>\<rparr>) (pending demo_store b) = (q, r)"
proof -
  let ?tx = "demo_nonce_tx\<lparr>tx_message := (tx_message demo_nonce_tx)\<lparr>msg_instructions :=
       [\<lparr>ix_program_id = EVM_PROGRAM_ID, ix_accounts = [demo_pubkey 1], ix_data = []\<rparr>]\<rparr>\<rparr>"
  let ?b = "empty_batch\<lparr>bt_account_overlay := [(demo_pubkey 2, demo_account 3000000), (demo_pubkey 1, demo_account 2000000)]\<rparr>"
  let ?et = "\<lparr>et_from = [7], et_value = 0, et_gas_price = 0, et_chain_id = Some 8001\<rparr> :: evm_tx"
  let ?run = "\<lparr>er_success = True, er_gas_used = 21000, er_native_updates = [(demo_pubkey 1, 5000000)]\<rparr> :: evm_run"
  have h: "holders (pending demo_store ?b) = {demo_pubkey 1, demo_pubkey 2, demo_pubkey 3, demo_pubkey 4}"
    by (auto simp: holders_def demo_store_def)
  have "balance (pending demo_store ?b) (demo_pubkey 1) = 2000000" "balance (pending demo_store ?b) (demo_pubkey 2) = 3000000"
    "balance (pending demo_store ?b) (demo_pubkey 3) = 0" "balance (pending demo_store ?b) (demo_pubkey 4) = 10" "burned (pending demo_store ?b) = 0"
    by (simp_all add: balance_def burned_def b_get_account_def batch_get_account_def state_get_account_def demo_store_def demo_account_def empty_batch_def)
  then have sup: "total_supply (pending demo_store ?b) = 5000010" by (simp add: total_supply_def h)
  have "tp_ok (pending demo_store ?b)"
    by (simp add: tp_ok_def demo_store_def acc_ok_def demo_account_def account_new_def Let_def u64_max_def)
  then have ok: "ledger_ok (pending demo_store ?b)" using demo_ledger_ok sup by (simp add: ledger_ok_def u64_max_def)
  have acc: "state_get_account demo_store (demo_pubkey 1) = Some (demo_account 5000000)"
    by (simp add: state_get_account_def demo_store_def fixup_legacy_def demo_account_def)
  have room: "total_supply (pending demo_store ?b) + 3000000 \<le> u64_max" "st_treasury_pubkey demo_store \<noteq> Some (demo_pubkey 1)"
    by (simp_all only: sup) (simp_all add: u64_max_def demo_store_def)
  have "\<exists>q r. process_evm_transaction demo_env ?tx (pending demo_store ?b) = (q, r) \<and> res_receipt_eligible r \<and>
      total_supply q = total_supply (pending demo_store ?b) + 3000000"
    by (rule evm_restores_what_the_block_already_spent [OF ok room(1), where et = ?et and run = ?run and chain = 8001 and fee = 0 and
        k = "demo_pubkey 1" and committed = "demo_account 5000000" and a = "demo_account 2000000" and paid = "pending demo_store ?b"])
       (simp_all add: room(2) acc demo_env_def demo_nonce_tx_message u256_to_spores_def u64_max_def demo_account_def b_get_account_def
         batch_get_account_def)
  then show ?thesis by blast
qed

section \<open>Transfers, fees and refunds\<close>

definition demo_frozen :: restriction_record where
  "demo_frozen = \<lparr>rr_id = 1, rr_target = Target_account_asset (demo_pubkey 1) NATIVE_LICN_ASSET_ID, rr_mode = FrozenAmount 4000000,
     rr_status = Restriction_active, rr_reason = 12, rr_evidence_hash = None, rr_evidence_uri_hash = None, rr_proposer = demo_pubkey 9,
     rr_authority = demo_pubkey 9, rr_approval_authority = None, rr_created_slot = 0, rr_created_epoch = 0, rr_expires_at_slot = None,
     rr_supersedes = None, rr_lifted_by = None, rr_lifted_slot = None, rr_lift_reason = None\<rparr>"

definition demo_direct :: tx_processor where
  "demo_direct = \<lparr>tp_state = demo_store\<lparr>st_restrictions := [demo_frozen]\<rparr>, tp_batch = None, tp_speculative = False\<rparr>"

lemma demo_direct_ok: "tp_ok demo_direct" "total_supply demo_direct = 5000010"
proof -
  have h: "holders demo_direct = {demo_pubkey 1, demo_pubkey 3, demo_pubkey 4}" by (simp add: holders_def demo_store_def demo_direct_def)
  have "balance demo_direct (demo_pubkey 1) = 5000000" "balance demo_direct (demo_pubkey 3) = 0"
    "balance demo_direct (demo_pubkey 4) = 10" "burned demo_direct = 0"
    by (simp_all add: balance_def burned_def b_get_account_def state_get_account_def demo_store_def demo_account_def demo_direct_def)
  then show "total_supply demo_direct = 5000010" by (simp add: total_supply_def h)
  show "tp_ok demo_direct"
    by (simp add: tp_ok_def demo_store_def acc_ok_def demo_account_def account_new_def Let_def u64_max_def demo_direct_def)
qed

lemma demo_not_restricted:
  "ensure_native_transfer_not_restricted (tp_state demo_direct) k Outgoing 500000 5000000 slot = Inr ()"
  "ensure_native_transfer_not_restricted (tp_state demo_direct) k Incoming 500000 0 slot = Inr ()"
  by (simp_all add: ensure_native_transfer_not_restricted_def Let_def list_ex_iff active_restrictions_for_target_def demo_direct_def
      demo_frozen_def restriction_mode_blocks_transfer_def transferable_after_frozen_amount_def saturating_sub_def)

lemma demo_get: "b_get_account demo_direct (demo_pubkey 1) = Some (demo_account 5000000)" "b_get_account demo_direct (demo_pubkey 2) = None"
  by (simp_all add: b_get_account_def state_get_account_def demo_store_def demo_direct_def fixup_legacy_def demo_account_def)

theorem transfer_conserves_and_respects_freeze_witness:
  "\<exists>p' a'. b_transfer (demo_pubkey 1) (demo_pubkey 2) 500000 demo_direct = Inr p' \<and> total_supply p' = total_supply demo_direct \<and>
     b_get_account p' (demo_pubkey 1) = Some a' \<and> 4000000 \<le> ac_spendable a'"
proof -
  have "\<exists>p'. b_transfer (demo_pubkey 1) (demo_pubkey 2) 500000 demo_direct = Inr p'"
    by (simp add: b_transfer_def demo_get ok_or_def demo_not_restricted Let_def)
       (simp add: demo_get(2) demo_account_def demo_not_restricted deduct_spendable_def add_spendable_def account_new_def licn_to_spores_def saturating_mul_def
          checked_sub_def checked_add_def ok_or_def u64_max_def)
  then obtain p' where p': "b_transfer (demo_pubkey 1) (demo_pubkey 2) 500000 demo_direct = Inr p'" by blast
  have "demo_frozen \<in> set (st_restrictions (tp_state demo_direct))" "is_effectively_active demo_frozen n"
    "rr_target demo_frozen = Target_account_asset (demo_pubkey 1) NATIVE_LICN_ASSET_ID" "rr_mode demo_frozen = FrozenAmount 4000000" for n
    by (simp_all add: demo_direct_def is_effectively_active_def effective_status_def demo_frozen_def)
  with transfer_conserves_and_respects_freeze [OF p' demo_direct_ok(1), of 4000000] p' show ?thesis by auto
qed

theorem treasury_paying_directly_mints_its_fee_witness:
  "\<exists>p'. charge_fee_with_priority (demo_pubkey 1) 1000000 0
     (demo_direct\<lparr>tp_state := (tp_state demo_direct)\<lparr>st_treasury_pubkey := Some (demo_pubkey 1)\<rparr>\<rparr>) = Inr p' \<and>
     balance p' (demo_pubkey 1) = 5600000"
proof -
  let ?p = "demo_direct\<lparr>tp_state := (tp_state demo_direct)\<lparr>st_treasury_pubkey := Some (demo_pubkey 1)\<rparr>\<rparr>"
  have same: "b_get_account ?p k = b_get_account demo_direct k" for k
    by (simp add: b_get_account_def state_get_account_def demo_direct_def)
  have "balance ?p = balance demo_direct" by (rule ext) (simp add: balance_def same)
  moreover have "holders ?p = holders demo_direct" "burned ?p = burned demo_direct" by (simp_all add: holders_def burned_def demo_direct_def)
  ultimately have "total_supply ?p = 5000010" using demo_direct_ok(2) by (simp add: total_supply_def)
  then have room: "total_supply ?p + 1000000 \<le> u64_max" by (simp add: u64_max_def)
  have ok: "tp_ok ?p" using demo_direct_ok(1) by (simp add: tp_ok_def demo_direct_def)
  have dist: "validate_distribution (st_fee_config (tp_state ?p)) = Inr ()"
    using demo_ledger_ok by (simp add: ledger_ok_def demo_direct_def)
  have split: "fee_split (st_fee_config (tp_state ?p)) 1000000 0 = (400000, 600000)"
    using demo_fee_split by (simp add: demo_direct_def demo_store_def)
  have "balance ?p (demo_pubkey 1) = 5000000" by (simp add: balance_def same demo_get demo_account_def)
  moreover have pre: "\<not> tp_speculative ?p" "tp_batch ?p = None" "st_treasury_pubkey (tp_state ?p) = Some (demo_pubkey 1)"
    "b_get_account ?p (demo_pubkey 1) = Some (demo_account 5000000)" "1000000 \<le> ac_spendable (demo_account 5000000)"
    using same [of "demo_pubkey 1"] demo_get(1) by (simp_all only: same) (simp_all add: demo_direct_def demo_account_def)
  ultimately show ?thesis
    using treasury_paying_directly_mints_its_fee [OF pre(1,2) ok room dist _ pre(3) split _ pre(4,5)] by auto
qed

theorem refunds_mint_even_unpaid_premiums_witness:
  "\<exists>p'. refund_premium (demo_pubkey 1) CONTRACT_DEPLOY_FEE demo_direct = Inr p' \<and>
     total_supply p' = total_supply demo_direct + CONTRACT_DEPLOY_FEE"
proof -
  let ?free = "\<lparr>ix_program_id = SYSTEM_PROGRAM_ID, ix_accounts = [demo_pubkey 1], ix_data = [30]\<rparr>"
    and ?deploy = "\<lparr>ix_program_id = SYSTEM_PROGRAM_ID, ix_accounts = [demo_pubkey 1], ix_data = [17]\<rparr>"
  let ?tx = "demo_nonce_tx\<lparr>tx_message := (tx_message demo_nonce_tx)\<lparr>msg_instructions := [?free, ?deploy]\<rparr>\<rparr>"
  have "total_supply demo_direct + CONTRACT_DEPLOY_FEE \<le> u64_max"
    by (simp add: demo_direct_ok CONTRACT_DEPLOY_FEE_def u64_max_def)
  with refunds_mint_even_unpaid_premiums [of demo_direct CONTRACT_DEPLOY_FEE "demo_pubkey 1" ?tx ?free ?deploy "[]"
      fee_config_default "xe_ix_codec demo_env"]
  show ?thesis using demo_direct_ok demo_get by (auto simp: demo_direct_def fee_config_default_def)
qed

end
