(* ===== verification/Parallel_Groups.thy ===== *)
theory Parallel_Groups
  imports Fees
begin

text \<open>
  Grouping transactions for parallel execution (\<open>process_transactions_parallel\<close> of
  \<open>src/core/src/processor/execution.rs\<close>): the accounts and shared pools a transaction touches,
  the union-find over transaction indices with path compression, and the groups it yields. The
  lemmas show that its loops end, and that the groups are exactly the classes of transactions
  connected by shared accounts. What the worker threads then do is sequential per group.
\<close>

section \<open>Model\<close>

abbreviation CONFLICT_KEY_STAKE_POOL :: pubkey where "CONFLICT_KEY_STAKE_POOL \<equiv> Pubkey (replicate 32 0xFE)"
abbreviation CONFLICT_KEY_MOSSSTAKE_POOL :: pubkey where "CONFLICT_KEY_MOSSSTAKE_POOL \<equiv> Pubkey (replicate 32 0xFD)"
abbreviation CONFLICT_KEY_GOVERNED_PROPOSALS :: pubkey where "CONFLICT_KEY_GOVERNED_PROPOSALS \<equiv> Pubkey (replicate 32 0xFC)"
abbreviation CONFLICT_KEY_GOVERNANCE_PROPOSALS :: pubkey where "CONFLICT_KEY_GOVERNANCE_PROPOSALS \<equiv> Pubkey (replicate 32 0xFB)"
abbreviation CONFLICT_KEY_ORACLE :: pubkey where "CONFLICT_KEY_ORACLE \<equiv> Pubkey (replicate 32 0xFA)"
abbreviation CONFLICT_KEY_SHIELDED_POOL :: pubkey where "CONFLICT_KEY_SHIELDED_POOL \<equiv> Pubkey (replicate 32 0xF9)"

definition conflict_keys :: "u8 \<Rightarrow> pubkey list" where
  "conflict_keys k =
     (if k \<in> {9, 10, 11, 26, 27, 31, 38, 39}
      then CONFLICT_KEY_STAKE_POOL # (if k = 27 then [CONFLICT_KEY_MOSSSTAKE_POOL] else [])
      else if k \<in> {13, 14} then [CONFLICT_KEY_STAKE_POOL, CONFLICT_KEY_MOSSSTAKE_POOL]
      else if k \<in> {15, 16} then [CONFLICT_KEY_MOSSSTAKE_POOL]
      else if k \<in> {21, 22, 32, 33} then [CONFLICT_KEY_GOVERNED_PROPOSALS]
      else if 23 \<le> k \<and> k \<le> 25 then [CONFLICT_KEY_SHIELDED_POOL]
      else if k = 30 then [CONFLICT_KEY_ORACLE]
      else if 34 \<le> k \<and> k \<le> 37 then [CONFLICT_KEY_GOVERNANCE_PROPOSALS]
      else [])"

definition ix_conflicts :: "instruction \<Rightarrow> pubkey list" where
  "ix_conflicts ix =
     (if ix_program_id ix \<noteq> CONTRACT_PROGRAM_ID then [ix_program_id ix] else []) @ ix_accounts ix @
     (if ix_program_id ix = SYSTEM_PROGRAM_ID then (case opcode ix of Some k \<Rightarrow> conflict_keys k | None \<Rightarrow> []) else [])"

definition tx_accounts :: "transaction \<Rightarrow> pubkey list" where
  "tx_accounts tx = remdups (concat (map ix_conflicts (msg_instructions (tx_message tx))))"

text \<open>
  The two loops of \<open>uf_find\<close> run along parent links of a vector and may in principle run
  forever or leave it; both are \<^term>\<open>None\<close>.
\<close>

partial_function (option) uf_root :: "nat list \<Rightarrow> nat \<Rightarrow> nat option" where
  "uf_root parent root =
     (if root \<ge> length parent then None
      else if parent ! root = root then Some root
      else uf_root parent (parent ! root))"

partial_function (option) uf_compress :: "nat list \<Rightarrow> nat \<Rightarrow> nat \<Rightarrow> nat list option" where
  "uf_compress parent root current =
     (if current = root then Some parent
      else if current \<ge> length parent then None
      else uf_compress (parent[current := root]) root (parent ! current))"

definition uf_find :: "nat list \<Rightarrow> nat \<Rightarrow> (nat list \<times> nat) option" where
  "uf_find parent x =
     Option.bind (uf_root parent x) (\<lambda>root.
     Option.bind (uf_compress parent root x) (\<lambda>parent. Some (parent, root)))"

definition uf_union :: "nat list \<Rightarrow> nat \<Rightarrow> nat \<Rightarrow> nat list option" where
  "uf_union parent a b =
     Option.bind (uf_find parent a) (\<lambda>(parent, root_a).
     Option.bind (uf_find parent b) (\<lambda>(parent, root_b).
     Some (if root_a \<noteq> root_b then parent[root_a := root_b] else parent)))"

fun windows2 :: "nat list \<Rightarrow> (nat \<times> nat) list" where
  "windows2 (x # y # zs) = (x, y) # windows2 (y # zs)"
| "windows2 _ = []"

fun try_unions :: "('p \<Rightarrow> nat \<Rightarrow> nat \<Rightarrow> 'p option) \<Rightarrow> (nat \<times> nat) list \<Rightarrow> 'p \<Rightarrow> 'p option" where
  "try_unions unite [] p = Some p"
| "try_unions unite ((a, b) # es) p = Option.bind (unite p a b) (try_unions unite es)"

definition account_to_txs :: "pubkey list list \<Rightarrow> (pubkey, nat list) hmap" where
  "account_to_txs accs =
     fold (\<lambda>(i, as). fold (\<lambda>a m. hm_push a i m) as) (enumerate 0 accs) []"

fun group_loop :: "nat list \<Rightarrow> nat list \<Rightarrow> (nat, nat list) hmap \<Rightarrow> (nat, nat list) hmap option" where
  "group_loop [] parent m = Some m"
| "group_loop (i # is) parent m =
     Option.bind (uf_find parent i) (\<lambda>(parent, root). group_loop is parent (hm_push root i m))"

text \<open>
  The groups for \<open>n\<close> transactions; the index lists arrive in the iteration order of a hash map,
  which is an argument.
\<close>

definition tx_groups :: "nat \<Rightarrow> nat list list \<Rightarrow> nat list list option" where
  "tx_groups n indices =
     Option.bind (try_unions uf_union (concat (map windows2 indices)) [0..<n]) (\<lambda>parent.
     Option.bind (group_loop [0..<n] parent []) (\<lambda>m. Some (map snd m)))"

section \<open>The union-find interface\<close>

text \<open>
  What the grouping needs of a disjoint-set structure over \<open>0..<n\<close>: uniting always succeeds and
  sends the class of one element to the representative of the other.
\<close>

locale disjoint_sets =
  fixes valid :: "nat \<Rightarrow> 'p \<Rightarrow> bool" and rep :: "'p \<Rightarrow> nat \<Rightarrow> nat" and unite :: "'p \<Rightarrow> nat \<Rightarrow> nat \<Rightarrow> 'p option"
  assumes unite: "valid n p \<Longrightarrow> a < n \<Longrightarrow> b < n \<Longrightarrow>
    \<exists>p'. unite p a b = Some p' \<and> valid n p' \<and> (\<forall>x < n. rep p' x = (if rep p x = rep p a then rep p b else rep p x))"
begin

lemma unions_total:
  "valid n p \<Longrightarrow> \<forall>(a, b) \<in> set es. a < n \<and> b < n \<Longrightarrow> \<exists>p'. try_unions unite es p = Some p' \<and> valid n p' \<and>
     (\<forall>x < n. \<forall>y < n. rep p x = rep p y \<longrightarrow> rep p' x = rep p' y) \<and> (\<forall>(a, b) \<in> set es. rep p' a = rep p' b)"
proof (induction es arbitrary: p)
  case (Cons e es)
  obtain a b where e: "e = (a, b)" by force
  from Cons.prems e obtain q where q: "unite p a b = Some q" "valid n q"
    "\<forall>x < n. rep q x = (if rep p x = rep p a then rep p b else rep p x)" using unite [of n p a b] by auto
  from Cons.IH [OF q(2)] Cons.prems(2) obtain p' where p': "try_unions unite es q = Some p'" "valid n p'"
    "\<forall>x < n. \<forall>y < n. rep q x = rep q y \<longrightarrow> rep p' x = rep p' y" "\<forall>(a, b) \<in> set es. rep p' a = rep p' b" by auto
  have "a < n" "b < n" using Cons.prems(2) e by auto
  then have "rep q a = rep q b" using q(3) by simp
  with \<open>a < n\<close> \<open>b < n\<close> p'(3) have "rep p' a = rep p' b" by blast
  then have edges: "\<forall>(a, b) \<in> set (e # es). rep p' a = rep p' b" using e p'(4) by simp
  have keep: "rep p' x = rep p' y" if "x < n" "y < n" "rep p x = rep p y" for x y
  proof -
    have "rep q x = rep q y" using q(3) that by simp
    with that p'(3) show ?thesis by blast
  qed
  have "try_unions unite (e # es) p = Some p'" using e q(1) p'(1) by simp
  then show ?case using p'(2) keep edges by blast
qed simp

text \<open>Every relation that contains the old classes and the edges, and is an equivalence, contains the new classes.\<close>

lemma unions_least:
  assumes "sym C" "trans C"
  shows "valid n p \<Longrightarrow> \<forall>(a, b) \<in> set es. a < n \<and> b < n \<and> (a, b) \<in> C \<Longrightarrow> try_unions unite es p = Some p' \<Longrightarrow>
     \<forall>x < n. \<forall>y < n. rep p x = rep p y \<longrightarrow> (x, y) \<in> C \<Longrightarrow> \<forall>x < n. \<forall>y < n. rep p' x = rep p' y \<longrightarrow> (x, y) \<in> C"
proof (induction es arbitrary: p)
  case (Cons e es)
  obtain a b where e: "e = (a, b)" by force
  from Cons.prems e obtain q where q: "unite p a b = Some q" "valid n q"
    "\<And>x. x < n \<Longrightarrow> rep q x = (if rep p x = rep p a then rep p b else rep p x)" using unite [of n p a b] by auto
  have ab: "a < n" "b < n" "(a, b) \<in> C" "(b, a) \<in> C" using Cons.prems(2) e assms(1) by (auto dest: symD)
  have old: "(x, y) \<in> C" if "x < n" "y < n" "rep p x = rep p y" for x y using Cons.prems(4) that by blast
  have "(x, y) \<in> C" if xy: "x < n" "y < n" "rep q x = rep q y" for x y
  proof -
    consider "rep p x = rep p y" | "rep p x = rep p a" "rep p y = rep p b" | "rep p x = rep p b" "rep p y = rep p a"
      using q(3) [OF xy(1)] q(3) [OF xy(2)] xy(3) by (auto split: if_splits)
    then show ?thesis
    proof cases
      case 2
      with old xy ab have "(x, a) \<in> C" "(b, y) \<in> C" by auto
      with ab(3) assms(2) show ?thesis by (meson transD)
    next
      case 3
      with old xy ab have "(x, b) \<in> C" "(a, y) \<in> C" by auto
      with ab(4) assms(2) show ?thesis by (meson transD)
    qed (use old xy in blast)
  qed
  with Cons.IH [OF q(2)] Cons.prems(2,3) e q(1) show ?case by simp
qed simp

end

section \<open>Parent vectors\<close>

text \<open>A rank that falls along every parent link: the links have no cycle.\<close>

definition ranked :: "(nat \<Rightarrow> nat) \<Rightarrow> nat list \<Rightarrow> bool" where
  "ranked d p \<longleftrightarrow> (\<forall>i < length p. p ! i < length p \<and> (p ! i \<noteq> i \<longrightarrow> d (p ! i) < d i))"

definition forest :: "nat \<Rightarrow> nat list \<Rightarrow> bool" where
  "forest n p \<longleftrightarrow> length p = n \<and> (\<exists>d. ranked d p)"

definition uf_rep :: "nat list \<Rightarrow> nat \<Rightarrow> nat" where
  "uf_rep p x = (case uf_root p x of Some r \<Rightarrow> r | None \<Rightarrow> x)"

lemma uf_root_simps:
  "x < length p \<Longrightarrow> p ! x = x \<Longrightarrow> uf_root p x = Some x"
  "x < length p \<Longrightarrow> p ! x \<noteq> x \<Longrightarrow> uf_root p x = uf_root p (p ! x)"
  by (subst uf_root.simps, simp)+

lemma uf_root_ends:
  assumes "ranked d p"
  shows "x < length p \<Longrightarrow> \<exists>r. uf_root p x = Some r \<and> r < length p \<and> p ! r = r \<and> (x \<noteq> r \<longrightarrow> d r < d x)"
proof (induction "d x" arbitrary: x rule: less_induct)
  case less
  show ?case
  proof (cases "p ! x = x")
    case True
    with less.prems show ?thesis by (simp add: uf_root_simps)
  next
    case False
    with assms less.prems have next': "p ! x < length p" "d (p ! x) < d x" by (auto simp: ranked_def)
    from less.hyps [OF next'(2,1)] obtain r where "uf_root p (p ! x) = Some r" "r < length p" "p ! r = r" "p ! x \<noteq> r \<longrightarrow> d r < d (p ! x)"
      by blast
    with False less.prems next' show ?thesis by (intro exI [of _ r]) (auto simp: uf_root_simps)
  qed
qed

lemma uf_root_eq: "ranked d p \<Longrightarrow> x < length p \<Longrightarrow> uf_root p x = Some (uf_rep p x) \<and> uf_rep p x < length p \<and>
    p ! uf_rep p x = uf_rep p x \<and> (x \<noteq> uf_rep p x \<longrightarrow> d (uf_rep p x) < d x)"
  using uf_root_ends [of d p x] by (auto simp: uf_rep_def)

lemma uf_rep_step: "x < length p \<Longrightarrow> p ! x \<noteq> x \<Longrightarrow> uf_rep p x = (case uf_root p (p ! x) of Some r \<Rightarrow> r | None \<Rightarrow> x)"
  by (simp add: uf_rep_def uf_root_simps)

lemma redirect:
  assumes "ranked d p" "x < length p" "x \<noteq> uf_rep p x"
  shows "ranked d (p[x := uf_rep p x]) \<and> (\<forall>y < length p. uf_root (p[x := uf_rep p x]) y = uf_root p y)"
proof -
  let ?r = "uf_rep p x" let ?q = "p[x := ?r]"
  note r = uf_root_eq [OF assms(1,2)]
  have "uf_root ?q y = uf_root p y" if "y < length p" for y
    using that
  proof (induction "d y" arbitrary: y rule: less_induct)
    case less
    show ?case
    proof (cases "y = x")
      case True
      have "uf_root ?q ?r = Some ?r" using r assms(3) by (intro uf_root_simps) auto
      then show ?thesis using True r assms(2,3) by (simp add: uf_root_simps(2) [of x ?q])
    next
      case y: False
      show ?thesis
      proof (cases "p ! y = y")
        case True
        with y less.prems show ?thesis by (simp add: uf_root_simps)
      next
        case False
        with assms(1) less.prems have "p ! y < length p" "d (p ! y) < d y" by (auto simp: ranked_def)
        with less y False show ?thesis by (simp add: uf_root_simps(2))
      qed
    qed
  qed
  moreover have "ranked d ?q" using assms r by (auto simp: ranked_def nth_list_update)
  ultimately show ?thesis by blast
qed

lemma uf_compress_ends:
  "ranked d p \<Longrightarrow> x < length p \<Longrightarrow> \<exists>q. uf_compress p (uf_rep p x) x = Some q \<and> length q = length p \<and> ranked d q \<and>
     (\<forall>y < length p. uf_root q y = uf_root p y)"
proof (induction "d x" arbitrary: x p rule: less_induct)
  case less
  let ?r = "uf_rep p x"
  note r = uf_root_eq [OF less.prems]
  show ?case
  proof (cases "x = ?r")
    case True
    then have "uf_compress p ?r x = Some p" by (subst uf_compress.simps) simp
    with less.prems show ?thesis by blast
  next
    case False
    let ?q = "p[x := ?r]"
    note red = redirect [OF less.prems False]
    have "p ! x \<noteq> x" using False less.prems by (auto simp: uf_rep_def uf_root_simps)
    with less.prems have nxt: "p ! x < length p" "d (p ! x) < d x" by (auto simp: ranked_def)
    have "uf_root p (p ! x) = Some ?r" using r less.prems(2) \<open>p ! x \<noteq> x\<close> by (simp add: uf_root_simps)
    then have rep: "uf_rep ?q (p ! x) = ?r" using red nxt(1) by (simp add: uf_rep_def)
    from less.hyps [OF nxt(2), of ?q] red nxt(1) rep obtain q where q: "uf_compress ?q ?r (p ! x) = Some q"
      "length q = length p" "ranked d q" "\<forall>y < length p. uf_root q y = uf_root ?q y" by auto
    have "uf_compress p ?r x = uf_compress ?q ?r (p ! x)"
      using False less.prems(2) by (subst uf_compress.simps) simp
    with q red show ?thesis by auto
  qed
qed

lemma uf_find_ends:
  assumes "ranked d p" "x < length p"
  shows "\<exists>q. uf_find p x = Some (q, uf_rep p x) \<and> length q = length p \<and> ranked d q \<and> (\<forall>y < length p. uf_root q y = uf_root p y)"
  using uf_compress_ends [OF assms] uf_root_eq [OF assms] by (auto simp: uf_find_def)

lemma link_roots:
  assumes "ranked d p" "a < length p" "b < length p" "p ! a = a" "p ! b = b" "a \<noteq> b"
  shows "(\<exists>d. ranked d (p[a := b])) \<and>
    (\<forall>y < length p. uf_root (p[a := b]) y = (if uf_root p y = Some a then Some b else uf_root p y))"
proof -
  let ?q = "p[a := b]"
  have "uf_root ?q b = Some b" using assms by (intro uf_root_simps) auto
  then have ra: "uf_root ?q a = Some b" using assms by (simp add: uf_root_simps(2) [of a ?q])
  have root: "uf_root ?q y = (if uf_root p y = Some a then Some b else uf_root p y)" if "y < length p" for y
    using that
  proof (induction "d y" arbitrary: y rule: less_induct)
    case less
    consider "y = a" | "y \<noteq> a" "p ! y = y" | "y \<noteq> a" "p ! y \<noteq> y" by blast
    then show ?case
    proof cases
      case 1
      then show ?thesis using ra assms by (simp add: uf_root_simps)
    next
      case 2
      with less.prems show ?thesis by (simp add: uf_root_simps)
    next
      case 3
      with assms(1) less.prems have "p ! y < length p" "d (p ! y) < d y" by (auto simp: ranked_def)
      with less 3 show ?thesis by (simp add: uf_root_simps(2))
    qed
  qed
  let ?d = "\<lambda>y. d y + (if uf_root p y = Some a then Suc (d b) else 0)"
  have ab: "uf_root p b = Some b" "uf_root p a = Some a" using assms by (simp_all add: uf_root_simps)
  have "?q ! y < length p \<and> (?q ! y \<noteq> y \<longrightarrow> ?d (?q ! y) < ?d y)" if "y < length p" for y
  proof (cases "y = a")
    case False
    have "uf_root p (p ! y) = uf_root p y" using that by (cases "p ! y = y") (simp_all add: uf_root_simps(2) [of y])
    with False that assms(1) show ?thesis by (simp add: ranked_def)
  qed (use ab assms in simp)
  then have "ranked ?d ?q" by (simp add: ranked_def)
  with root show ?thesis by blast
qed

interpretation uf: disjoint_sets forest uf_rep uf_union
proof
  fix n p a b
  assume "forest n p" "a < n" "b < n"
  then obtain d where p: "length p = n" "ranked d p" "a < length p" "b < length p" by (auto simp: forest_def)
  from uf_find_ends [OF p(2,3)] obtain q where q: "uf_find p a = Some (q, uf_rep p a)" "length q = length p" "ranked d q"
    "\<forall>y < length p. uf_root q y = uf_root p y" by blast
  from uf_find_ends [OF q(3), of b] p q(2) obtain r where r: "uf_find q b = Some (r, uf_rep q b)" "length r = length p" "ranked d r"
    "\<forall>y < length p. uf_root r y = uf_root q y" by auto
  have rep: "uf_rep q y = uf_rep p y" "uf_rep r y = uf_rep p y" if "y < length p" for y
    using that q(4) r(4) by (simp_all add: uf_rep_def)
  let ?a = "uf_rep p a" and ?b = "uf_rep p b"
  have roots: "?a < length r" "r ! ?a = ?a" "?b < length r" "r ! ?b = ?b"
    using uf_root_eq [OF r(3), of a] uf_root_eq [OF r(3), of b] p r(2) rep by auto
  have run: "uf_union p a b = Some (if ?a \<noteq> ?b then r[?a := ?b] else r)"
    using q(1) r(1) rep p(4) by (simp add: uf_union_def)
  show "\<exists>p'. uf_union p a b = Some p' \<and> forest n p' \<and> (\<forall>x < n. uf_rep p' x = (if uf_rep p x = uf_rep p a then uf_rep p b else uf_rep p x))"
  proof (cases "?a = ?b")
    case True
    with run r p rep show ?thesis by (auto simp: forest_def)
  next
    case False
    note link = link_roots [OF r(3) roots(1,3,2,4) False]
    have "uf_rep (r[?a := ?b]) x = (if uf_rep p x = ?a then ?b else uf_rep p x)" if "x < n" for x
    proof -
      have "uf_root r x = Some (uf_rep p x)" using uf_root_eq [OF r(3), of x] that p(1) r(2) rep by simp
      with link that p(1) r(2) show ?thesis by (simp add: uf_rep_def [of "r[?a := ?b]"])
    qed
    with run False link r(2) p(1) show ?thesis by (auto simp: forest_def)
  qed
qed

lemma identity_forest: "forest n [0..<n]" "x < n \<Longrightarrow> uf_rep [0..<n] x = x"
  by (auto simp: forest_def ranked_def uf_rep_def uf_root_simps)

section \<open>Index lists and groups\<close>

lemma push_keys: "distinct (map fst m) \<Longrightarrow> distinct (map fst (hm_push k v m))" "fst ` set (hm_push k v m) = insert k (fst ` set m)"
  by (simp_all add: hm_push_def distinct_update dom_update)

lemma push_all:
  assumes "distinct as"
  shows "hm_get_or [] (fold (\<lambda>a m. hm_push a i m) as m) k = hm_get_or [] m k @ (if k \<in> set as then [i] else []) \<and>
    (distinct (map fst m) \<longrightarrow> distinct (map fst (fold (\<lambda>a m. hm_push a i m) as m)))"
  using assms by (induction as arbitrary: m) (auto simp: push_keys)

lemma account_to_txs_spec:
  assumes "\<forall>as \<in> set accs. distinct as"
  shows "hm_get_or [] (account_to_txs accs) k = filter (\<lambda>i. k \<in> set (accs ! i)) [0..<length accs] \<and>
    distinct (map fst (account_to_txs accs))"
  using assms
proof (induction accs rule: rev_induct)
  case (snoc as accs)
  have "account_to_txs (accs @ [as]) = fold (\<lambda>a m. hm_push a (length accs) m) as (account_to_txs accs)"
    by (simp add: account_to_txs_def enumerate_append_eq)
  moreover have "filter (\<lambda>i. k \<in> set ((accs @ [as]) ! i)) [0..<length accs] = filter (\<lambda>i. k \<in> set (accs ! i)) [0..<length accs]"
    by (rule filter_cong) (auto simp: nth_append)
  ultimately show ?case using snoc push_all [of as "length accs" "account_to_txs accs" k] by (simp add: nth_append)
qed (simp add: account_to_txs_def hm_get_or_def)

lemma group_loop_ends:
  "forest n p \<Longrightarrow> \<forall>i \<in> set is. i < n \<Longrightarrow> distinct (map fst m) \<Longrightarrow> \<exists>m'. group_loop is p m = Some m' \<and> distinct (map fst m') \<and>
     (\<forall>r. hm_get_or [] m' r = hm_get_or [] m r @ filter (\<lambda>i. uf_rep p i = r) is) \<and> fst ` set m' = fst ` set m \<union> uf_rep p ` set is"
proof (induction "is" arbitrary: p m)
  case (Cons i "is")
  from Cons.prems obtain d where p: "length p = n" "ranked d p" "i < length p" by (auto simp: forest_def)
  from uf_find_ends [OF p(2,3)] obtain q where q: "uf_find p i = Some (q, uf_rep p i)" "length q = length p" "ranked d q"
    "\<forall>y < length p. uf_root q y = uf_root p y" by blast
  have rep: "uf_rep q y = uf_rep p y" if "y \<in> set is" for y using that Cons.prems(2) p(1) q(4) by (simp add: uf_rep_def)
  have "forest n q" using q p by (auto simp: forest_def)
  from Cons.IH [OF this, of "hm_push (uf_rep p i) i m"] Cons.prems(2,3) obtain m' where
    m': "group_loop is q (hm_push (uf_rep p i) i m) = Some m'" "distinct (map fst m')"
    "\<forall>r. hm_get_or [] m' r = hm_get_or [] (hm_push (uf_rep p i) i m) r @ filter (\<lambda>i. uf_rep q i = r) is"
    "fst ` set m' = fst ` set (hm_push (uf_rep p i) i m) \<union> uf_rep q ` set is" by (auto simp: push_keys)
  have "filter (\<lambda>i. uf_rep q i = r) is = filter (\<lambda>i. uf_rep p i = r) is" for r
    using rep by (intro filter_cong) auto
  moreover have "uf_rep q ` set is = uf_rep p ` set is" using rep by (intro image_cong) auto
  ultimately show ?case using m' q(1) by (intro exI [of _ m']) (auto simp: push_keys)
qed simp

lemma windows2_sub: "(a, b) \<in> set (windows2 xs) \<Longrightarrow> a \<in> set xs \<and> b \<in> set xs"
  by (induction xs rule: windows2.induct) auto

lemma windows2_chain:
  "\<forall>(a, b) \<in> set (windows2 xs). f a = f b \<Longrightarrow> x \<in> set xs \<Longrightarrow> y \<in> set xs \<Longrightarrow> f x = f y"
proof (induction xs arbitrary: x y rule: windows2.induct)
  case (1 a b xs)
  have rest: "f z = f b" if "z \<in> set (b # xs)" for z using 1(1) [of z b] 1(2) that by simp
  have first: "f a = f b" using 1(2) by simp
  have all: "f z = f b" if "z \<in> set (a # b # xs)" for z
    using that first rest [of z] by (cases "z = a") simp_all
  show ?case using all [OF 1(3)] all [OF 1(4)] by simp
qed auto

lemma uf_groups_exist:
  assumes "\<forall>l \<in> set indices. \<forall>i \<in> set l. i < n"
  shows "\<exists>groups. tx_groups n indices = Some groups"
proof -
  let ?es = "concat (map windows2 indices)"
  have "\<forall>(a, b) \<in> set ?es. a < n \<and> b < n" using assms windows2_sub by fastforce
  from uf.unions_total [OF identity_forest(1) this] obtain p where p: "try_unions uf_union ?es [0..<n] = Some p" "forest n p"
    by blast
  from group_loop_ends [OF p(2), of "[0..<n]" "[]"] p(1) show ?thesis by (auto simp: tx_groups_def)
qed

lemma distinct_concat_groups:
  "distinct (map fst m) \<Longrightarrow> (\<And>r g. (r, g) \<in> set m \<Longrightarrow> distinct g \<and> (\<forall>i \<in> set g. f i = r)) \<Longrightarrow> distinct (concat (map snd m))"
proof (induction m)
  case (Cons x m)
  obtain r g where x: "x = (r, g)" by force
  have "distinct (concat (map snd m))" using Cons by auto
  moreover have "set g \<inter> set (concat (map snd m)) = {}"
  proof -
    have "f i \<noteq> r" if "i \<in> set h" "(r', h) \<in> set m" for i r' h
      using Cons.prems(1) Cons.prems(2) [of r' h] that x by (auto simp: image_iff)
    then show ?thesis using Cons.prems(2) [of r g] x by force
  qed
  ultimately show ?case using Cons.prems(2) [of r g] x by simp
qed simp

definition conflict :: "transaction list \<Rightarrow> (nat \<times> nat) set" where
  "conflict txs = {(i, j). i < length txs \<and> j < length txs \<and> set (tx_accounts (txs ! i)) \<inter> set (tx_accounts (txs ! j)) \<noteq> {}}"

text \<open>The index lists of a block: one per account, the transactions that touch it in ascending order.\<close>

lemma index_lists:
  fixes txs :: "transaction list"
  defines "m \<equiv> account_to_txs (map tx_accounts txs)"
  shows "l \<in> set (map snd m) \<Longrightarrow> \<exists>k. l = filter (\<lambda>i. k \<in> set (tx_accounts (txs ! i))) [0..<length txs]"
    and "(i, j) \<in> conflict txs \<Longrightarrow> \<exists>l \<in> set (map snd m). i \<in> set l \<and> j \<in> set l"
proof -
  have "\<forall>as \<in> set (map tx_accounts txs). distinct as" by (auto simp: tx_accounts_def)
  note spec = account_to_txs_spec [OF this, folded m_def]
  have eq: "filter (\<lambda>i. k \<in> set (map tx_accounts txs ! i)) [0..<length txs] = filter (\<lambda>i. k \<in> set (tx_accounts (txs ! i))) [0..<length txs]" for k
    by (rule filter_cong) auto
  show "\<exists>k. l = filter (\<lambda>i. k \<in> set (tx_accounts (txs ! i))) [0..<length txs]" if "l \<in> set (map snd m)"
  proof -
    from that obtain k where "(k, l) \<in> set m" by auto
    then have "map_of m k = Some l" using spec by simp
    with spec [of k] eq show ?thesis by (auto simp: hm_get_or_def)
  qed
  show "\<exists>l \<in> set (map snd m). i \<in> set l \<and> j \<in> set l" if "(i, j) \<in> conflict txs"
  proof -
    from that obtain k where k: "i < length txs" "j < length txs" "k \<in> set (tx_accounts (txs ! i))" "k \<in> set (tx_accounts (txs ! j))"
      by (auto simp: conflict_def)
    then have ij: "i \<in> set (hm_get_or [] m k)" "j \<in> set (hm_get_or [] m k)" using spec [of k] by auto
    then obtain l where l: "map_of m k = Some l" by (cases "map_of m k") (auto simp: hm_get_or_def)
    then have "l \<in> set (map snd m)" using map_of_SomeD by force
    with ij l show ?thesis by (auto simp: hm_get_or_def)
  qed
qed

lemma index_bound:
  assumes "set indices \<subseteq> set (map snd (account_to_txs (map tx_accounts txs)))" "l \<in> set indices" "i \<in> set l"
  shows "i < length txs"
proof -
  from index_lists(1) [of l txs] assms(1,2) obtain k where "l = filter (\<lambda>i. k \<in> set (tx_accounts (txs ! i))) [0..<length txs]" by blast
  with assms(3) show ?thesis by auto
qed

lemma block_unions:
  assumes "set indices = set (map snd (account_to_txs (map tx_accounts txs)))"
  shows "\<exists>p. try_unions uf_union (concat (map windows2 indices)) [0..<length txs] = Some p \<and> forest (length txs) p \<and>
    (\<forall>i < length txs. \<forall>j < length txs. uf_rep p i = uf_rep p j \<longleftrightarrow> (i, j) \<in> (conflict txs)\<^sup>*)"
proof -
  let ?n = "length txs" and ?es = "concat (map windows2 indices)" and ?C = "(conflict txs)\<^sup>*"
  have edge: "a < ?n \<and> b < ?n \<and> (a, b) \<in> ?C" if ab: "(a, b) \<in> set ?es" for a b
  proof -
    from ab obtain l where l: "l \<in> set indices" "(a, b) \<in> set (windows2 l)" by auto
    from index_lists(1) l(1) assms obtain k where "l = filter (\<lambda>i. k \<in> set (tx_accounts (txs ! i))) [0..<?n]" by blast
    with windows2_sub [OF l(2)] have "(a, b) \<in> conflict txs" by (auto simp: conflict_def)
    then show ?thesis by (auto simp: conflict_def)
  qed
  have in_range: "\<forall>(a, b) \<in> set ?es. a < ?n \<and> b < ?n" "\<forall>(a, b) \<in> set ?es. a < ?n \<and> b < ?n \<and> (a, b) \<in> ?C"
    using edge by blast+
  from uf.unions_total [OF identity_forest(1) in_range(1)] obtain p where p: "try_unions uf_union ?es [0..<?n] = Some p" "forest ?n p"
    "\<forall>(a, b) \<in> set ?es. uf_rep p a = uf_rep p b" by blast
  have same: "uf_rep p i = uf_rep p j" if "(i, j) \<in> conflict txs" for i j
  proof -
    from index_lists(2) [OF that] assms obtain l where l: "l \<in> set indices" "i \<in> set l" "j \<in> set l" by auto
    have "\<forall>(a, b) \<in> set (windows2 l). uf_rep p a = uf_rep p b" using p(3) l(1) by auto
    from windows2_chain [OF this l(2,3)] show ?thesis .
  qed
  have star: "uf_rep p i = uf_rep p j" if "(i, j) \<in> ?C" for i j using that by (induction rule: rtrancl_induct) (auto dest: same)
  have "sym (conflict txs)" by (auto simp: sym_def conflict_def)
  from uf.unions_least [OF sym_rtrancl [OF this] trans_rtrancl identity_forest(1) in_range(2) p(1)]
  have "(i, j) \<in> ?C" if "i < ?n" "j < ?n" "uf_rep p i = uf_rep p j" for i j
    using that identity_forest(2) by simp
  with p(1,2) star show ?thesis by blast
qed

lemma groups_of_roots:
  assumes "forest n p" "group_loop [0..<n] p [] = Some m"
  shows "distinct (concat (map snd m)) \<and> set (concat (map snd m)) = {..<n} \<and> (\<forall>g \<in> set (map snd m). sorted g) \<and>
    (\<forall>i < n. \<forall>j < n. (\<exists>g \<in> set (map snd m). i \<in> set g \<and> j \<in> set g) \<longleftrightarrow> uf_rep p i = uf_rep p j)"
proof -
  let ?members = "\<lambda>r. filter (\<lambda>i. uf_rep p i = r) [0..<n]"
  from group_loop_ends [OF assms(1), of "[0..<n]" "[]"] assms(2) have m: "distinct (map fst m)"
    "\<And>r. hm_get_or [] m r = ?members r" "fst ` set m = uf_rep p ` {..<n}"
    by (auto simp: hm_get_or_def atLeast0LessThan)
  have val: "g = ?members r" if "(r, g) \<in> set m" for r g using that m(1) m(2) [of r] by (auto simp: hm_get_or_def)
  have inm: "(uf_rep p i, ?members (uf_rep p i)) \<in> set m" if "i < n" for i
  proof -
    have "uf_rep p i \<in> fst ` set m" using m(3) that by simp
    then obtain g where g: "(uf_rep p i, g) \<in> set m" by auto
    with val [OF g] show ?thesis by simp
  qed
  have mem: "distinct g \<and> sorted g \<and> (\<forall>i \<in> set g. uf_rep p i = r) \<and> set g \<subseteq> {..<n}" if "(r, g) \<in> set m" for r g
    using val [OF that] by (auto simp: sorted_wrt_filter)
  then have "distinct (concat (map snd m))" by (intro distinct_concat_groups [where f = "uf_rep p", OF m(1)]) blast
  moreover have "set (concat (map snd m)) \<subseteq> {..<n}" by (auto dest!: mem)
  moreover have "{..<n} \<subseteq> set (concat (map snd m))" using inm by force
  moreover have "\<forall>g \<in> set (map snd m). sorted g" by (auto dest: mem)
  moreover have "uf_rep p i = uf_rep p j" if "g \<in> set (map snd m)" "i \<in> set g" "j \<in> set g" for g i j
    using that mem by fastforce
  moreover have "\<exists>g \<in> set (map snd m). i \<in> set g \<and> j \<in> set g" if "i < n" "j < n" "uf_rep p i = uf_rep p j" for i j
    using inm [OF that(1)] that by force
  ultimately show ?thesis by blast
qed

text \<open>
  C15: the grouping of a block ends, in whatever order the hash map yields the accounts: the two
  loops of every find follow parent links that never form a cycle and never leave the vector,
  through all the unions and path compressions that the block's shared accounts cause.
\<close>

theorem grouping_terminates:
  assumes "set indices \<subseteq> set (map snd (account_to_txs (map tx_accounts txs)))"
  shows "\<exists>groups. tx_groups (length txs) indices = Some groups"
  using index_bound [OF assms] by (intro uf_groups_exist) blast

text \<open>
  C14: the groups of a block are exactly the classes of transactions connected by shared accounts
  or pools: every transaction is in one group, in block order, and two are in the same group if
  and only if a chain of transactions, each sharing a key with the next, links them. Two
  transactions that share an account therefore never run in different threads.
\<close>

theorem groups_are_conflict_classes:
  assumes "set indices = set (map snd (account_to_txs (map tx_accounts txs)))" "tx_groups (length txs) indices = Some groups"
  shows "distinct (concat groups) \<and> set (concat groups) = {..<length txs} \<and> (\<forall>g \<in> set groups. sorted g) \<and>
    (\<forall>i < length txs. \<forall>j < length txs. (\<exists>g \<in> set groups. i \<in> set g \<and> j \<in> set g) \<longleftrightarrow> (i, j) \<in> (conflict txs)\<^sup>*)"
proof -
  from block_unions [OF assms(1)] obtain p where p: "try_unions uf_union (concat (map windows2 indices)) [0..<length txs] = Some p"
    "forest (length txs) p" "\<forall>i < length txs. \<forall>j < length txs. uf_rep p i = uf_rep p j \<longleftrightarrow> (i, j) \<in> (conflict txs)\<^sup>*" by blast
  from assms(2) p(1) obtain m where m: "group_loop [0..<length txs] p [] = Some m" "groups = map snd m"
    by (auto simp: tx_groups_def bind_eq_Some_conv)
  show ?thesis using groups_of_roots [OF p(2) m(1)] p(3) m(2) by blast
qed

lemma program_in_accounts:
  "ix \<in> set (msg_instructions (tx_message tx)) \<Longrightarrow> ix_program_id ix \<noteq> CONTRACT_PROGRAM_ID \<Longrightarrow> ix_program_id ix \<in> set (tx_accounts tx)"
proof -
  assume ix: "ix \<in> set (msg_instructions (tx_message tx))" and ne: "ix_program_id ix \<noteq> CONTRACT_PROGRAM_ID"
  have "ix_program_id ix \<in> set (ix_conflicts ix)" using ne unfolding ix_conflicts_def set_append
    by (simp only: if_True not_False_eq_True list.set UnI1 insertI1 simp_thms)
  with ix show ?thesis unfolding tx_accounts_def set_remdups set_concat set_map by blast
qed

theorem grouping_terminates_witness:
  "\<exists>groups. tx_groups (length [demo_transaction 1, demo_transaction 2])
     (map snd (account_to_txs (map tx_accounts [demo_transaction 1, demo_transaction 2]))) = Some groups"
  by (rule grouping_terminates) simp

theorem groups_are_conflict_classes_witness:
  "\<exists>groups. tx_groups (length [demo_transaction 1, demo_transaction 2])
     (map snd (account_to_txs (map tx_accounts [demo_transaction 1, demo_transaction 2]))) = Some groups \<and>
     (\<exists>g \<in> set groups. 0 \<in> set g \<and> 1 \<in> set g)"
proof -
  let ?txs = "[demo_transaction 1, demo_transaction 2]"
  let ?ls = "map snd (account_to_txs (map tx_accounts ?txs))"
  obtain groups where g: "tx_groups (length ?txs) ?ls = Some groups"
    using uf_groups_exist [of ?ls "length ?txs"] index_bound [of ?ls ?txs] by blast
  have ne: "Pubkey (replicate 32 0) \<noteq> CONTRACT_PROGRAM_ID" by (simp add: CONTRACT_PROGRAM_ID_def replicate_eq_replicate)
  have sys: "Pubkey (replicate 32 0) \<in> set (tx_accounts (demo_transaction n))" for n
  proof -
    have "hd (msg_instructions (tx_message (demo_transaction n))) \<in> set (msg_instructions (tx_message (demo_transaction n)))"
      "ix_program_id (hd (msg_instructions (tx_message (demo_transaction n)))) = Pubkey (replicate 32 0)"
      by (simp_all only: demo_transaction_def transaction.select_convs message.select_convs list.sel list.set instruction.select_convs insertI1)
    with ne program_in_accounts show ?thesis by metis
  qed
  have "(0, 1) \<in> conflict ?txs" unfolding conflict_def using sys [of 1] sys [of 2] by (simp add: disjoint_iff) blast
  then have "(0, 1) \<in> (conflict ?txs)\<^sup>*" by blast
  moreover have "0 < length ?txs" "1 < length ?txs" by simp_all
  ultimately have "\<exists>g \<in> set groups. 0 \<in> set g \<and> 1 \<in> set g"
    using groups_are_conflict_classes [OF refl g] by blast
  with g show ?thesis by blast
qed

end
