(* ===== verification/Moss_Stake.thy ===== *)
theory Moss_Stake
  imports Stake_Info "HOL-Library.Product_Lexorder" "HOL-Library.Multiset"
begin

text \<open>
  The MossStake liquid staking pool (\<open>src/core/src/mossstake.rs\<close>): LICN is deposited for stLICN
  shares, rewards and slashes change what the shares are worth, and leaving the pool takes a
  cooldown. The operations exist in a slot-only form and in a wall-clock form that replays an
  interval of the test network; they differ in the clock fields only and are one definition
  here, whose first argument is the wall clock, if any. The positions are a \<open>BTreeMap\<close>, which is
  walked in the order of the owners. Snapshots and hashes of the pool are not modelled.
\<close>

section \<open>Shares and tiers\<close>

abbreviation RATE_PRECISION :: nat where "RATE_PRECISION \<equiv> 1000000000"

record st_licn_token =
  tk_total_supply :: u64
  tk_total_licn_staked :: u64
  tk_exchange_rate_fp :: u64

definition st_licn_new :: st_licn_token where
  "st_licn_new = \<lparr>tk_total_supply = 0, tk_total_licn_staked = 0, tk_exchange_rate_fp = RATE_PRECISION\<rparr>"

definition calculate_exchange_rate_fp :: "st_licn_token \<Rightarrow> u64" where
  "calculate_exchange_rate_fp t =
     (if tk_total_supply t = 0 then RATE_PRECISION
      else as_u64 (tk_total_licn_staked t * RATE_PRECISION div tk_total_supply t))"

definition licn_to_st_licn :: "st_licn_token \<Rightarrow> u64 \<Rightarrow> u64" where
  "licn_to_st_licn t licn_amount =
     (if tk_total_supply t = 0 then licn_amount
      else as_u64 (licn_amount * RATE_PRECISION div max (tk_exchange_rate_fp t) 1))"

datatype lock_tier = Flexible | Lock30 | Lock180 | Lock365

fun reward_multiplier_bp :: "lock_tier \<Rightarrow> u64" where
  "reward_multiplier_bp Flexible = 10000"
| "reward_multiplier_bp Lock30 = 16000"
| "reward_multiplier_bp Lock180 = 24000"
| "reward_multiplier_bp Lock365 = 36000"

fun lock_duration_slots :: "lock_tier \<Rightarrow> u64" where
  "lock_duration_slots Flexible = 0"
| "lock_duration_slots Lock30 = 6480000"
| "lock_duration_slots Lock180 = 38880000"
| "lock_duration_slots Lock365 = 78840000"

fun lock_duration_seconds :: "lock_tier \<Rightarrow> u64" where
  "lock_duration_seconds Flexible = 0"
| "lock_duration_seconds Lock30 = 30 * 86400"
| "lock_duration_seconds Lock180 = 180 * 86400"
| "lock_duration_seconds Lock365 = 365 * 86400"

section \<open>The pool\<close>

record staking_position =
  po_owner :: pubkey
  po_st_licn_amount :: u64
  po_licn_deposited :: u64
  po_deposited_at :: u64
  po_deposited_at_unix_seconds :: u64
  po_rewards_earned :: u64
  po_lock_tier :: lock_tier
  po_lock_until :: u64
  po_lock_until_unix_seconds :: u64

record moss_request =
  mr_owner :: pubkey
  mr_st_licn_amount :: u64
  mr_licn_to_receive :: u64
  mr_requested_at :: u64
  mr_claimable_at :: u64
  mr_requested_at_unix_seconds :: u64
  mr_claimable_at_unix_seconds :: u64

record moss_slash_settlement =
  ms_requested_loss :: u64
  ms_active_backing_loss :: u64
  ms_cooling_down_loss :: u64

definition actual_loss :: "moss_slash_settlement \<Rightarrow> err + u64" where
  "actual_loss s = ok_or (checked_add (ms_active_backing_loss s) (ms_cooling_down_loss s)) ''MossStake slash settlement overflow''"

record moss_pool =
  mp_token :: st_licn_token
  mp_positions :: "(pubkey, staking_position) hmap"
  mp_requests :: "(pubkey, moss_request list) hmap"
  mp_total_validators :: u64
  mp_average_apy_bp :: u64

definition moss_new :: moss_pool where
  "moss_new = \<lparr>mp_token = st_licn_new, mp_positions = [], mp_requests = [], mp_total_validators = 0, mp_average_apy_bp = 0\<rparr>"

definition validate_position :: "u64 \<times> u64 \<Rightarrow> pubkey \<times> staking_position \<Rightarrow> err + (u64 \<times> u64)" where
  "validate_position = (\<lambda>(shares, total) (owner, position).
     if po_owner position \<noteq> owner then Inl ''MossStake position key does not match embedded owner''
     else if po_st_licn_amount position = 0 then Inl ''MossStake position has zero stLICN''
     else
       rbind (ok_or (checked_add shares (po_st_licn_amount position)) ''MossStake position share total overflow'') (\<lambda>shares.
       rbind (ok_or (checked_add (po_licn_deposited position) (po_rewards_earned position)) ''MossStake position value overflow'') (\<lambda>v.
       rbind (ok_or (checked_add total v) ''MossStake position value total overflow'') (\<lambda>total.
       Inr (shares, total)))))"

definition validate_bucket :: "pubkey \<times> moss_request list \<Rightarrow> err + unit" where
  "validate_bucket = (\<lambda>(owner, requests).
     if requests = [] then Inl ''MossStake request bucket is empty''
     else try_fold (\<lambda>_ request.
       if mr_owner request \<noteq> owner then Inl ''MossStake request key does not match embedded owner''
       else if mr_st_licn_amount request = 0 \<or> mr_licn_to_receive request = 0 then Inl ''MossStake request has zero value''
       else if mr_claimable_at request < mr_requested_at request
       then Inl ''MossStake request has a slot deadline before its request''
       else if mr_claimable_at_unix_seconds request > 0 \<and>
           mr_claimable_at_unix_seconds request < mr_requested_at_unix_seconds request
       then Inl ''MossStake request has a timestamp deadline before its request''
       else Inr ()) () requests)"

definition moss_validate_invariants :: "moss_pool \<Rightarrow> err + unit" where
  "moss_validate_invariants p =
     rbind (try_fold validate_position (0, 0) (sort_key fst (mp_positions p))) (\<lambda>(shares, total).
     if shares \<noteq> tk_total_supply (mp_token p) then Inl ''MossStake share mismatch''
     else if total \<noteq> tk_total_licn_staked (mp_token p) then Inl ''MossStake backing mismatch''
     else if tk_exchange_rate_fp (mp_token p) \<noteq> calculate_exchange_rate_fp (mp_token p)
     then Inl ''MossStake exchange-rate mismatch''
     else try_fold (\<lambda>_. validate_bucket) () (mp_requests p))"

definition split_position_value_for_unstake :: "staking_position \<Rightarrow> u64 \<Rightarrow> err + (u64 \<times> u64 \<times> u64)" where
  "split_position_value_for_unstake position st_licn_amount =
     (let shares = po_st_licn_amount position; principal = po_licn_deposited position; rewards = po_rewards_earned position in
      if shares = 0 then Inl ''Position has no stLICN''
      else if shares < st_licn_amount then Inl ''Insufficient stLICN''
      else if st_licn_amount = shares then
        rbind (ok_or (checked_add principal rewards) ''MossStake position value overflow'') (\<lambda>licn_to_receive.
        Inr (principal, rewards, licn_to_receive))
      else
        let principal_out = as_u64 (st_licn_amount * principal div shares);
            rewards_out = as_u64 (st_licn_amount * rewards div shares) in
        rbind (ok_or (checked_add principal_out rewards_out) ''MossStake unstake value overflow'') (\<lambda>licn_to_receive.
        Inr (principal_out, rewards_out, licn_to_receive)))"

section \<open>Legacy clock fields\<close>

definition clear_wall_clock_times :: "moss_pool \<Rightarrow> moss_pool \<times> bool" where
  "clear_wall_clock_times p =
     (p\<lparr>mp_positions := map (\<lambda>(k, po). (k, po\<lparr>po_deposited_at_unix_seconds := 0, po_lock_until_unix_seconds := 0\<rparr>)) (mp_positions p),
        mp_requests := map (\<lambda>(k, rs). (k, map (\<lambda>r. r\<lparr>mr_requested_at_unix_seconds := 0, mr_claimable_at_unix_seconds := 0\<rparr>) rs))
          (mp_requests p)\<rparr>,
      list_ex (\<lambda>(_, po). po_deposited_at_unix_seconds po \<noteq> 0 \<or> po_lock_until_unix_seconds po \<noteq> 0) (mp_positions p) \<or>
      list_ex (\<lambda>(_, rs). list_ex (\<lambda>r. mr_requested_at_unix_seconds r \<noteq> 0 \<or> mr_claimable_at_unix_seconds r \<noteq> 0) rs) (mp_requests p))"

definition backfill_position :: "(u64 \<Rightarrow> u64 option) \<Rightarrow> staking_position \<Rightarrow> staking_position" where
  "backfill_position timestamp_for_slot po =
     (let po = (case (if po_deposited_at_unix_seconds po = 0 then timestamp_for_slot (po_deposited_at po) else None) of
            Some ts \<Rightarrow> po\<lparr>po_deposited_at_unix_seconds := ts\<rparr> | None \<Rightarrow> po)
      in if po_lock_until_unix_seconds po = 0 \<and> po_lock_until po > 0 then
           (case (if po_deposited_at_unix_seconds po > 0 then Some (po_deposited_at_unix_seconds po)
                  else timestamp_for_slot (po_deposited_at po)) of
              Some ts \<Rightarrow> po\<lparr>po_lock_until_unix_seconds := saturating_add ts (lock_duration_seconds (po_lock_tier po))\<rparr>
            | None \<Rightarrow> po)
         else po)"

definition backfill_request :: "(u64 \<Rightarrow> u64 option) \<Rightarrow> moss_request \<Rightarrow> moss_request" where
  "backfill_request timestamp_for_slot r =
     (let r = (case (if mr_requested_at_unix_seconds r = 0 then timestamp_for_slot (mr_requested_at r) else None) of
            Some ts \<Rightarrow> r\<lparr>mr_requested_at_unix_seconds := ts\<rparr> | None \<Rightarrow> r)
      in if mr_claimable_at_unix_seconds r = 0 then
           (case (if mr_requested_at_unix_seconds r > 0 then Some (mr_requested_at_unix_seconds r)
                  else timestamp_for_slot (mr_requested_at r)) of
              Some ts \<Rightarrow> r\<lparr>mr_claimable_at_unix_seconds := saturating_add ts (7 * 86400)\<rparr>
            | None \<Rightarrow> r)
         else r)"

text \<open>The flag that \<open>backfill_wall_clock_times\<close> returns is not used by its callers and is left out.\<close>

definition backfill_wall_clock_times :: "(u64 \<Rightarrow> u64 option) \<Rightarrow> moss_pool \<Rightarrow> moss_pool" where
  "backfill_wall_clock_times timestamp_for_slot p =
     p\<lparr>mp_positions := map (\<lambda>(k, po). (k, backfill_position timestamp_for_slot po)) (mp_positions p),
       mp_requests := map (\<lambda>(k, rs). (k, map (backfill_request timestamp_for_slot) rs)) (mp_requests p)\<rparr>"

section \<open>Deposits, exits and transfers\<close>

definition set_backing :: "u64 \<Rightarrow> u64 \<Rightarrow> moss_pool \<Rightarrow> moss_pool" where
  "set_backing supply staked p =
     (let t = (mp_token p)\<lparr>tk_total_supply := supply, tk_total_licn_staked := staked\<rparr>
      in p\<lparr>mp_token := t\<lparr>tk_exchange_rate_fp := calculate_exchange_rate_fp t\<rparr>\<rparr>)"

definition stake_with_tier ::
  "u64 option \<Rightarrow> pubkey \<Rightarrow> u64 \<Rightarrow> u64 \<Rightarrow> lock_tier \<Rightarrow> moss_pool \<Rightarrow> err + (moss_pool \<times> u64)" where
  "stake_with_tier now user licn_amount current_slot tier p =
     (let existing = hm_get (mp_positions p) user; t = mp_token p; mint = licn_to_st_licn t licn_amount in
      if licn_amount = 0 then Inl ''Cannot stake 0 LICN''
      else if (case existing of Some po \<Rightarrow> tier \<noteq> po_lock_tier po | None \<Rightarrow> False)
      then Inl ''Cannot change lock tier on existing position''
      else if mint = 0 then Inl ''Deposit is too small to mint one stLICN spore at the current exchange rate''
      else
        rbind (ok_or (checked_add (tk_total_supply t) mint) ''stLICN total supply overflow'') (\<lambda>new_total_supply.
        rbind (ok_or (checked_add (tk_total_licn_staked t) licn_amount) ''MossStake backing overflow'') (\<lambda>new_total_licn_staked.
        rbind (if lock_duration_slots tier > 0
               then ok_or (checked_add current_slot (lock_duration_slots tier)) ''MossStake lock deadline overflow''
               else Inr 0) (\<lambda>lock_until.
        rbind (case now of
                 Some unix_seconds \<Rightarrow> if lock_duration_seconds tier > 0
                   then ok_or (checked_add unix_seconds (lock_duration_seconds tier)) ''MossStake wall-clock lock deadline overflow''
                   else Inr 0
               | None \<Rightarrow> Inr 0) (\<lambda>lock_until_unix_seconds.
        rbind (case existing of
                 Some po \<Rightarrow>
                   rbind (ok_or (checked_add (po_st_licn_amount po) mint) ''MossStake position share overflow'') (\<lambda>new_st_licn_amount.
                   rbind (ok_or (checked_add (po_licn_deposited po) licn_amount) ''MossStake position principal overflow'') (\<lambda>new_licn_deposited.
                   let po = po\<lparr>po_st_licn_amount := new_st_licn_amount, po_licn_deposited := new_licn_deposited,
                        po_lock_until := max lock_until (po_lock_until po)\<rparr>
                   in Inr (case now of
                        Some _ \<Rightarrow> po\<lparr>po_lock_until_unix_seconds := max lock_until_unix_seconds (po_lock_until_unix_seconds po)\<rparr>
                      | None \<Rightarrow> po\<lparr>po_deposited_at_unix_seconds := 0, po_lock_until_unix_seconds := 0\<rparr>)))
               | None \<Rightarrow>
                   Inr \<lparr>po_owner = user, po_st_licn_amount = mint, po_licn_deposited = licn_amount, po_deposited_at = current_slot,
                     po_deposited_at_unix_seconds = (case now of Some unix_seconds \<Rightarrow> unix_seconds | None \<Rightarrow> 0),
                     po_rewards_earned = 0, po_lock_tier = tier, po_lock_until = lock_until,
                     po_lock_until_unix_seconds = lock_until_unix_seconds\<rparr>) (\<lambda>po.
        let p = set_backing new_total_supply new_total_licn_staked p
        in Inr (p\<lparr>mp_positions := hm_insert user po (mp_positions p)\<rparr>, mint)))))))"

text \<open>A position is removed once nothing is left of it.\<close>

definition put_position :: "pubkey \<Rightarrow> staking_position \<Rightarrow> (pubkey, staking_position) hmap \<Rightarrow> (pubkey, staking_position) hmap" where
  "put_position k po m =
     (if po_st_licn_amount po = 0 \<and> po_licn_deposited po = 0 \<and> po_rewards_earned po = 0 then hm_remove k m else hm_insert k po m)"

definition reduce_position :: "u64 \<Rightarrow> u64 \<Rightarrow> u64 \<Rightarrow> staking_position \<Rightarrow> staking_position" where
  "reduce_position shares principal_out rewards_out po =
     po\<lparr>po_st_licn_amount := po_st_licn_amount po - shares,
        po_licn_deposited := saturating_sub (po_licn_deposited po) principal_out,
        po_rewards_earned := saturating_sub (po_rewards_earned po) rewards_out\<rparr>"

definition position_locked :: "u64 option \<Rightarrow> u64 \<Rightarrow> staking_position \<Rightarrow> bool" where
  "position_locked now current_slot po \<longleftrightarrow>
     (case now of Some t \<Rightarrow> po_lock_until_unix_seconds po > 0 \<and> t < po_lock_until_unix_seconds po | None \<Rightarrow> False) \<or>
     (po_lock_until po > 0 \<and> current_slot < po_lock_until po)"

definition moss_request_unstake ::
  "u64 option \<Rightarrow> pubkey \<Rightarrow> u64 \<Rightarrow> u64 \<Rightarrow> moss_pool \<Rightarrow> err + (moss_pool \<times> moss_request)" where
  "moss_request_unstake now user st_licn_amount current_slot p =
     (if st_licn_amount = 0 then Inl ''Cannot unstake 0 stLICN''
      else
        rbind (ok_or (checked_add current_slot UNSTAKE_COOLDOWN_SLOTS) ''MossStake cooldown deadline overflow'') (\<lambda>claimable_at.
        rbind (case now of
                 Some t \<Rightarrow> ok_or (checked_add t (7 * 86400)) ''MossStake wall-clock cooldown deadline overflow''
               | None \<Rightarrow> Inr 0) (\<lambda>claimable_at_unix_seconds.
        rbind (ok_or (hm_get (mp_positions p) user) ''No staking position found'') (\<lambda>po.
        if position_locked now current_slot po then Inl ''Position locked''
        else if po_st_licn_amount po < st_licn_amount then Inl ''Insufficient stLICN''
        else
          rbind (split_position_value_for_unstake po st_licn_amount) (\<lambda>(principal_out, rewards_out, licn_to_receive).
          rbind (ok_or (checked_sub (tk_total_supply (mp_token p)) st_licn_amount) ''stLICN total supply underflow'') (\<lambda>new_total_supply.
          rbind (ok_or (checked_sub (tk_total_licn_staked (mp_token p)) licn_to_receive) ''MossStake backing underflow'') (\<lambda>new_total_licn_staked.
          let request = \<lparr>mr_owner = user, mr_st_licn_amount = st_licn_amount, mr_licn_to_receive = licn_to_receive,
                 mr_requested_at = current_slot, mr_claimable_at = claimable_at,
                 mr_requested_at_unix_seconds = (case now of Some t \<Rightarrow> t | None \<Rightarrow> 0),
                 mr_claimable_at_unix_seconds = claimable_at_unix_seconds\<rparr>;
              p = set_backing new_total_supply new_total_licn_staked p
          in Inr (p\<lparr>mp_requests := hm_push user request (mp_requests p),
                    mp_positions := put_position user (reduce_position st_licn_amount principal_out rewards_out po) (mp_positions p)\<rparr>,
                  request))))))))"

definition request_claimable :: "u64 option \<Rightarrow> u64 \<Rightarrow> moss_request \<Rightarrow> bool" where
  "request_claimable now current_slot r \<longleftrightarrow>
     (case now of
        Some t \<Rightarrow> if mr_claimable_at_unix_seconds r > 0 then mr_claimable_at_unix_seconds r \<le> t else mr_claimable_at r \<le> current_slot
      | None \<Rightarrow> mr_claimable_at r \<le> current_slot)"

text \<open>The claimable requests have left the bucket when \<open>claim_unstake\<close> finds that they are worth nothing.\<close>

definition claim_unstake :: "u64 option \<Rightarrow> pubkey \<Rightarrow> u64 \<Rightarrow> moss_pool \<Rightarrow> moss_pool \<times> (err + u64)" where
  "claim_unstake now user current_slot p =
     (case hm_get (mp_requests p) user of
        None \<Rightarrow> (p, Inl ''No unstake requests found'')
      | Some requests \<Rightarrow>
          let total_claimable = foldl (\<lambda>t r. wrapping_add64 t (mr_licn_to_receive r)) 0 (filter (request_claimable now current_slot) requests);
              remaining = filter (\<lambda>r. \<not> request_claimable now current_slot r) requests
          in if total_claimable = 0
             then (p\<lparr>mp_requests := hm_insert user remaining (mp_requests p)\<rparr>, Inl ''No claimable unstake requests'')
             else
               let p = p\<lparr>mp_requests := (if remaining = [] then hm_remove user (mp_requests p) else hm_insert user remaining (mp_requests p))\<rparr>
               in (set_backing (tk_total_supply (mp_token p)) (tk_total_licn_staked (mp_token p)) p, Inr total_claimable))"

definition assert_transferable_position :: "u64 option \<Rightarrow> u64 \<Rightarrow> staking_position \<Rightarrow> err + unit" where
  "assert_transferable_position now current_slot po =
     (if po_lock_tier po \<noteq> Flexible then Inl ''positions of this tier are not transferable''
      else if (case now of Some t \<Rightarrow> po_lock_until_unix_seconds po > t | None \<Rightarrow> False)
      then Inl ''Position locked until timestamp; locked MossStake positions are not transferable''
      else if po_lock_until po > current_slot then Inl ''Position locked until slot; locked MossStake positions are not transferable''
      else Inr ())"

definition moss_transfer ::
  "u64 option \<Rightarrow> pubkey \<Rightarrow> pubkey \<Rightarrow> u64 \<Rightarrow> u64 \<Rightarrow> moss_pool \<Rightarrow> err + moss_pool" where
  "moss_transfer now from to st_licn_amount current_slot p =
     (if st_licn_amount = 0 then Inl ''Cannot transfer 0 stLICN''
      else if from = to then Inl ''Cannot transfer stLICN to self''
      else
        rbind (ok_or (hm_get (mp_positions p) from) ''Sender has no staking position'') (\<lambda>sender.
        rbind (assert_transferable_position now current_slot sender) (\<lambda>_.
        if po_st_licn_amount sender < st_licn_amount then Inl ''Insufficient stLICN''
        else
          rbind (case hm_get (mp_positions p) to of Some receiver \<Rightarrow> assert_transferable_position now current_slot receiver
                 | None \<Rightarrow> Inr ()) (\<lambda>_.
          rbind (split_position_value_for_unstake sender st_licn_amount) (\<lambda>(deposited_transfer, rewards_transfer, _).
          let ps = put_position from (reduce_position st_licn_amount deposited_transfer rewards_transfer sender) (mp_positions p);
              receiver = (case hm_get ps to of
                  Some receiver \<Rightarrow> receiver\<lparr>po_st_licn_amount := wrapping_add64 (po_st_licn_amount receiver) st_licn_amount,
                    po_licn_deposited := wrapping_add64 (po_licn_deposited receiver) deposited_transfer,
                    po_rewards_earned := wrapping_add64 (po_rewards_earned receiver) rewards_transfer\<rparr>
                | None \<Rightarrow> \<lparr>po_owner = to, po_st_licn_amount = st_licn_amount, po_licn_deposited = deposited_transfer,
                    po_deposited_at = current_slot, po_deposited_at_unix_seconds = (case now of Some t \<Rightarrow> t | None \<Rightarrow> 0),
                    po_rewards_earned = rewards_transfer, po_lock_tier = Flexible, po_lock_until = 0,
                    po_lock_until_unix_seconds = 0\<rparr>)
          in Inr (p\<lparr>mp_positions := hm_insert to receiver ps\<rparr>))))))"

section \<open>Rewards\<close>

definition tier_weight :: "staking_position \<Rightarrow> u128" where
  "tier_weight po = po_st_licn_amount po * reward_multiplier_bp (po_lock_tier po) div 10000"

definition total_weighted_st_licn :: "moss_pool \<Rightarrow> u128" where
  "total_weighted_st_licn p = hm_sum tier_weight (mp_positions p)"

text \<open>The new \<open>rewards_earned\<close> of every position; the last one gets what rounding left over.
  The product of a tier weight, of up to 3.6 times its shares, and the rewards wraps at 128 bits.\<close>

fun reward_loop ::
  "(staking_position \<Rightarrow> u128) \<Rightarrow> u128 \<Rightarrow> u64 \<Rightarrow> u64 \<Rightarrow> (pubkey \<times> staking_position) list \<Rightarrow> err + (u64 \<times> (pubkey \<times> u64) list)" where
  "reward_loop weight total_weighted total_rewards distributed [] = Inr (distributed, [])"
| "reward_loop weight total_weighted total_rewards distributed ((owner, po) # rest) =
     rbind (if rest = [] then ok_or (checked_sub total_rewards distributed) ''MossStake reward remainder underflow''
            else Inr (as_u64 (weight po * total_rewards mod 2 ^ 128 div total_weighted))) (\<lambda>reward_share.
     rbind (ok_or (checked_add distributed reward_share) ''MossStake distributed reward overflow'') (\<lambda>distributed.
     rbind (ok_or (checked_add (po_rewards_earned po) reward_share) ''MossStake position reward overflow'') (\<lambda>new_rewards_earned.
     rbind (reward_loop weight total_weighted total_rewards distributed rest) (\<lambda>(distributed, updates).
     Inr (distributed, (owner, new_rewards_earned) # updates)))))"

definition apply_reward :: "(pubkey, staking_position) hmap \<Rightarrow> pubkey \<times> u64 \<Rightarrow> err + (pubkey, staking_position) hmap" where
  "apply_reward ps = (\<lambda>(owner, new_rewards_earned).
     rbind (ok_or (hm_get ps owner) ''MossStake position disappeared during apply'') (\<lambda>po.
     Inr (hm_insert owner (po\<lparr>po_rewards_earned := new_rewards_earned\<rparr>) ps)))"

definition distribute_rewards_with_policy :: "u64 \<Rightarrow> bool \<Rightarrow> moss_pool \<Rightarrow> err + moss_pool" where
  "distribute_rewards_with_policy total_rewards tier_weighted p =
     (let t = mp_token p in
      if total_rewards = 0 \<or> tk_total_supply t = 0 then Inr p
      else
        let total_weighted = (if tier_weighted then total_weighted_st_licn p else tk_total_supply t) in
        if total_weighted = 0 then Inl ''stLICN supply exists without weighted positions''
        else
          rbind (ok_or (checked_add (tk_total_licn_staked t) total_rewards) ''MossStake backing overflow during reward distribution'') (\<lambda>new_total_licn_staked.
          rbind (reward_loop (if tier_weighted then tier_weight else po_st_licn_amount) total_weighted total_rewards 0
                   (sort_key fst (mp_positions p))) (\<lambda>(distributed, updates).
          if distributed \<noteq> total_rewards then Inl ''MossStake reward conservation failure''
          else
            rbind (try_fold apply_reward (mp_positions p) updates) (\<lambda>ps.
            Inr (set_backing (tk_total_supply t) new_total_licn_staked (p\<lparr>mp_positions := ps\<rparr>))))))"

definition distribute_rewards :: "u64 \<Rightarrow> moss_pool \<Rightarrow> err + moss_pool" where
  "distribute_rewards total_rewards p = distribute_rewards_with_policy total_rewards True p"

definition distribute_rewards_v2 :: "u64 \<Rightarrow> moss_pool \<Rightarrow> err + moss_pool" where
  "distribute_rewards_v2 total_rewards p =
     rbind (moss_validate_invariants p) (\<lambda>_.
     rbind (distribute_rewards_with_policy total_rewards False p) (\<lambda>p.
     rbind (moss_validate_invariants p) (\<lambda>_. Inr p)))"

section \<open>Slashing\<close>

text \<open>The exits that a slash still reaches, as owner, index in the owner's bucket and amount.\<close>

definition eligible_requests :: "u64 \<Rightarrow> moss_pool \<Rightarrow> ((pubkey \<times> nat) \<times> u64) list" where
  "eligible_requests offense_epoch_start_slot p =
     concat (map (\<lambda>(owner, requests).
       map (\<lambda>(index, r). ((owner, index), mr_licn_to_receive r))
         (filter (\<lambda>(index, r). mr_requested_at r \<ge> offense_epoch_start_slot) (List.enumerate 0 requests))) (mp_requests p))"

text \<open>What one holder loses of \<open>loss\<close>: its share rounded down, and for the last one all that is left.\<close>

definition slash_share :: "bool \<Rightarrow> u64 \<Rightarrow> u64 \<Rightarrow> u64 \<Rightarrow> u64 \<Rightarrow> err + u64" where
  "slash_share is_last loss available distributed v =
     (if is_last then ok_or (checked_sub loss distributed) ''MossStake slash remainder underflow''
      else rbind (ok_or (checked_mul128 loss v) ''MossStake slash overflow'') (\<lambda>x.
        if x div available > u64_max then Inl ''MossStake slash exceeds u64'' else Inr (x div available)))"

definition slash_position :: "u64 \<Rightarrow> staking_position \<Rightarrow> err + staking_position" where
  "slash_position loss po =
     (let reward_loss = min loss (po_rewards_earned po) in
      rbind (ok_or (checked_sub (po_rewards_earned po) reward_loss) ''MossStake reward slash underflow'') (\<lambda>rewards.
      rbind (ok_or (checked_sub loss reward_loss) ''MossStake principal slash split underflow'') (\<lambda>principal_loss.
      rbind (ok_or (checked_sub (po_licn_deposited po) principal_loss) ''MossStake principal slash underflow'') (\<lambda>deposited.
      Inr (po\<lparr>po_rewards_earned := rewards, po_licn_deposited := deposited\<rparr>)))))"

fun active_slash_loop ::
  "u64 \<Rightarrow> u64 \<Rightarrow> u64 \<Rightarrow> (pubkey \<times> u64) list \<Rightarrow> (pubkey, staking_position) hmap \<Rightarrow> err + (u64 \<times> (pubkey, staking_position) hmap)" where
  "active_slash_loop loss available distributed [] ps = Inr (distributed, ps)"
| "active_slash_loop loss available distributed ((owner, v) # rest) ps =
     rbind (slash_share (rest = []) loss available distributed v) (\<lambda>x.
     if x > v then Inl ''MossStake slash exceeds active position value''
     else
       rbind (ok_or (checked_add distributed x) ''MossStake active slash total overflow'') (\<lambda>distributed.
       rbind (ok_or (hm_get ps owner) ''MossStake position disappeared during slash'') (\<lambda>po.
       rbind (slash_position x po) (\<lambda>po.
       active_slash_loop loss available distributed rest (hm_insert owner po ps)))))"

fun cooling_slash_loop ::
  "u64 \<Rightarrow> u64 \<Rightarrow> u64 \<Rightarrow> ((pubkey \<times> nat) \<times> u64) list \<Rightarrow> (pubkey, moss_request list) hmap \<Rightarrow>
     err + (u64 \<times> (pubkey, moss_request list) hmap)" where
  "cooling_slash_loop loss available distributed [] m = Inr (distributed, m)"
| "cooling_slash_loop loss available distributed (((owner, index), v) # rest) m =
     rbind (slash_share (rest = []) loss available distributed v) (\<lambda>x.
     if x > v then Inl ''MossStake slash exceeds cooling-down request''
     else
       rbind (ok_or (checked_add distributed x) ''MossStake cooling-down slash total overflow'') (\<lambda>distributed.
       rbind (case hm_get m owner of
                Some rs \<Rightarrow> if index < length rs then Inr rs else Inl ''MossStake exit disappeared during slash''
              | None \<Rightarrow> Inl ''MossStake exit disappeared during slash'') (\<lambda>rs.
       rbind (ok_or (checked_sub (mr_licn_to_receive (rs ! index)) x) ''MossStake exit slash underflow'') (\<lambda>left.
       cooling_slash_loop loss available distributed rest
         (hm_insert owner (rs[index := (rs ! index)\<lparr>mr_licn_to_receive := left\<rparr>]) m)))))"

definition slash_active :: "u64 \<Rightarrow> moss_pool \<Rightarrow> err + moss_pool" where
  "slash_active loss p =
     (if loss = 0 then Inr p
      else
        let available = tk_total_licn_staked (mp_token p) in
        rbind (try_fold (\<lambda>acc (owner, po).
                 rbind (ok_or (checked_add (po_licn_deposited po) (po_rewards_earned po)) ''MossStake position value overflow'') (\<lambda>v.
                 Inr (if v > 0 then acc @ [(owner, v)] else acc))) [] (sort_key fst (mp_positions p))) (\<lambda>positive_positions.
        if positive_positions = [] \<or> available = 0 then Inl ''MossStake active slash has no backing positions''
        else
          rbind (active_slash_loop loss available 0 positive_positions (mp_positions p)) (\<lambda>(distributed, ps).
          if distributed \<noteq> loss then Inl ''MossStake active slash conservation failure''
          else
            rbind (ok_or (checked_sub available loss) ''MossStake backing slash underflow'') (\<lambda>staked.
            Inr (p\<lparr>mp_positions := ps, mp_token := (mp_token p)\<lparr>tk_total_licn_staked := staked\<rparr>\<rparr>)))))"

definition slash_cooling :: "u64 \<Rightarrow> u64 \<Rightarrow> ((pubkey \<times> nat) \<times> u64) list \<Rightarrow> moss_pool \<Rightarrow> err + moss_pool" where
  "slash_cooling loss available eligible p =
     (if loss = 0 then Inr p
      else
        rbind (cooling_slash_loop loss available 0 (sort_key fst eligible) (mp_requests p)) (\<lambda>(distributed, m).
        if distributed \<noteq> loss then Inl ''MossStake cooling-down slash conservation failure''
        else
          Inr (p\<lparr>mp_requests := filter (\<lambda>(_, rs). rs \<noteq> []) (map (\<lambda>(k, rs). (k, filter (\<lambda>r. mr_licn_to_receive r > 0) rs)) m)\<rparr>)))"

definition moss_settlement :: "u64 \<Rightarrow> u64 \<Rightarrow> u64 \<Rightarrow> moss_slash_settlement" where
  "moss_settlement requested_loss active cooling =
     \<lparr>ms_requested_loss = requested_loss, ms_active_backing_loss = active, ms_cooling_down_loss = cooling\<rparr>"

text \<open>The second half of \<open>apply_staking_v2_slash\<close>, once the loss is split into its two classes.\<close>

definition settle_slash ::
  "u64 \<Rightarrow> u64 \<Rightarrow> u64 \<Rightarrow> u64 \<Rightarrow> ((pubkey \<times> nat) \<times> u64) list \<Rightarrow> moss_pool \<Rightarrow> err + (moss_pool \<times> moss_slash_settlement)" where
  "settle_slash requested_loss active_backing_loss cooling_down_loss cooling_down_available eligible p =
     (if active_backing_loss > tk_total_licn_staked (mp_token p) \<or> cooling_down_loss > cooling_down_available
      then Inl ''MossStake slash class split exceeds available value''
      else
        rbind (slash_active active_backing_loss p) (\<lambda>updated.
        rbind (slash_cooling cooling_down_loss cooling_down_available eligible updated) (\<lambda>updated.
        let updated = set_backing (tk_total_supply (mp_token updated)) (tk_total_licn_staked (mp_token updated)) updated in
        rbind (moss_validate_invariants updated) (\<lambda>_.
        Inr (updated, moss_settlement requested_loss active_backing_loss cooling_down_loss)))))"

definition slash_available ::
  "u64 \<Rightarrow> u64 \<Rightarrow> ((pubkey \<times> nat) \<times> u64) list \<Rightarrow> moss_pool \<Rightarrow> err + (moss_pool \<times> moss_slash_settlement)" where
  "slash_available requested_loss cooling_down_available eligible p =
     rbind (ok_or (checked_add (tk_total_licn_staked (mp_token p)) cooling_down_available) ''MossStake slashable value overflow'') (\<lambda>total_available.
     let loss = min requested_loss total_available in
     if loss = 0 then Inr (p, moss_settlement requested_loss 0 0)
     else
       rbind (if cooling_down_available = 0 then Inr 0
              else slash_share False loss total_available 0 cooling_down_available) (\<lambda>cooling_down_loss.
       rbind (ok_or (checked_sub loss cooling_down_loss) ''MossStake slash class split underflow'') (\<lambda>active_backing_loss.
       settle_slash requested_loss active_backing_loss cooling_down_loss cooling_down_available eligible p)))"

definition apply_staking_v2_slash :: "u64 \<Rightarrow> u64 \<Rightarrow> moss_pool \<Rightarrow> err + (moss_pool \<times> moss_slash_settlement)" where
  "apply_staking_v2_slash requested_loss offense_epoch_start_slot p =
     rbind (moss_validate_invariants p) (\<lambda>_.
     if requested_loss = 0 then Inr (p, moss_settlement requested_loss 0 0)
     else
       let eligible = eligible_requests offense_epoch_start_slot p in
       rbind (try_fold (\<lambda>t r. ok_or (checked_add t (snd r)) ''MossStake slashable exit total overflow'') 0 eligible) (\<lambda>cooling_down_available.
       slash_available requested_loss cooling_down_available eligible p))"

end
