(* ===== verification/Moss_Stake_Invariant.thy ===== *)
theory Moss_Stake_Invariant
  imports Moss_Stake
begin

text \<open>
  What the MossStake pool guarantees. \<open>moss_inv\<close> states declaratively what
  \<open>MossStakePool::validate_invariants\<close> checks, except that requests may be worth nothing; every
  operation keeps it, and value enters and leaves the pool only by deposits, rewards, claims and
  slashes. Requests worth nothing can be made; what follows from one is stated at the end.
  Backfilling the clock fields of old records is outside the runs considered here.
\<close>

section \<open>The invariant\<close>

abbreviation worth :: "staking_position \<Rightarrow> nat" where
  "worth po \<equiv> po_licn_deposited po + po_rewards_earned po"

definition position_ok :: "pubkey \<times> staking_position \<Rightarrow> bool" where
  "position_ok = (\<lambda>(k, po). po_owner po = k \<and> 0 < po_st_licn_amount po)"

definition request_ok :: "pubkey \<Rightarrow> moss_request \<Rightarrow> bool" where
  "request_ok k r \<longleftrightarrow> mr_owner r = k \<and> 0 < mr_st_licn_amount r \<and> mr_requested_at r \<le> mr_claimable_at r \<and>
     (0 < mr_claimable_at_unix_seconds r \<longrightarrow> mr_requested_at_unix_seconds r \<le> mr_claimable_at_unix_seconds r)"

text \<open>The books of the positions: owners, shares and backing add up.\<close>

definition book_ok :: "(pubkey, staking_position) hmap \<Rightarrow> nat \<Rightarrow> nat \<Rightarrow> bool" where
  "book_ok ps supply_total staked \<longleftrightarrow> distinct (map fst ps) \<and> (\<forall>e \<in> set ps. position_ok e) \<and>
     hm_sum po_st_licn_amount ps = supply_total \<and> hm_sum worth ps = staked \<and> supply_total \<le> u64_max \<and> staked \<le> u64_max"

definition buckets_ok :: "(pubkey, moss_request list) hmap \<Rightarrow> bool" where
  "buckets_ok m \<longleftrightarrow> distinct (map fst m) \<and> (\<forall>(k, rs) \<in> set m. rs \<noteq> [] \<and> (\<forall>r \<in> set rs. request_ok k r))"

definition moss_inv :: "moss_pool \<Rightarrow> bool" where
  "moss_inv p \<longleftrightarrow> book_ok (mp_positions p) (tk_total_supply (mp_token p)) (tk_total_licn_staked (mp_token p)) \<and>
     buckets_ok (mp_requests p) \<and> tk_exchange_rate_fp (mp_token p) = calculate_exchange_rate_fp (mp_token p)"

definition dust_free :: "moss_pool \<Rightarrow> bool" where
  "dust_free p \<longleftrightarrow> (\<forall>(k, rs) \<in> set (mp_requests p). \<forall>r \<in> set rs. 0 < mr_licn_to_receive r)"

abbreviation owed :: "moss_request list \<Rightarrow> nat" where
  "owed rs \<equiv> sum_list (map mr_licn_to_receive rs)"

definition pool_value :: "moss_pool \<Rightarrow> nat" where
  "pool_value p = tk_total_licn_staked (mp_token p) + hm_sum owed (mp_requests p)"

lemma hm_sum_sort [simp]: "hm_sum f (sort_key g m) = hm_sum f m"
proof -
  have "sum_mset (image_mset (\<lambda>(k, v). f v) (mset (sort_key g m))) = sum_mset (image_mset (\<lambda>(k, v). f v) (mset m))" by simp
  then show ?thesis unfolding hm_sum_def by (simp flip: sum_mset_sum_list)
qed

lemma hm_sum_update:
  "hm_sum f (AList.update k v m) + (case map_of m k of None \<Rightarrow> 0 | Some old \<Rightarrow> f old) = hm_sum f m + f v"
  by (cases "map_of m k") (simp_all add: hm_sum_insert_new hm_sum_insert_old)

lemma try_fold_positions:
  "try_fold validate_position (a, b) xs = Inr (c, d) \<longleftrightarrow> (\<forall>e \<in> set xs. position_ok e) \<and>
     c = a + hm_sum po_st_licn_amount xs \<and> d = b + hm_sum worth xs \<and> (xs = [] \<or> (c \<le> u64_max \<and> d \<le> u64_max))"
proof (induction xs arbitrary: a b)
  case (Cons x xs)
  obtain k po where x: "x = (k, po)" by force
  show ?case
  proof (cases "position_ok x \<and> a + po_st_licn_amount po \<le> u64_max \<and> b + worth po \<le> u64_max")
    case True
    then have "validate_position (a, b) x = Inr (a + po_st_licn_amount po, b + worth po)"
      by (auto simp: validate_position_def position_ok_def x checked_add_def ok_or_def)
    with Cons.IH [of "a + po_st_licn_amount po" "b + worth po"] True show ?thesis
      by (auto simp: x)
  next
    case False
    have "\<exists>e. validate_position (a, b) x = Inl e"
      using False by (auto simp: validate_position_def position_ok_def x checked_add_def ok_or_def split: if_splits)
    then show ?thesis using False by (auto simp: x)
  qed
qed auto

lemma if_Inr: "(if c then Inl e else x) = Inr y \<longleftrightarrow> \<not> c \<and> x = Inr y"
  by simp

lemma validate_bucket_iff:
  "validate_bucket (k, rs) = Inr () \<longleftrightarrow> rs \<noteq> [] \<and> (\<forall>r \<in> set rs. request_ok k r \<and> 0 < mr_licn_to_receive r)"
  unfolding validate_bucket_def prod.case try_fold_unit request_ok_def if_Inr 
  by (rule conj_cong [OF refl ball_cong [OF refl]]) auto

lemma validate_iff:
  assumes "distinct (map fst (mp_positions p))" "distinct (map fst (mp_requests p))"
  shows "moss_validate_invariants p = Inr () \<longleftrightarrow> moss_inv p \<and> dust_free p"
proof -
  let ?ps = "sort_key fst (mp_positions p)"
  have buckets: "try_fold (\<lambda>_. validate_bucket) () (mp_requests p) = Inr () \<longleftrightarrow> buckets_ok (mp_requests p) \<and> dust_free p"
    using assms(2) unfolding try_fold_unit buckets_ok_def dust_free_def Ball_def split_paired_All prod.case validate_bucket_iff by blast
  have empty: "?ps = [] \<Longrightarrow> hm_sum po_st_licn_amount (mp_positions p) = 0 \<and> hm_sum worth (mp_positions p) = 0"
    by (metis hm_sum_Nil hm_sum_sort)
  have "moss_validate_invariants p = Inr () \<longleftrightarrow>
      (\<exists>c d. try_fold validate_position (0, 0) ?ps = Inr (c, d) \<and> c = tk_total_supply (mp_token p) \<and>
         d = tk_total_licn_staked (mp_token p) \<and> tk_exchange_rate_fp (mp_token p) = calculate_exchange_rate_fp (mp_token p) \<and>
         try_fold (\<lambda>_. validate_bucket) () (mp_requests p) = Inr ())"
    by (auto simp: moss_validate_invariants_def rbind_eq_Inr split: if_splits)
  also have "\<dots> \<longleftrightarrow> moss_inv p \<and> dust_free p"
    unfolding try_fold_positions buckets moss_inv_def book_ok_def using assms(1) empty by (auto simp: u64_max_def)
  finally show ?thesis .
qed

lemma inv_distinct: "moss_inv p \<Longrightarrow> distinct (map fst (mp_positions p)) \<and> distinct (map fst (mp_requests p))"
  by (simp add: moss_inv_def book_ok_def buckets_ok_def)

lemma set_backing_simps [simp]:
  "mp_positions (set_backing a b p) = mp_positions p" "mp_requests (set_backing a b p) = mp_requests p"
  "tk_total_supply (mp_token (set_backing a b p)) = a" "tk_total_licn_staked (mp_token (set_backing a b p)) = b"
  "tk_exchange_rate_fp (mp_token (set_backing a b p)) = calculate_exchange_rate_fp (mp_token (set_backing a b p))"
  by (simp_all add: set_backing_def Let_def calculate_exchange_rate_fp_def)

lemma moss_new_inv: "moss_inv moss_new \<and> dust_free moss_new \<and> pool_value moss_new = 0"
  by (simp add: moss_inv_def dust_free_def pool_value_def moss_new_def st_licn_new_def book_ok_def buckets_ok_def
      calculate_exchange_rate_fp_def)

section \<open>Operations on the books\<close>

lemma book_get: "book_ok ps s v \<Longrightarrow> hm_get ps k = Some po \<Longrightarrow> po_owner po = k \<and> 0 < po_st_licn_amount po \<and>
    po_st_licn_amount po \<le> s \<and> worth po \<le> v"
  using hm_sum_ge [of ps k po po_st_licn_amount] hm_sum_ge [of ps k po worth]
  by (auto simp: book_ok_def position_ok_def dest!: map_of_SomeD)

lemma book_insert:
  assumes "book_ok ps s v" "position_ok (k, po)"
    and "s' + (case hm_get ps k of None \<Rightarrow> 0 | Some old \<Rightarrow> po_st_licn_amount old) = s + po_st_licn_amount po" "s' \<le> u64_max"
    and "v' + (case hm_get ps k of None \<Rightarrow> 0 | Some old \<Rightarrow> worth old) = v + worth po" "v' \<le> u64_max"
  shows "book_ok (hm_insert k po ps) s' v'"
  using assms hm_sum_update [of po_st_licn_amount k po ps] hm_sum_update [of worth k po ps] set_update_sub [of k po ps]
  by (auto simp: book_ok_def)

lemma book_remove:
  assumes "book_ok ps s v" "hm_get ps k = Some po"
  shows "book_ok (hm_remove k ps) (s - po_st_licn_amount po) (v - worth po)"
proof -
  have "distinct (map fst ps)" using assms(1) by (simp add: book_ok_def)
  note rm = hm_sum_remove [OF this assms(2)]
  have "hm_sum po_st_licn_amount (hm_remove k ps) = s - po_st_licn_amount po" "hm_sum worth (hm_remove k ps) = v - worth po"
    using rm [of po_st_licn_amount] rm [of worth] assms(1) unfolding book_ok_def by linarith+
  moreover have "\<forall>e \<in> set (hm_remove k ps). position_ok e" using assms(1) by (auto simp: book_ok_def hm_remove_def)
  ultimately show ?thesis using assms(1) by (auto simp: book_ok_def)
qed

lemma split_Inr:
  assumes "split_position_value_for_unstake po st = Inr (a, b, c)" "worth po \<le> u64_max"
  shows "st \<le> po_st_licn_amount po \<and> 0 < po_st_licn_amount po \<and> a \<le> po_licn_deposited po \<and> b \<le> po_rewards_earned po \<and> c = a + b \<and>
    (st = po_st_licn_amount po \<longrightarrow> a = po_licn_deposited po \<and> b = po_rewards_earned po) \<and>
    (st \<noteq> po_st_licn_amount po \<longrightarrow> a = st * po_licn_deposited po div po_st_licn_amount po \<and>
       b = st * po_rewards_earned po div po_st_licn_amount po)"
proof -
  have le: "st * x div po_st_licn_amount po \<le> x" if "st \<le> po_st_licn_amount po" for x
    using that by (metis div_le_mono div_mult_self1_is_m div_by_0 mult_le_mono1 neq0_conv zero_le)
  have id: "as_u64 (st * x div po_st_licn_amount po) = st * x div po_st_licn_amount po"
    if "st \<le> po_st_licn_amount po" "x \<le> worth po" for x
    using le [OF that(1)] that(2) assms(2) by (intro as_u64_id) (meson le_trans)
  show ?thesis
    using assms(1) le id by (auto simp: split_position_value_for_unstake_def Let_def rbind_eq_Inr split: if_splits)
qed

lemma split_total:
  "0 < po_st_licn_amount po \<Longrightarrow> st \<le> po_st_licn_amount po \<Longrightarrow> worth po \<le> u64_max \<Longrightarrow>
     \<exists>r. split_position_value_for_unstake po st = Inr r"
proof -
  assume a: "0 < po_st_licn_amount po" "st \<le> po_st_licn_amount po" "worth po \<le> u64_max"
  have le: "as_u64 (st * x div po_st_licn_amount po) \<le> x" for x
  proof -
    have "st * x div po_st_licn_amount po \<le> x" using a(1,2) by (metis div_le_mono div_mult_self1_is_m mult_le_mono1)
    then show ?thesis using le_trans [OF mod_less_eq_dividend] by (simp add: as_u64_def)
  qed
  show ?thesis using a le [of "po_licn_deposited po"] le [of "po_rewards_earned po"]
    by (auto simp: split_position_value_for_unstake_def Let_def ok_or_def checked_add_def)
qed

lemma reduced_book:
  assumes "book_ok ps s v" "hm_get ps k = Some po" "split_position_value_for_unstake po st = Inr (a, b, c)" "0 < st"
  shows "book_ok (put_position k (reduce_position st a b po) ps) (s - st) (v - c)" "st \<le> s" "c \<le> v"
proof -
  note g = book_get [OF assms(1,2)]
  have v: "worth po \<le> u64_max" using g assms(1) by (simp add: book_ok_def)
  note sp = split_Inr [OF assms(3) v]
  show "st \<le> s" "c \<le> v" using g sp by linarith+
  have s: "s \<le> u64_max" "v \<le> u64_max" using assms(1) by (auto simp: book_ok_def)
  show "book_ok (put_position k (reduce_position st a b po) ps) (s - st) (v - c)"
  proof (cases "st = po_st_licn_amount po")
    case True
    with sp have "put_position k (reduce_position st a b po) ps = hm_remove k ps"
      by (simp add: put_position_def reduce_position_def saturating_sub_def)
    with book_remove [OF assms(1,2)] True sp show ?thesis by simp
  next
    case False
    with sp have "put_position k (reduce_position st a b po) ps = hm_insert k (reduce_position st a b po) ps"
      by (simp add: put_position_def reduce_position_def)
    moreover have "book_ok (hm_insert k (reduce_position st a b po) ps) (s - st) (v - c)"
      by (rule book_insert [OF assms(1)]) (use g sp s False assms(2,4) in \<open>auto simp: position_ok_def reduce_position_def saturating_sub_def\<close>)
    ultimately show ?thesis by simp
  qed
qed

section \<open>Every operation keeps the books\<close>

lemma if_Inr2: "(if c then x else Inl e) = Inr y \<longleftrightarrow> c \<and> x = Inr y"
  by simp

lemmas Inr_steps = rbind_eq_Inr ok_or_Inr checked_add_Some checked_sub_Some if_Inr if_Inr2 Let_def

lemma buckets_insert:
  assumes "buckets_ok m" "rs \<noteq> []" "\<forall>r \<in> set rs. request_ok k r"
  shows "buckets_ok (hm_insert k rs m)"
  using assms set_update_sub [of k rs m] by (fastforce simp: buckets_ok_def)

lemma bucket_get: "buckets_ok m \<Longrightarrow> hm_get m k = Some rs \<Longrightarrow> rs \<noteq> [] \<and> (\<forall>r \<in> set rs. request_ok k r)"
  by (auto simp: buckets_ok_def dest!: map_of_SomeD)

lemma buckets_push:
  assumes "buckets_ok m" "request_ok k r"
  shows "buckets_ok (hm_push k r m)"
proof -
  have "\<forall>x \<in> set (hm_get_or [] m k). request_ok k x"
    using bucket_get [OF assms(1), of k] by (cases "hm_get m k") (auto simp: hm_get_or_def)
  with assms show ?thesis unfolding hm_push_def by (intro buckets_insert) auto
qed

lemma owed_push: "hm_sum owed (hm_push k r m) = hm_sum owed m + mr_licn_to_receive r"
  using hm_sum_update [of owed k "hm_get_or [] m k @ [r]" m]
  by (cases "map_of m k") (simp_all add: hm_push_def hm_get_or_def)

lemma stake_keeps:
  assumes "stake_with_tier now user n slot tier p = Inr (p', minted)" "moss_inv p"
  shows "moss_inv p' \<and> pool_value p' = pool_value p + n \<and> 0 < minted"
proof -
  let ?t = "mp_token p"
  from assms(1) obtain po where po: "tk_total_supply ?t + minted \<le> u64_max" "tk_total_licn_staked ?t + n \<le> u64_max" "0 < minted"
    "p' = (set_backing (tk_total_supply ?t + minted) (tk_total_licn_staked ?t + n) p)\<lparr>mp_positions := hm_insert user po (mp_positions p)\<rparr>"
    "case hm_get (mp_positions p) user of
       None \<Rightarrow> po_owner po = user \<and> po_st_licn_amount po = minted \<and> po_licn_deposited po = n \<and> po_rewards_earned po = 0
     | Some old \<Rightarrow> po_owner po = po_owner old \<and> po_st_licn_amount po = po_st_licn_amount old + minted \<and>
         po_licn_deposited po = po_licn_deposited old + n \<and> po_rewards_earned po = po_rewards_earned old"
    unfolding stake_with_tier_def Inr_steps
    by (cases "hm_get (mp_positions p) user"; cases now) (auto simp: Inr_steps)
  have book: "book_ok (mp_positions p) (tk_total_supply ?t) (tk_total_licn_staked ?t)" using assms(2) by (simp add: moss_inv_def)
  have "book_ok (hm_insert user po (mp_positions p)) (tk_total_supply ?t + minted) (tk_total_licn_staked ?t + n)"
    by (rule book_insert [OF book])
      (use po book_get [OF book, of user] in \<open>auto simp: position_ok_def split: option.splits\<close>)
  then show ?thesis using assms(2) po(3,4) by (simp add: moss_inv_def pool_value_def calculate_exchange_rate_fp_def)
qed

lemma unstake_cases:
  assumes "moss_request_unstake now user st slot p = Inr (p', r)"
  obtains po a b c where "hm_get (mp_positions p) user = Some po" "split_position_value_for_unstake po st = Inr (a, b, c)" "0 < st"
    "\<not> position_locked now slot po"
    "p' = (set_backing (tk_total_supply (mp_token p) - st) (tk_total_licn_staked (mp_token p) - c) p)
       \<lparr>mp_requests := hm_push user r (mp_requests p), mp_positions := put_position user (reduce_position st a b po) (mp_positions p)\<rparr>"
    "request_ok user r" "mr_licn_to_receive r = c" "mr_st_licn_amount r = st"
  using assms unfolding moss_request_unstake_def Inr_steps
  by (cases now) (auto simp: Inr_steps request_ok_def split: prod.splits)

lemma unstake_keeps:
  assumes "moss_request_unstake now user st slot p = Inr (p', r)" "moss_inv p"
  shows "moss_inv p' \<and> pool_value p' = pool_value p"
proof -
  from assms(1) obtain po a b c where u: "hm_get (mp_positions p) user = Some po" "split_position_value_for_unstake po st = Inr (a, b, c)"
    "0 < st" "p' = (set_backing (tk_total_supply (mp_token p) - st) (tk_total_licn_staked (mp_token p) - c) p)
       \<lparr>mp_requests := hm_push user r (mp_requests p), mp_positions := put_position user (reduce_position st a b po) (mp_positions p)\<rparr>"
    "request_ok user r" "mr_licn_to_receive r = c" by (rule unstake_cases)
  have inv: "book_ok (mp_positions p) (tk_total_supply (mp_token p)) (tk_total_licn_staked (mp_token p))" "buckets_ok (mp_requests p)"
    using assms(2) by (auto simp: moss_inv_def)
  note red = reduced_book [OF inv(1) u(1-3)]
  show ?thesis using red u(4,6) buckets_push [OF inv(2) u(5)]
    by (simp add: moss_inv_def pool_value_def owed_push calculate_exchange_rate_fp_def)
qed

lemma wrapping_sum:
  "t + sum_list (map f xs) \<le> u64_max \<Longrightarrow> foldl (\<lambda>t x. wrapping_add64 t (f x)) t xs = t + sum_list (map f xs)"
proof (induction xs arbitrary: t)
  case (Cons x xs)
  have "wrapping_add64 t (f x) = t + f x" using Cons.prems by (simp add: wrapping_add64_def u64_max_def)
  with Cons.IH [of "t + f x"] Cons.prems show ?case by (simp add: add.assoc)
qed simp

lemma owed_split: "owed (filter P rs) + owed (filter (\<lambda>r. \<not> P r) rs) = owed rs"
  by (induction rs) auto

lemma claim_keeps:
  assumes "claim_unstake now user slot p = (p', Inr n)" "moss_inv p" "pool_value p \<le> u64_max"
  shows "moss_inv p' \<and> pool_value p' + n = pool_value p \<and> 0 < n"
proof -
  from assms(1) obtain rs where rs: "hm_get (mp_requests p) user = Some rs"
    by (auto simp: claim_unstake_def split: option.splits)
  let ?due = "request_claimable now slot" let ?left = "filter (\<lambda>r. \<not> ?due r) rs"
  let ?m = "if ?left = [] then hm_remove user (mp_requests p) else hm_insert user ?left (mp_requests p)"
  have le: "owed rs \<le> hm_sum owed (mp_requests p)" by (rule hm_sum_ge [OF rs])
  then have "owed (filter ?due rs) \<le> u64_max" using assms(3) owed_split [of ?due rs] by (simp add: pool_value_def)
  then have total: "foldl (\<lambda>t r. wrapping_add64 t (mr_licn_to_receive r)) 0 (filter ?due rs) = owed (filter ?due rs)"
    using wrapping_sum [of 0 mr_licn_to_receive "filter ?due rs"] by simp
  have p': "p' = set_backing (tk_total_supply (mp_token p)) (tk_total_licn_staked (mp_token p)) (p\<lparr>mp_requests := ?m\<rparr>)"
    "n = owed (filter ?due rs)" "0 < n"
    using assms(1) unfolding claim_unstake_def rs option.case Let_def total
    by (auto simp del: sum_list_eq_0_iff split: if_splits)
  have b: "buckets_ok (mp_requests p)" using assms(2) by (simp add: moss_inv_def)
  have left: "buckets_ok (hm_insert user ?left (mp_requests p))" if "?left \<noteq> []"
    using bucket_get [OF b rs] that by (intro buckets_insert [OF b]) auto
  have "buckets_ok (hm_remove user (mp_requests p))" using b by (auto simp: buckets_ok_def hm_remove_def distinct_map_filter)
  with left have "buckets_ok ?m" by simp
  moreover have "hm_sum owed ?m + n = hm_sum owed (mp_requests p)"
  proof (cases "?left = []")
    case True
    then have "n = owed rs" using owed_split [of ?due rs] p'(2) by simp
    then show ?thesis using True hm_sum_remove [OF _ rs, of owed] b by (simp add: buckets_ok_def)
  next
    case False
    then show ?thesis using hm_sum_insert_old [OF rs, of owed ?left] owed_split [of ?due rs] p'(2) le by simp
  qed
  ultimately show ?thesis using assms(2) p'(1,3) by (simp add: moss_inv_def pool_value_def calculate_exchange_rate_fp_def)
qed

lemma transfer_keeps:
  assumes "moss_transfer now from to st slot p = Inr p'" "moss_inv p"
  shows "moss_inv p' \<and> pool_value p' = pool_value p"
proof -
  let ?s = "tk_total_supply (mp_token p)" and ?v = "tk_total_licn_staked (mp_token p)"
  from assms(1) obtain po a b c where t: "hm_get (mp_positions p) from = Some po" "split_position_value_for_unstake po st = Inr (a, b, c)"
    "0 < st" "from \<noteq> to" unfolding moss_transfer_def Inr_steps by (auto simp: Inr_steps split: prod.splits)
  let ?ps = "put_position from (reduce_position st a b po) (mp_positions p)"
  have book: "book_ok (mp_positions p) ?s ?v" using assms(2) by (simp add: moss_inv_def)
  note red = reduced_book [OF book t(1-3)]
  have c: "c = a + b" using split_Inr [OF t(2)] book_get [OF book t(1)] book by (simp add: book_ok_def)
  obtain q where q: "p' = p\<lparr>mp_positions := hm_insert to q ?ps\<rparr>"
    "q = (case hm_get ?ps to of
       Some old \<Rightarrow> old\<lparr>po_st_licn_amount := wrapping_add64 (po_st_licn_amount old) st,
         po_licn_deposited := wrapping_add64 (po_licn_deposited old) a, po_rewards_earned := wrapping_add64 (po_rewards_earned old) b\<rparr>
     | None \<Rightarrow> \<lparr>po_owner = to, po_st_licn_amount = st, po_licn_deposited = a, po_deposited_at = slot,
         po_deposited_at_unix_seconds = (case now of Some t \<Rightarrow> t | None \<Rightarrow> 0), po_rewards_earned = b, po_lock_tier = Flexible,
         po_lock_until = 0, po_lock_until_unix_seconds = 0\<rparr>)"
    using assms(1) t unfolding moss_transfer_def Inr_steps by (auto simp: Inr_steps)
  have bounds: "?s \<le> u64_max" "?v \<le> u64_max" using book by (auto simp: book_ok_def)
  have "position_ok (to, q)" "(case hm_get ?ps to of None \<Rightarrow> 0 | Some old \<Rightarrow> po_st_licn_amount old) + st = po_st_licn_amount q"
    "(case hm_get ?ps to of None \<Rightarrow> 0 | Some old \<Rightarrow> worth old) + c = worth q"
    using q(2) book_get [OF red(1), of to] red(2,3) bounds t(3) c
    by (auto simp: position_ok_def wrapping_add64_def u64_max_def split: option.splits)
  then have "book_ok (hm_insert to q ?ps) ?s ?v"
    by (intro book_insert [OF red(1)]) (use red(2,3) bounds in \<open>auto\<close>)
  then show ?thesis using assms(2) q(1) by (simp add: moss_inv_def pool_value_def)
qed

lemma clear_keeps: "moss_inv p \<Longrightarrow> moss_inv (fst (clear_wall_clock_times p)) \<and> pool_value (fst (clear_wall_clock_times p)) = pool_value p"
proof -
  assume p: "moss_inv p"
  let ?f = "\<lambda>(k, po). (k, po\<lparr>po_deposited_at_unix_seconds := 0, po_lock_until_unix_seconds := 0\<rparr>)"
  let ?g = "\<lambda>(k, rs). (k, map (\<lambda>r. r\<lparr>mr_requested_at_unix_seconds := 0, mr_claimable_at_unix_seconds := 0\<rparr>) rs)"
  have keys: "map fst (map ?f ps) = map fst ps" "map fst (map ?g m) = map fst m" for ps :: "(pubkey, staking_position) hmap" and m :: "(pubkey, moss_request list) hmap"
    by (simp_all add: case_prod_unfold comp_def)
  have sums: "hm_sum po_st_licn_amount (map ?f ps) = hm_sum po_st_licn_amount ps" "hm_sum worth (map ?f ps) = hm_sum worth ps"
    "hm_sum owed (map ?g m) = hm_sum owed m" for ps :: "(pubkey, staking_position) hmap" and m :: "(pubkey, moss_request list) hmap"
    by (simp_all add: hm_sum_def case_prod_unfold comp_def)
  have "\<forall>e \<in> set (map ?f (mp_positions p)). position_ok e" using p by (auto simp: moss_inv_def book_ok_def position_ok_def)
  moreover have "buckets_ok (map ?g (mp_requests p))"
  proof -
    have b: "buckets_ok (mp_requests p)" using p by (simp add: moss_inv_def)
    have "snd e \<noteq> [] \<and> (\<forall>r \<in> set (snd e). request_ok (fst e) r)" if "e \<in> set (map ?g (mp_requests p))" for e
    proof -
      from that obtain k rs where e: "(k, rs) \<in> set (mp_requests p)" "e = ?g (k, rs)" by auto
      with b have "rs \<noteq> []" "\<forall>r \<in> set rs. request_ok k r" by (auto simp: buckets_ok_def)
      then show ?thesis by (simp add: e(2) request_ok_def)
    qed
    with b show ?thesis unfolding buckets_ok_def keys(2) by (simp only: case_prod_unfold simp_thms Ball_def) blast
  qed
  ultimately show ?thesis using p keys(1) sums
    by (simp add: clear_wall_clock_times_def moss_inv_def book_ok_def pool_value_def del: map_map)
qed

section \<open>Rewards and slashes\<close>

lemma reward_loop_mono: "reward_loop w tw amount d xs = Inr (d', us) \<Longrightarrow> d \<le> d'"
proof (induction xs arbitrary: d us)
  case (Cons x xs)
  obtain k po where x: "x = (k, po)" by force
  from Cons.prems obtain n us1 where "reward_loop w tw amount (d + n) xs = Inr (d', us1)"
    unfolding x by (auto simp: Inr_steps split: prod.splits)
  from Cons.IH [OF this] show ?case by simp
qed simp

lemma rewards_book:
  "reward_loop w tw amount d xs = Inr (d', us) \<Longrightarrow> distinct (map fst xs) \<Longrightarrow> \<forall>(k, po) \<in> set xs. hm_get ps k = Some po \<Longrightarrow>
   try_fold apply_reward ps us = Inr ps' \<Longrightarrow> book_ok ps s v \<Longrightarrow>
   d \<le> d' \<and> (v + (d' - d) \<le> u64_max \<longrightarrow> book_ok ps' s (v + (d' - d)))"
proof (induction xs arbitrary: d us ps v)
  case (Cons x xs)
  obtain k po where x: "x = (k, po)" by force
  from Cons.prems(1) obtain n us1 where l: "reward_loop w tw amount (d + n) xs = Inr (d', us1)" "us = (k, po_rewards_earned po + n) # us1"
    unfolding x by (auto simp: Inr_steps split: prod.splits)
  have k: "hm_get ps k = Some po" using Cons.prems(3) x by auto
  let ?po = "po\<lparr>po_rewards_earned := po_rewards_earned po + n\<rparr>" let ?ps = "hm_insert k ?po ps"
  have "apply_reward ps (k, po_rewards_earned po + n) = Inr ?ps" using k by (simp add: apply_reward_def ok_or_def)
  then have rest: "try_fold apply_reward ?ps us1 = Inr ps'" using Cons.prems(4) l(2) by simp
  have get: "\<forall>(k', po') \<in> set xs. hm_get ?ps k' = Some po'" using Cons.prems(2,3) x by (force simp: image_iff)
  have b: "book_ok ?ps s (v + n)" if "v + n \<le> u64_max"
    by (rule book_insert [OF Cons.prems(5)])
      (use that k book_get [OF Cons.prems(5) k] Cons.prems(5) in \<open>auto simp: position_ok_def book_ok_def\<close>)
  have mono: "d + n \<le> d'" by (rule reward_loop_mono [OF l(1)])
  show ?case
  proof (cases "v + (d' - d) \<le> u64_max")
    case True
    then have "v + n \<le> u64_max" using mono by linarith
    from Cons.IH [OF l(1) _ get rest b [OF this]] Cons.prems(2) x True mono show ?thesis by (auto simp: add.assoc)
  qed (use mono in linarith)
qed auto

lemma rewards_keep:
  assumes "distribute_rewards_with_policy n tiers p = Inr p'" "moss_inv p"
  shows "moss_inv p' \<and> pool_value p' = pool_value p + (if tk_total_supply (mp_token p) = 0 then 0 else n)"
proof (cases "n = 0 \<or> tk_total_supply (mp_token p) = 0")
  case True
  with assms show ?thesis by (auto simp: distribute_rewards_with_policy_def Let_def)
next
  case False
  let ?t = "mp_token p" and ?xs = "sort_key fst (mp_positions p)"
  from assms(1) False obtain w tw us ps where r: "tk_total_licn_staked ?t + n \<le> u64_max" "reward_loop w tw n 0 ?xs = Inr (n, us)"
    "try_fold apply_reward (mp_positions p) us = Inr ps"
    "p' = set_backing (tk_total_supply ?t) (tk_total_licn_staked ?t + n) (p\<lparr>mp_positions := ps\<rparr>)"
    unfolding distribute_rewards_with_policy_def by (auto simp: Inr_steps split: prod.splits)
  have book: "book_ok (mp_positions p) (tk_total_supply ?t) (tk_total_licn_staked ?t)" using assms(2) by (simp add: moss_inv_def)
  have dist: "distinct (map fst (mp_positions p))" using book by (simp add: book_ok_def)
  have keys: "distinct (map fst ?xs)" using dist by (metis distinct_map distinct_sort set_sort)
  have "\<forall>(k, po) \<in> set ?xs. hm_get (mp_positions p) k = Some po" using dist by auto
  from rewards_book [OF r(2) keys this r(3) book] r(1) have "book_ok ps (tk_total_supply ?t) (tk_total_licn_staked ?t + n)" by simp
  then show ?thesis using assms(2) r(4) False by (simp add: moss_inv_def pool_value_def calculate_exchange_rate_fp_def)
qed

lemma active_loop_keys:
  "active_slash_loop loss av d xs ps = Inr (d', ps') \<Longrightarrow> distinct (map fst ps) \<Longrightarrow> distinct (map fst ps')"
proof (induction xs arbitrary: d ps)
  case (Cons x xs)
  obtain k v where x: "x = (k, v)" by force
  from Cons.prems(1) obtain d1 po where "active_slash_loop loss av d1 xs (hm_insert k po ps) = Inr (d', ps')"
    unfolding x by (auto simp: Inr_steps)
  from Cons.IH [OF this] Cons.prems(2) show ?case by simp
qed simp

lemma owed_update:
  assumes "i < length rs" "x \<le> mr_licn_to_receive (rs ! i)"
  shows "owed (rs[i := (rs ! i)\<lparr>mr_licn_to_receive := mr_licn_to_receive (rs ! i) - x\<rparr>]) + x = owed rs"
proof -
  have "mr_licn_to_receive (rs ! i) \<le> owed rs" using assms(1) by (metis elem_le_sum_list length_map nth_map)
  then show ?thesis using assms by (simp add: map_update sum_list_update)
qed

lemma cooling_loop_owed:
  "cooling_slash_loop loss av d xs m = Inr (d', m') \<Longrightarrow> distinct (map fst m) \<Longrightarrow>
   hm_sum owed m' + d' = hm_sum owed m + d \<and> distinct (map fst m')"
proof (induction xs arbitrary: d m)
  case (Cons x xs)
  obtain k i v where x: "x = ((k, i), v)" by (metis prod.collapse)
  from Cons.prems(1) obtain n rs where r: "hm_get m k = Some rs" "i < length rs" "n \<le> mr_licn_to_receive (rs ! i)"
    "cooling_slash_loop loss av (d + n) xs
       (hm_insert k (rs[i := (rs ! i)\<lparr>mr_licn_to_receive := mr_licn_to_receive (rs ! i) - n\<rparr>]) m) = Inr (d', m')"
    unfolding x by (auto simp: Inr_steps split: option.splits)
  let ?rs = "rs[i := (rs ! i)\<lparr>mr_licn_to_receive := mr_licn_to_receive (rs ! i) - n\<rparr>]"
  have "hm_sum owed (hm_insert k ?rs m) + owed rs = hm_sum owed m + owed ?rs" by (rule hm_sum_insert_old [OF r(1)])
  with Cons.IH [OF r(4)] Cons.prems(2) owed_update [OF r(2,3)] show ?case by auto
qed simp

lemma owed_prune:
  "hm_sum owed (filter (\<lambda>(_, rs). rs \<noteq> []) (map (\<lambda>(k, rs). (k, filter (\<lambda>r. 0 < mr_licn_to_receive r) rs)) m)) = hm_sum owed m"
proof -
  have "owed (filter (\<lambda>r. 0 < mr_licn_to_receive r) rs) = owed rs" for rs by (induction rs) auto
  then show ?thesis by (induction m) (auto split: prod.splits simp: filter_empty_conv)
qed

lemma slash_active_keys:
  assumes "slash_active loss p = Inr q" "distinct (map fst (mp_positions p))"
  shows "distinct (map fst (mp_positions q)) \<and> mp_requests q = mp_requests p \<and>
    tk_total_licn_staked (mp_token q) + loss = tk_total_licn_staked (mp_token p)"
proof (cases "loss = 0")
  case False
  with assms(1) show ?thesis using active_loop_keys [OF _ assms(2)]
    unfolding slash_active_def by (auto simp: Inr_steps split: prod.splits)
qed (use assms in \<open>simp add: slash_active_def\<close>)

lemma slash_cooling_owed:
  assumes "slash_cooling loss av es p = Inr q" "distinct (map fst (mp_requests p))"
  shows "hm_sum owed (mp_requests q) + loss = hm_sum owed (mp_requests p) \<and> distinct (map fst (mp_requests q)) \<and>
    mp_positions q = mp_positions p \<and> mp_token q = mp_token p"
proof (cases "loss = 0")
  case False
  let ?g = "\<lambda>(k, rs). (k, filter (\<lambda>r. 0 < mr_licn_to_receive r) rs)"
  from False assms(1) obtain m where m: "cooling_slash_loop loss av 0 (sort_key fst es) (mp_requests p) = Inr (loss, m)"
    "q = p\<lparr>mp_requests := filter (\<lambda>(_, rs). rs \<noteq> []) (map ?g m)\<rparr>"
    unfolding slash_cooling_def by (auto simp: Inr_steps split: prod.splits)
  have "map fst (map ?g m) = map fst m" by (simp add: case_prod_unfold comp_def)
  then have "distinct (map fst (filter (\<lambda>(_, rs). rs \<noteq> []) (map ?g m)))"
    using cooling_loop_owed [OF m(1) assms(2)] by (metis distinct_map_filter)
  then show ?thesis using cooling_loop_owed [OF m(1) assms(2)] m(2) owed_prune [of m] by simp
qed (use assms in \<open>simp add: slash_cooling_def\<close>)

lemma settle_Inr:
  assumes "settle_slash loss a c av es p = Inr (p', st)"
  obtains q r where "slash_active a p = Inr q" "slash_cooling c av es q = Inr r"
    "p' = set_backing (tk_total_supply (mp_token r)) (tk_total_licn_staked (mp_token r)) r" "moss_validate_invariants p' = Inr ()"
    "st = moss_settlement loss a c"
  using assms unfolding settle_slash_def if_Inr rbind_eq_Inr Let_def by auto

lemma available_cases:
  assumes "slash_available loss av es p = Inr (p', st)"
  obtains "p' = p" "st = moss_settlement loss 0 0"
  | a c where "a + c \<le> loss" "settle_slash loss a c av es p = Inr (p', st)"
proof (cases "min loss (tk_total_licn_staked (mp_token p) + av) = 0")
  case True
  with assms that(1) show ?thesis unfolding slash_available_def rbind_eq_Inr ok_or_Inr checked_add_Some Let_def by auto
next
  case False
  let ?l = "min loss (tk_total_licn_staked (mp_token p) + av)"
  from assms False obtain c where c: "c \<le> ?l" "settle_slash loss (?l - c) c av es p = Inr (p', st)"
    unfolding slash_available_def rbind_eq_Inr ok_or_Inr checked_add_Some Let_def
    by (elim exE conjE) (simp only: if_False rbind_eq_Inr ok_or_Inr checked_sub_Some, blast)
  show ?thesis by (rule that(2) [OF _ c(2)]) (use c(1) in simp)
qed

lemma slash_keeps:
  assumes "apply_staking_v2_slash loss start p = Inr (p', st)" "moss_inv p"
  shows "moss_inv p' \<and> dust_free p' \<and> pool_value p' + (ms_active_backing_loss st + ms_cooling_down_loss st) = pool_value p \<and>
    ms_active_backing_loss st + ms_cooling_down_loss st \<le> loss"
proof -
  note d = inv_distinct [OF assms(2)]
  from assms(1) have valid: "moss_validate_invariants p = Inr ()"
    unfolding apply_staking_v2_slash_def rbind_eq_Inr by auto
  then have trivial: ?thesis if "p' = p" "st = moss_settlement loss 0 0"
    using that validate_iff [of p] d by (simp add: moss_settlement_def)
  show ?thesis
  proof (cases "loss = 0")
    case True
    with assms(1) valid trivial show ?thesis by (auto simp: apply_staking_v2_slash_def)
  next
    case False
    with assms(1) valid obtain av where "slash_available loss av (eligible_requests start p) p = Inr (p', st)"
      unfolding apply_staking_v2_slash_def by (auto simp: rbind_eq_Inr Let_def)
    then show ?thesis
    proof (cases rule: available_cases)
      case (2 a c)
      from 2(2) obtain q r where qr: "slash_active a p = Inr q" "slash_cooling c av (eligible_requests start p) q = Inr r"
        "p' = set_backing (tk_total_supply (mp_token r)) (tk_total_licn_staked (mp_token r)) r" "moss_validate_invariants p' = Inr ()"
        "st = moss_settlement loss a c" by (rule settle_Inr)
      note qk = slash_active_keys [OF qr(1) conjunct1 [OF d]]
      then have "distinct (map fst (mp_requests q))" using d by simp
      note rk = slash_cooling_owed [OF qr(2) this]
      have "moss_inv p' \<and> dust_free p'" using qr(3,4) validate_iff [of p'] qk rk by simp
      then show ?thesis using 2(1) qr(3,5) qk rk by (simp add: pool_value_def moss_settlement_def)
    qed (rule trivial)
  qed
qed

section \<open>Runs of the pool\<close>

text \<open>
  The operations as their callers use them: a failed operation leaves the stored pool alone. A
  step also reports what it brought into the pool and what it took out.
\<close>

datatype moss_op =
    Op_stake "u64 option" pubkey u64 u64 lock_tier
  | Op_unstake "u64 option" pubkey u64 u64
  | Op_claim "u64 option" pubkey u64
  | Op_transfer "u64 option" pubkey pubkey u64 u64
  | Op_rewards u64 bool
  | Op_slash u64 u64
  | Op_clear_clock

fun moss_step :: "moss_op \<Rightarrow> moss_pool \<Rightarrow> moss_pool \<times> nat \<times> nat" where
  "moss_step (Op_stake now user n slot tier) p =
     (case stake_with_tier now user n slot tier p of Inr (p', _) \<Rightarrow> (p', n, 0) | Inl _ \<Rightarrow> (p, 0, 0))"
| "moss_step (Op_unstake now user n slot) p =
     (case moss_request_unstake now user n slot p of Inr (p', _) \<Rightarrow> (p', 0, 0) | Inl _ \<Rightarrow> (p, 0, 0))"
| "moss_step (Op_claim now user slot) p =
     (case claim_unstake now user slot p of (p', Inr n) \<Rightarrow> (p', 0, n) | (_, Inl _) \<Rightarrow> (p, 0, 0))"
| "moss_step (Op_transfer now from to n slot) p =
     (case moss_transfer now from to n slot p of Inr p' \<Rightarrow> (p', 0, 0) | Inl _ \<Rightarrow> (p, 0, 0))"
| "moss_step (Op_rewards n tiers) p =
     (case (if tiers then distribute_rewards n p else distribute_rewards_v2 n p) of
        Inr p' \<Rightarrow> (p', if tk_total_supply (mp_token p) = 0 then 0 else n, 0) | Inl _ \<Rightarrow> (p, 0, 0))"
| "moss_step (Op_slash loss start) p =
     (case apply_staking_v2_slash loss start p of
        Inr (p', st) \<Rightarrow> (p', 0, ms_active_backing_loss st + ms_cooling_down_loss st) | Inl _ \<Rightarrow> (p, 0, 0))"
| "moss_step Op_clear_clock p = (fst (clear_wall_clock_times p), 0, 0)"

fun moss_run :: "moss_op list \<Rightarrow> moss_pool \<times> nat \<times> nat \<Rightarrow> moss_pool \<times> nat \<times> nat" where
  "moss_run [] x = x"
| "moss_run (op # ops) (p, paid_in, paid_out) =
     (case moss_step op p of (p, i, out) \<Rightarrow> moss_run ops (p, paid_in + i, paid_out + out))"

lemma v2_rewards: "distribute_rewards_v2 n p = Inr p' \<Longrightarrow> distribute_rewards_with_policy n False p = Inr p'"
  unfolding distribute_rewards_v2_def rbind_eq_Inr by auto

lemma step_keeps:
  assumes "moss_step op p = (p', i, out)" "moss_inv p" "pool_value p \<le> u64_max"
  shows "moss_inv p' \<and> pool_value p' + out = pool_value p + i"
proof (cases op)
  case (Op_rewards n tiers)
  show ?thesis
  proof (cases "if tiers then distribute_rewards n p else distribute_rewards_v2 n p")
    case (Inr q)
    then have "distribute_rewards_with_policy n tiers p = Inr q" using v2_rewards [of n p q] by (simp add: distribute_rewards_def split: if_splits)
    from rewards_keep [OF this assms(2)] show ?thesis using assms(1) Op_rewards Inr by auto
  qed (use assms Op_rewards in simp)
qed (use assms in \<open>auto simp: clear_keeps dest: stake_keeps unstake_keeps claim_keeps transfer_keeps slash_keeps
      split: sum.splits prod.splits\<close>)

lemma run_mono: "moss_run ops (p, i, out) = (p', i', out') \<Longrightarrow> i \<le> i'"
proof (induction ops arbitrary: p i out)
  case (Cons op ops)
  obtain q j o' where "moss_step op p = (q, j, o')" by (metis prod.collapse)
  with Cons.prems Cons.IH [of q "i + j" "out + o'"] show ?case by simp
qed simp

lemma run_keeps:
  "moss_run ops (p, i, out) = (p', i', out') \<Longrightarrow> moss_inv p \<Longrightarrow> pool_value p + out = i \<Longrightarrow> i' \<le> u64_max \<Longrightarrow>
   moss_inv p' \<and> pool_value p' + out' = i'"
proof (induction ops arbitrary: p i out)
  case (Cons op ops)
  obtain q j o' where step: "moss_step op p = (q, j, o')" by (metis prod.collapse)
  with Cons.prems(1) have rest: "moss_run ops (q, i + j, out + o') = (p', i', out')" by simp
  have "pool_value p \<le> u64_max" using Cons.prems(3,4) run_mono [OF Cons.prems(1)] by linarith
  from step_keeps [OF step Cons.prems(2) this] have "moss_inv q" "pool_value q + (out + o') = i + j" using Cons.prems(3) by linarith+
  from Cons.IH [OF rest this Cons.prems(4)] show ?case .
qed simp

text \<open>
  C18: the MossStake pool keeps its books and loses no value. After every sequence of deposits,
  exits, claims, share transfers, reward distributions and slashes, in the slot-only or the
  wall-clock form and whether they succeed or fail, the shares of the positions add up to the
  stLICN supply and their worth to the recorded backing, the exchange rate is the one they give,
  and backing plus pending exits is exactly what was paid in less what was paid out or slashed.
  The pool passes the check of \<open>validate_invariants\<close> unless an exit worth nothing is pending.
\<close>

theorem moss_pool_conserves:
  assumes "moss_run ops (moss_new, 0, 0) = (p, paid_in, paid_out)" "paid_in \<le> u64_max"
  shows "hm_sum po_st_licn_amount (mp_positions p) = tk_total_supply (mp_token p) \<and>
    hm_sum worth (mp_positions p) = tk_total_licn_staked (mp_token p) \<and>
    tk_exchange_rate_fp (mp_token p) = calculate_exchange_rate_fp (mp_token p) \<and>
    pool_value p + paid_out = paid_in \<and> (moss_validate_invariants p = Inr () \<longleftrightarrow> dust_free p)"
proof -
  have "moss_inv p" "pool_value p + paid_out = paid_in" using run_keeps [OF assms(1) _ _ assms(2)] moss_new_inv by auto
  then show ?thesis using validate_iff [of p] inv_distinct [of p] by (auto simp: moss_inv_def book_ok_def)
qed

section \<open>Exits worth nothing\<close>

text \<open>
  C19: the smallest exit from a slashed position stops reward settlement. When principal and
  rewards of an unlocked position are both below its number of shares, as after a slash, its
  owner can request to unstake one share. The request is accepted although it is worth nothing;
  the pool then fails its own check, so every Staking V2 reward distribution and every further
  slash fails, and the request alone can never be claimed.
\<close>

theorem worthless_exit_blocks_settlement:
  assumes "moss_inv p" "hm_get (mp_positions p) user = Some po" "\<not> position_locked None slot po"
    and "slot + UNSTAKE_COOLDOWN_SLOTS \<le> u64_max" "1 < po_st_licn_amount po"
    and "po_licn_deposited po < po_st_licn_amount po" "po_rewards_earned po < po_st_licn_amount po"
  shows "\<exists>p' r. moss_request_unstake None user 1 slot p = Inr (p', r) \<and> mr_licn_to_receive r = 0 \<and>
    (\<exists>e. moss_validate_invariants p' = Inl e) \<and> (\<forall>n. \<exists>e. distribute_rewards_v2 n p' = Inl e) \<and>
    (\<forall>n start. \<exists>e. apply_staking_v2_slash n start p' = Inl e) \<and>
    (hm_get (mp_requests p) user = None \<longrightarrow> (\<forall>now. \<exists>e. snd (claim_unstake None user now p') = Inl e))"
proof -
  have book: "book_ok (mp_positions p) (tk_total_supply (mp_token p)) (tk_total_licn_staked (mp_token p))" using assms(1) by (simp add: moss_inv_def)
  have split: "split_position_value_for_unstake po 1 = Inr (0, 0, 0)"
    using assms(5-7) by (simp add: split_position_value_for_unstake_def as_u64_def ok_or_def checked_add_def)
  have "1 \<le> tk_total_supply (mp_token p)" using book_get [OF book assms(2)] by linarith
  then obtain p' r where u: "moss_request_unstake None user 1 slot p = Inr (p', r)"
    using assms(2-5) split by (simp add: moss_request_unstake_def ok_or_def checked_add_def checked_sub_def Let_def)
  from u obtain c where r: "mp_requests p' = hm_push user r (mp_requests p)" "mr_licn_to_receive r = c" "c = 0"
    by (rule unstake_cases) (use assms(2) split in auto)
  have inv: "moss_inv p'" using unstake_keeps [OF u assms(1)] by simp
  have "hm_get (mp_requests p') user = Some (hm_get_or [] (mp_requests p) user @ [r])" by (simp add: r(1) hm_push_def)
  then have get: "(user, hm_get_or [] (mp_requests p) user @ [r]) \<in> set (mp_requests p')" by (rule map_of_SomeD)
  then have "\<not> dust_free p'" using r(2,3) by (force simp: dust_free_def)
  then have "moss_validate_invariants p' \<noteq> Inr ()" using validate_iff [of p'] inv_distinct [OF inv] by simp
  then obtain e where e: "moss_validate_invariants p' = Inl e" by (cases "moss_validate_invariants p'") auto
  have "\<exists>e. snd (claim_unstake None user now p') = Inl e" if "hm_get (mp_requests p) user = None" for now
    using that r by (auto simp: claim_unstake_def hm_push_def hm_get_or_def Let_def wrapping_add64_def)
  then show ?thesis using u r(2,3) e by (auto simp: distribute_rewards_v2_def apply_staking_v2_slash_def)
qed

section \<open>A deposit that is slashed\<close>

definition demo_owner :: pubkey where
  "demo_owner = Pubkey (replicate 32 7)"

definition demo_position :: "u64 \<Rightarrow> staking_position" where
  "demo_position n = \<lparr>po_owner = demo_owner, po_st_licn_amount = 10, po_licn_deposited = n, po_deposited_at = 3,
     po_deposited_at_unix_seconds = 0, po_rewards_earned = 0, po_lock_tier = Flexible, po_lock_until = 0, po_lock_until_unix_seconds = 0\<rparr>"

definition demo_moss :: "u64 \<Rightarrow> u64 \<Rightarrow> moss_pool" where
  "demo_moss n rate = \<lparr>mp_token = \<lparr>tk_total_supply = 10, tk_total_licn_staked = n, tk_exchange_rate_fp = rate\<rparr>,
     mp_positions = [(demo_owner, demo_position n)], mp_requests = [], mp_total_validators = 0, mp_average_apy_bp = 0\<rparr>"

lemma demo_deposit: "stake_with_tier None demo_owner 10 3 Flexible moss_new = Inr (demo_moss 10 1000000000, 10)"
  by (simp add: stake_with_tier_def moss_new_def st_licn_new_def licn_to_st_licn_def demo_moss_def demo_position_def set_backing_def
      calculate_exchange_rate_fp_def checked_add_def ok_or_def as_u64_def u64_max_def Let_def)

lemma demo_valid:
  "moss_validate_invariants (demo_moss 10 1000000000) = Inr ()" "moss_validate_invariants (demo_moss 5 500000000) = Inr ()"
  by (simp_all add: moss_validate_invariants_def demo_moss_def validate_position_def demo_position_def calculate_exchange_rate_fp_def
      checked_add_def ok_or_def as_u64_def u64_max_def)

lemma demo_slash:
  "apply_staking_v2_slash 5 0 (demo_moss 10 1000000000) = Inr (demo_moss 5 500000000, moss_settlement 5 5 0)"
proof -
  have "slash_active 5 (demo_moss 10 1000000000) = Inr (demo_moss 5 1000000000)"
    by (simp add: slash_active_def demo_moss_def demo_position_def checked_add_def checked_sub_def ok_or_def slash_share_def slash_position_def
        u64_max_def Let_def)
  moreover have "set_backing 10 5 (demo_moss 5 1000000000) = demo_moss 5 500000000"
    by (simp add: set_backing_def demo_moss_def calculate_exchange_rate_fp_def as_u64_def)
  ultimately have "settle_slash 5 5 0 0 [] (demo_moss 10 1000000000) = Inr (demo_moss 5 500000000, moss_settlement 5 5 0)"
    using demo_valid(2) by (simp add: settle_slash_def slash_cooling_def demo_moss_def)
  moreover have "eligible_requests 0 (demo_moss 10 1000000000) = []" by (simp add: eligible_requests_def demo_moss_def)
  moreover have "tk_total_licn_staked (mp_token (demo_moss 10 1000000000)) = 10" by (simp add: demo_moss_def)
  ultimately show ?thesis using demo_valid(1)
    by (simp add: apply_staking_v2_slash_def slash_available_def checked_add_def checked_sub_def ok_or_def u64_max_def)
qed

lemma demo_run:
  "moss_run [Op_stake None demo_owner 10 3 Flexible, Op_slash 5 0] (moss_new, 0, 0) = (demo_moss 5 500000000, 10, 5)"
  by (simp add: demo_deposit demo_slash moss_settlement_def)

theorem moss_pool_conserves_witness:
  "moss_run [Op_stake None demo_owner 10 3 Flexible, Op_slash 5 0] (moss_new, 0, 0) = (demo_moss 5 500000000, 10, 5) \<and>
   pool_value (demo_moss 5 500000000) + 5 = 10 \<and> moss_validate_invariants (demo_moss 5 500000000) = Inr ()"
proof -
  have "(10 :: nat) \<le> u64_max" "dust_free (demo_moss 5 500000000)" by (simp_all add: u64_max_def dust_free_def demo_moss_def)
  with moss_pool_conserves [OF demo_run] demo_run show ?thesis by blast
qed

theorem worthless_exit_blocks_settlement_witness:
  "\<exists>p' r. moss_request_unstake None demo_owner 1 4 (demo_moss 5 500000000) = Inr (p', r) \<and> mr_licn_to_receive r = 0 \<and>
     (\<exists>e. distribute_rewards_v2 100 p' = Inl e) \<and> (\<exists>e. snd (claim_unstake None demo_owner 9999999 p') = Inl e)"
proof -
  let ?p = "demo_moss 5 500000000"
  have "moss_inv ?p" using validate_iff [of ?p] demo_valid(2) by (simp add: demo_moss_def)
  moreover have "hm_get (mp_positions ?p) demo_owner = Some (demo_position 5)" "hm_get (mp_requests ?p) demo_owner = None"
    by (simp_all add: demo_moss_def)
  moreover have "\<not> position_locked None 4 (demo_position 5)" by (simp add: position_locked_def demo_position_def)
  moreover have "4 + UNSTAKE_COOLDOWN_SLOTS \<le> u64_max" by (simp add: u64_max_def)
  moreover have "1 < po_st_licn_amount (demo_position 5)" "po_licn_deposited (demo_position 5) < po_st_licn_amount (demo_position 5)"
    "po_rewards_earned (demo_position 5) < po_st_licn_amount (demo_position 5)" by (simp_all add: demo_position_def)
  ultimately show ?thesis using worthless_exit_blocks_settlement [of ?p demo_owner "demo_position 5" 4] by blast
qed

end
