(* ===== verification/Spec2Isabelle.thy ===== *)
theory Spec2Isabelle
  imports Signing Blocks Monetary_Policy Stake_Info Stake_Pool_Invariant Vote_Tracking Slashing_Tracker Execution_Examples Parallel_Groups Moss_Stake_Invariant
begin

text \<open>
  A verification of the Lichen node: its proof-of-stake BFT consensus, the stake and slashing
  rules that give validators their power, and the execution of a block's transactions on the
  ledger. Paths are relative to \<open>src/\<close>.

  \<^bold>\<open>The program.\<close> A validator (\<open>validator/src/\<close>) runs a Tendermint-style engine
  (\<open>validator/src/consensus.rs\<close>) per height. The leader, elected from the validator set by stake,
  proposes a block; validators prevote and precommit it with post-quantum signatures over
  domain-separated bytes; a block with precommits of more than two thirds of the power frozen at
  the start of the height is committed. The commit signatures travel with the block, any node
  re-verifies them (\<open>core/src/block.rs\<close>, \<open>core/src/consensus.rs\<close>), and the next block carries them
  as a certificate. Conflicting votes are evidence for the slashing tracker, which takes stake
  from the stake pool. The transactions of a block run on a batch over the committed store
  (\<open>core/src/processor/\<close>): replay and signature checks, fee, rent, instructions, receipt; the batch
  is committed as a whole.

  \<^bold>\<open>Conventions.\<close> The model is a shallow embedding. A struct is a record whose fields carry a prefix,
  an enum a datatype, a method with \<open>&mut self\<close> a function that returns the changed state, a
  \<open>Result\<close> a value of \<open>err + 'a\<close>. Unsigned integers are naturals and their width is in the
  checked, saturating and wrapping operations of \<open>Lichen_Prelude\<close>; bytes are 8-bit words. Hash and
  B-tree maps are association lists; where the order in which a hash map is walked could matter,
  it is a parameter of the statement. Named constants that are plain literals are abbreviations.
  Error messages are the constant part of the format strings.
  Third-party code is an argument: \<open>crypto\<close> (SHA-256, ML-DSA, SLH-DSA) with \<open>crypto_laws\<close>,
  \<open>codec\<close>, \<open>ix_codec\<close> and \<open>nonce_codec\<close> (bincode and JSON), and in \<open>exec_env\<close> the WASM and EVM
  engines. Each property that assumes something of them has a witness with concrete instances.

  \<^bold>\<open>Theories and code.\<close>
  \<^item> \<open>Lichen_Prelude\<close>: integers, maps, results, byte encodings. \<open>Quorum\<close>: the weighted-quorum
    interface, a locale interpreted for the engine's power snapshot (\<open>Bft_Invariant\<close>) and for the
    rules of certificate verification (\<open>Commit_Certificate\<close>).
  \<^item> \<open>Crypto_Types\<close>, \<open>Signing\<close>: \<open>core/src/account.rs\<close> (keys, signatures), \<open>hash.rs\<close>, \<open>signing.rs\<close>.
  \<^item> \<open>Blocks\<close>: \<open>core/src/transaction.rs\<close> and \<open>block.rs\<close>.
  \<^item> \<open>Monetary_Policy\<close>, \<open>Stake_Info\<close>, \<open>Staking_V2_State\<close>, \<open>Stake_Pool\<close>, \<open>Stake_Pool_Invariant\<close>,
    \<open>Validator_Set\<close>: issuance, stake, delegation, Staking V2 epoch data, leader election of
    \<open>core/src/consensus.rs\<close>.
  \<^item> \<open>Bft_Types\<close>: messages, evidence and the vote authority of \<open>core/src/consensus.rs\<close>.
    \<open>Bft_Engine\<close>, \<open>Bft_Handlers\<close>: the engine of \<open>validator/src/consensus.rs\<close>, handler by handler.
  \<^item> \<open>Tendermint_Spec\<close>: the abstract protocol. \<open>Bft_Invariant\<close>, \<open>Bft_Steps\<close>, \<open>Bft_Refinement\<close>,
    \<open>Bft_Events\<close>: the engine invariant, the handlers as sequences of primitive updates, and their
    simulation by the protocol. \<open>Bft_Agreement\<close>, \<open>Bft_Signing_Discipline\<close>, \<open>Bft_Liveness\<close>,
    \<open>Bft_Properties\<close>: the results about runs of the engine.
  \<^item> \<open>Commit_Certificate\<close>: commit verification, BFT time and canonical certificates.
    \<open>Vote_Tracking\<close>: slot votes, commitment levels, fork choice. \<open>Slashing_Tracker\<close>: evidence,
    downtime, suspensions, bans, penalties, with the parameters of \<open>core/src/genesis.rs\<close>.
  \<^item> \<open>Restrictions\<close>: \<open>core/src/restrictions.rs\<close>. \<open>Ledger\<close>: \<open>core/src/account.rs\<close> (balances),
    \<open>core/src/state/account_state.rs\<close>, \<open>batch_state.rs\<close> and \<open>processor/batch_access.rs\<close>. \<open>Fees\<close>:
    \<open>processor/fees.rs\<close>, \<open>rent_collection.rs\<close>. \<open>Nonce\<close>: \<open>processor/nonce_handlers.rs\<close>.
  \<^item> \<open>Execution\<close>: \<open>processor/execution.rs\<close>, \<open>system_basics.rs\<close> and the signature policy of
    \<open>processor.rs\<close>; \<open>Execution_Properties\<close> and \<open>Execution_Examples\<close> hold its results and runs.
    \<open>Parallel_Groups\<close>: the grouping of transactions for parallel threads.
  \<^item> \<open>Moss_Stake\<close>, \<open>Moss_Stake_Invariant\<close>: the liquid staking pool of \<open>core/src/mossstake.rs\<close> and the
    conservation of its value.
\<close>

text \<open>
  \<^bold>\<open>What is shown.\<close>
  \<^item> Consensus. Honest engines never commit different blocks at a height while Byzantine validators
    hold less than a third of the power, for every scheduling of messages and timeouts; this
    follows from a refinement of the abstract protocol. No engine releases two conflicting votes,
    also after recovery from its log. A round with a correct leader commits.
  \<^item> Certificates. Committed blocks carry certificates that verify; two conflicting certificates of
    a round convict validators with a third of the power; certificates survive their transaction
    envelope, and the BFT time is one that a majority of the stake brackets.
  \<^item> Votes and slashing. One block per slot is confirmed, commitment levels are ordered under every
    interleaving, fork choice ignores arrival order; bans are permanent, evidence counts once and
    penalties respect the minimum stake.
  \<^item> Stake. Every sequence of pool operations keeps the invariants that are checked on load and
    conserves what was deposited; rewards, averages, inflation and leader election meet their
    specifications. The liquid staking pool keeps its books and accounts for all value paid in.
  \<^item> Ledger. Account operations keep the balance split; a block keeps the supply; a failed
    transaction costs its fee and nothing else; no transaction takes effect twice; parallel groups
    are the classes of conflicting transactions and computing them terminates.
  \<^item> Limits. Several theorems state behaviour that the comments of the code exclude: nil votes that
    serve as double-vote evidence, a single vote that sets the round of an engine, EVM
    transactions that restore spent funds, failed durable-nonce transactions that run again,
    refunds and treasury charges that create value, exits worth nothing that stop the settlement
    of liquid staking.

  \<^bold>\<open>Bounds and termination.\<close> There is no fuel. Loops are structural recursions over the lists they
  walk, or \<open>function\<close>s with a measure (Merkle levels, integer square root, bisection of the
  saturation point). The union-find loops, whose termination depends on the absence of cycles, are
  \<open>partial_function\<close>s into \<open>option\<close>, and that they return is a theorem. The doubling of timeouts and
  the decay of inflation recurse on the round and on the year, and the results about them hold
  for all values. Rounds wrap at \<open>2 ^ 32\<close>; statements about runs assume room for the rounds seen
  (\<open>round_room\<close>), since at the wrap the engine would reuse round numbers.

  \<^bold>\<open>Assumptions.\<close> \<open>crypto_laws\<close> states the lengths of keys, signatures and hashes and that a
  signature verifies for what was signed. That honest signatures are not forged is part of the
  events of a run (\<open>event_ok\<close>): a vote that verifies for an honest validator was cast by it. The
  network and the other validators are otherwise free. Reads and writes of the database succeed.

  \<^bold>\<open>Not modelled.\<close> The instruction handlers for staking, governance, oracles, shielded transfers,
  NFTs and contract metadata are arguments of the execution model, as are the WASM runtime and the
  EVM interpreter; the results that depend on what handlers do with balances are stated for
  transfers, account creation and nonces. The stake pool's reward plans at epoch boundaries, its
  bootstrap grants and its storage format are left out. RocksDB columns, indexes, snapshots,
  archives, metrics and the state root are storage around the fields of \<open>store\<close>. Zero-knowledge
  circuits are third-party cryptography. Sockets, tasks, files and clocks (networking, block sync,
  write-ahead log I/O, RPC, command line, custody, faucet), floating-point price code, on-chain
  contracts and the web front ends are outside the model; multisig records and the mempool are
  pure code that nothing modelled here calls. Snapshots, hashes and yield figures of the liquid
  staking pool are left out, and so are its handlers, through which execution would reach it.
\<close>

end
